(* ===== verification/Prelude.thy ===== *)
theory Prelude
  imports Main "HOL-Library.Word"
begin

text \<open>
  Shared vocabulary of the development: the machine integer types of the C code, the ways a
  kernel routine can fail to return, the loop combinators that render the kernel's
  \<open>for (i = 0; i < n; i += step)\<close> loops, and word lemmas about page arithmetic.
\<close>

unbundle bit_operations_syntax

section \<open>Machine integers\<close>

type_synonym u8 = "8 word"
type_synonym u16 = "16 word"
type_synonym u32 = "32 word"
type_synonym u64 = "64 word"

named_theorems kernel_defs \<open>definitions that are unfolded together\<close>
named_theorems res_simps \<open>rewriting of kernel results\<close>

text \<open>Widening keeps the value.\<close>

lemma unat_ucast_u64: "unat (ucast (x :: 'a::len word) :: u64) = unat x" if "LENGTH('a) \<le> 64"
proof -
  have "unat x < 2 ^ LENGTH('a)" by (rule unsigned_less)
  also have "(2 :: nat) ^ LENGTH('a) \<le> 2 ^ 64" by (rule power_increasing [OF that]) simp
  finally show ?thesis by (simp add: unsigned_ucast_eq take_bit_nat_eq_self)
qed

section \<open>Results of kernel routines\<close>

text \<open>
  A routine either returns a value and the new state (\<open>Inr\<close>) or never returns (\<open>Inl\<close>):
  \<open>Hcf s\<close> is the \<open>hcf()\<close> loop of \<open>util.h\<close>, entered with the state \<open>s\<close> (so the
  last messages are still visible); \<open>Spin\<close> is a loop whose exit condition can no longer
  become true; \<open>Fault\<close> is an access the C code has no defined behaviour for (an element
  of an empty array, a field of a NULL response).
\<close>

datatype 's stop = Hcf 's | Spin | Fault

type_synonym ('a, 's) res = "'s stop + 'a \<times> 's"

definition bindk :: "('a, 's) res \<Rightarrow> ('a \<Rightarrow> 's \<Rightarrow> ('b, 's) res) \<Rightarrow> ('b, 's) res" where
  "bindk r f = (case r of Inl e \<Rightarrow> Inl e | Inr (a, s) \<Rightarrow> f a s)"

lemma bindk_simps [simp, res_simps]:
  "bindk (Inl e) f = Inl e"
  "bindk (Inr (a, s)) f = f a s"
  by (simp_all add: bindk_def)

lemma bindk_eq_Inr [res_simps]:
  "bindk r f = Inr z \<longleftrightarrow> (\<exists>a s. r = Inr (a, s) \<and> f a s = Inr z)"
  by (auto simp: bindk_def split: sum.splits)

lemma bindk_assoc: "bindk (bindk r f) g = bindk r (\<lambda>a s. bindk (f a s) g)"
  by (auto simp: bindk_def split: sum.splits)

section \<open>Loops\<close>

text \<open>
  \<open>for (size_t i = start; i < len; i += step) body\<close> with a 64-bit counter. When
  \<open>i + step\<close> wraps, the counter restarts below \<open>len\<close> and the C loop never ends (every
  step used here divides \<open>2 ^ 64\<close>, so the counter runs through the same values again).
\<close>

function for_step :: "u64 \<Rightarrow> u64 \<Rightarrow> u64 \<Rightarrow> (u64 \<Rightarrow> 's \<Rightarrow> (unit, 's) res) \<Rightarrow> 's \<Rightarrow> (unit, 's) res" where
  "for_step step i len body s =
     (if i < len
      then bindk (body i s) (\<lambda>_ s'. if i + step \<le> i then Inl Spin
                                    else for_step step (i + step) len body s')
      else Inr ((), s))"
  by pat_completeness auto
termination
proof (relation "measure (\<lambda>(step, i, len, body, s). unat len - unat i)", goal_cases)
  case 1
  show ?case by simp
next
  case (2 step i len body s x xa)
  then have "unat i < unat len" "unat i < unat (i + step)"
    by (simp_all add: not_le word_less_nat_alt [symmetric])
  then show ?case by simp
qed

text \<open>
  The search loop of the allocators: leave the loop with the first counter at which the test
  holds (\<open>break\<close>), or with \<open>None\<close> when it holds at none.
\<close>

function search_step ::
    "u64 \<Rightarrow> u64 \<Rightarrow> u64 \<Rightarrow> (u64 \<Rightarrow> 's \<Rightarrow> (bool, 's) res) \<Rightarrow> 's \<Rightarrow> (u64 option, 's) res" where
  "search_step step i len test s =
     (if i < len
      then bindk (test i s) (\<lambda>hit s'. if hit then Inr (Some i, s')
                                      else if i + step \<le> i then Inl Spin
                                      else search_step step (i + step) len test s')
      else Inr (None, s))"
  by pat_completeness auto
termination
proof (relation "measure (\<lambda>(step, i, len, test, s). unat len - unat i)", goal_cases)
  case 1
  show ?case by simp
next
  case (2 step i len test s x xa)
  then have "unat i < unat len" "unat i < unat (i + step)"
    by (simp_all add: not_le word_less_nat_alt [symmetric])
  then show ?case by simp
qed

declare for_step.simps [simp del] search_step.simps [simp del]

text \<open>The number of passes of such a loop, as a natural number.\<close>

definition iters :: "u64 \<Rightarrow> u64 \<Rightarrow> nat" where
  "iters step len = (unat len + unat step - 1) div unat step"

lemma iters_less: "0 < unat step \<Longrightarrow> k < iters step len \<longleftrightarrow> k * unat step < unat len"
  unfolding iters_def by (simp add: less_eq_div_iff_mult_less_eq Suc_le_eq [symmetric] algebra_simps) linarith

text \<open>The counter of pass \<open>k\<close>, and why it does not wrap.\<close>

lemma loop_counter:
  assumes "0 < unat step" and "iters step len * unat step < 2 ^ 64" and "k \<le> iters step len"
  shows "unat (of_nat k * step) = k * unat step"
proof -
  have "k * unat step \<le> iters step len * unat step"
    using assms(3) by (rule mult_le_mono1)
  with assms(2) have "k * unat step < 2 ^ 64" by linarith
  then show ?thesis by (simp add: unat_word_ariths unat_of_nat mod_mult_left_eq)
qed

lemma loop_test:
  assumes "0 < unat step" and "iters step len * unat step < 2 ^ 64" and "k \<le> iters step len"
  shows "of_nat k * step < len \<longleftrightarrow> k < iters step len"
  using loop_counter [OF assms] assms(1) by (simp add: word_less_nat_alt iters_less)

lemma loop_next:
  assumes "0 < unat step" and "iters step len * unat step < 2 ^ 64" and "k < iters step len"
  shows "of_nat k * step + step = of_nat (Suc k) * step"
    and "\<not> of_nat k * step + step \<le> of_nat k * step"
proof -
  show e: "of_nat k * step + step = of_nat (Suc k) * step" by (simp add: algebra_simps)
  show "\<not> of_nat k * step + step \<le> of_nat k * step"
    using loop_counter [OF assms(1,2), of k] loop_counter [OF assms(1,2), of "Suc k"] assms(1,3)
    unfolding e by (simp add: word_le_nat_alt)
qed

text \<open>
  Total correctness: when every pass returns and keeps \<open>P\<close>, the loop returns and \<open>P\<close> holds of
  the number of passes.
\<close>

lemma for_step_total_from:
  assumes "0 < unat step" and "iters step len * unat step < 2 ^ 64" and "k \<le> iters step len"
    and "P k s"
    and body: "\<And>k s. k < iters step len \<Longrightarrow> P k s \<Longrightarrow>
                 \<exists>s'. body (of_nat k * step) s = Inr ((), s') \<and> P (Suc k) s'"
  shows "\<exists>s'. for_step step (of_nat k * step) len body s = Inr ((), s') \<and> P (iters step len) s'"
  using assms(3,4)
proof (induction "iters step len - k" arbitrary: k s)
  case 0
  then show ?case using loop_test [OF assms(1,2), of k]
    by (subst for_step.simps) simp
next
  case (Suc d)
  then have k: "k < iters step len" by simp
  from body [OF k Suc.prems(2)] obtain s' where
    s': "body (of_nat k * step) s = Inr ((), s')" "P (Suc k) s'" by blast
  have "\<exists>s''. for_step step (of_nat (Suc k) * step) len body s' = Inr ((), s'') \<and> P (iters step len) s''"
    using Suc.hyps(1) [of "Suc k" s'] Suc.hyps(2) k s'(2) by simp
  then show ?case
    using k s'(1) loop_test [OF assms(1,2), of k] loop_next [OF assms(1,2) k]
    by (subst for_step.simps) simp
qed

lemma for_step_total:
  assumes "0 < unat step" and "iters step len * unat step < 2 ^ 64" and "P 0 s"
    and "\<And>k s. k < iters step len \<Longrightarrow> P k s \<Longrightarrow>
           \<exists>s'. body (of_nat k * step) s = Inr ((), s') \<and> P (Suc k) s'"
  shows "\<exists>s'. for_step step 0 len body s = Inr ((), s') \<and> P (iters step len) s'"
  using for_step_total_from [OF assms(1,2), where k = 0 and P = P and s = s and body = body] assms(3,4)
  by simp

lemma for_step_empty [simp]: "for_step step 0 0 body s = Inr ((), s)"
  by (subst for_step.simps) simp

text \<open>The search loop, for a test that only reads the state.\<close>

lemma search_step_pure_from:
  assumes "0 < unat step" and "iters step len * unat step < 2 ^ 64" and "k \<le> iters step len"
    and test: "\<And>k. k < iters step len \<Longrightarrow> test (of_nat k * step) s = Inr (p k, s)"
  shows "search_step step (of_nat k * step) len test s =
           Inr (if \<exists>j. k \<le> j \<and> j < iters step len \<and> p j
                then Some (of_nat (LEAST j. k \<le> j \<and> j < iters step len \<and> p j) * step) else None, s)"
  using assms(3)
proof (induction "iters step len - k" arbitrary: k)
  case 0
  then show ?case using loop_test [OF assms(1,2), of k]
    by (subst search_step.simps) auto
next
  case (Suc d)
  then have k: "k < iters step len" by simp
  show ?case
  proof (cases "p k")
    case True
    then have "(LEAST j. k \<le> j \<and> j < iters step len \<and> p j) = k"
      using k by (auto intro: Least_equality)
    moreover have "\<exists>j. k \<le> j \<and> j < iters step len \<and> p j" using True k by auto
    ultimately show ?thesis
      using True k loop_test [OF assms(1,2), of k] test [OF k] by (subst search_step.simps) simp
  next
    case False
    then have "(\<lambda>j. k \<le> j \<and> j < iters step len \<and> p j) = (\<lambda>j. Suc k \<le> j \<and> j < iters step len \<and> p j)"
      by (auto simp: Suc_le_eq le_less)
    then show ?thesis
      using False k loop_test [OF assms(1,2), of k] loop_next [OF assms(1,2) k] test [OF k]
        Suc.hyps(1) [of "Suc k"] Suc.hyps(2)
      by (subst search_step.simps) (simp, blast)
  qed
qed

lemma search_step_pure:
  assumes "0 < unat step" and "iters step len * unat step < 2 ^ 64"
    and "\<And>k. k < iters step len \<Longrightarrow> test (of_nat k * step) s = Inr (p k, s)"
  shows "search_step step 0 len test s =
           Inr (if \<exists>j<iters step len. p j
                then Some (of_nat (LEAST j. j < iters step len \<and> p j) * step) else None, s)"
  using search_step_pure_from [where k = 0 and p = p and test = test and s = s, OF assms(1,2) _ assms(3)] by (simp cong: if_cong)

end
