(* ===== verification/Memory.thy ===== *)
theory Memory
  imports Prelude
begin

text \<open>
  The memory of the machine as the kernel sees it: one byte per 64-bit virtual address, with
  the little-endian 32-bit and 64-bit accesses that the C code makes through
  \<open>uint32_t *\<close> and \<open>uint64_t *\<close> pointers. The kernel reaches physical memory through the
  higher-half direct map, so a physical address \<open>p\<close> is the cell \<open>p + hhdm_offset\<close>.
\<close>

type_synonym mem = "u64 \<Rightarrow> u8"

section \<open>Little-endian accesses\<close>

definition load_word :: "nat \<Rightarrow> mem \<Rightarrow> u64 \<Rightarrow> 'a::len word" where
  "load_word n m p = word_of_int (horner_sum uint (2 ^ 8) (map (\<lambda>k. m (p + of_nat k)) [0..<n]))"

definition load64 :: "mem \<Rightarrow> u64 \<Rightarrow> u64" where
  "load64 m p = load_word 8 m p"

definition load32 :: "mem \<Rightarrow> u64 \<Rightarrow> u32" where
  "load32 m p = load_word 4 m p"

definition store64 :: "mem \<Rightarrow> u64 \<Rightarrow> u64 \<Rightarrow> mem" where
  "store64 m p v = (\<lambda>a. if unat (a - p) < 8 then ucast (drop_bit (8 * unat (a - p)) v) else m a)"

lemma bit_load_word:
  "bit (load_word n m p :: 'a::len word) i \<longleftrightarrow>
     i < LENGTH('a) \<and> i div 8 < n \<and> bit (m (p + of_nat (i div 8))) (i mod 8)"
  using bit_horner_sum_uint_exp_iff [of "map (\<lambda>k. m (p + of_nat k)) [0..<n]" i]
  by (auto simp: load_word_def bit_word_of_int_iff)

lemma bit_load64: "bit (load64 m p) i \<longleftrightarrow> i < 64 \<and> bit (m (p + of_nat (i div 8))) (i mod 8)"
  by (auto simp: load64_def bit_load_word)

lemma load64_cong:
  assumes "\<And>k. k < 8 \<Longrightarrow> m (p + of_nat k) = m' (p + of_nat k)"
  shows "load64 m p = load64 m' p"
  by (rule bit_word_eqI) (simp add: bit_load64 assms)

lemma load64_eq_0_iff: "load64 m p = 0 \<longleftrightarrow> (\<forall>k<8. m (p + of_nat k) = 0)"
proof
  assume z: "load64 m p = 0"
  show "\<forall>k<8. m (p + of_nat k) = 0"
  proof (intro allI impI bit_word_eqI)
    fix k i :: nat assume "k < 8" "i < LENGTH(8)"
    then have "bit (load64 m p) (8 * k + i) \<longleftrightarrow> bit (m (p + of_nat k)) i"
      by (simp add: bit_load64)
    with z show "bit (m (p + of_nat k)) i \<longleftrightarrow> bit (0 :: u8) i" by simp
  qed
next
  assume "\<forall>k<8. m (p + of_nat k) = 0"
  then show "load64 m p = 0" by (intro bit_word_eqI) (simp add: bit_load64)
qed

section \<open>Alignment and pages\<close>

definition aligned :: "nat \<Rightarrow> u64 \<Rightarrow> bool" where
  "aligned n p \<longleftrightarrow> n dvd unat p"

definition apart :: "u64 \<Rightarrow> u64 \<Rightarrow> bool" where
  "apart p q \<longleftrightarrow> 8 \<le> unat (p - q) \<and> 8 \<le> unat (q - p)"

definition page :: "u64 \<Rightarrow> u64" where
  "page a = drop_bit 12 a"

lemma unat_page: "unat (page a) = unat a div 4096"
  using unat_drop_bit_eq [of 12 a] by (simp add: page_def drop_bit_eq_div)

lemma page_eq_iff: "page a = page b \<longleftrightarrow> unat a div 4096 = unat b div 4096"
  by (simp add: word_unat_eq_iff unat_page)

lemma unat_sub_cases:
  "unat (p - q :: u64) = (if unat q \<le> unat p then unat p - unat q else unat p + 2 ^ 64 - unat q)"
  by (simp add: unat_sub_if')

lemma unat_lt64: "unat (p :: u64) < 18446744073709551616"
  using unsigned_less [of p, where ?'a = nat] by simp

lemma unat_add_no_wrap: "unat (p :: u64) + unat q < 2 ^ 64 \<Longrightarrow> unat (p + q) = unat p + unat q"
  by (simp add: unat_word_ariths)

lemma aligned_cases:
  assumes "aligned n p"
  obtains x where "unat p = n * x"
  using assms by (auto simp: aligned_def)

lemma aligned_apart:
  assumes "aligned 8 p" and "aligned 8 q" and "p \<noteq> q"
  shows "apart p q"
proof -
  obtain x where x: "unat p = 8 * x" using assms(1) by (rule aligned_cases)
  obtain y where y: "unat q = 8 * y" using assms(2) by (rule aligned_cases)
  have "x < 2305843009213693952" "y < 2305843009213693952"
    using unat_lt64 [of p] unat_lt64 [of q] x y by simp_all
  moreover have "x \<noteq> y" using assms(3) x y by (auto simp: word_unat_eq_iff)
  ultimately show ?thesis
    unfolding apart_def unat_sub_cases x y by auto
qed

lemma aligned_page: "aligned 4096 p \<Longrightarrow> aligned 8 p"
  unfolding aligned_def by (rule dvd_trans [of _ 4096]) simp_all

lemma unat_offset:
  assumes "aligned 4096 t" and "unat i < 4096"
  shows "unat (t + i) = unat t + unat i"
proof -
  obtain x where x: "unat t = 4096 * x" using assms(1) by (rule aligned_cases)
  then have "x < 4503599627370496" using unat_lt64 [of t] by simp
  with x assms(2) show ?thesis by (intro unat_add_no_wrap) simp
qed

lemma page_offset:
  assumes "aligned 4096 t" and "unat i < 4096"
  shows "page (t + i) = page t"
  using assms(1) by (rule aligned_cases) (simp add: page_eq_iff unat_offset [OF assms] assms(2))

lemma aligned_offset: "aligned 4096 t \<Longrightarrow> aligned 8 i \<Longrightarrow> unat i < 4096 \<Longrightarrow> aligned 8 (t + i)"
  using aligned_page [of t] by (simp add: aligned_def unat_offset)

lemma same_page_iff:
  assumes "aligned 4096 t"
  shows "unat (a - t) < 4096 \<longleftrightarrow> page a = page t"
proof
  assume "unat (a - t) < 4096"
  then have "page (t + (a - t)) = page t" by (rule page_offset [OF assms])
  then show "page a = page t" by simp
next
  assume p: "page a = page t"
  obtain x where x: "unat t = 4096 * x" using assms by (rule aligned_cases)
  from p x have "unat a div 4096 = x" by (simp add: page_eq_iff)
  with x have "unat t \<le> unat a" "unat a - unat t < 4096" by auto
  then show "unat (a - t) < 4096" by (simp add: unat_sub_cases)
qed

lemma aligned_page_inj: "aligned 4096 t \<Longrightarrow> aligned 4096 u \<Longrightarrow> page t = page u \<Longrightarrow> t = u"
  by (auto elim!: aligned_cases simp: page_eq_iff) (simp add: word_unat_eq_iff)

text \<open>The eight bytes of an aligned cell lie in one page.\<close>

lemma cell_page:
  assumes "aligned 8 p" and "k < 8"
  shows "page (p + of_nat k) = page p"
proof -
  obtain x where x: "unat p = 8 * x" using assms(1) by (rule aligned_cases)
  then have "x < 2305843009213693952" using unat_lt64 [of p] by simp
  with x assms(2) have "unat (p + of_nat k) = 8 * x + k"
    by (subst unat_add_no_wrap) (simp_all add: unat_of_nat)
  moreover have "(8 * x + k) div 4096 = 8 * x div 4096"
  proof -
    have "(8 * x + k) div 8 div 512 = 8 * x div 8 div 512" using assms(2) by simp
    then show ?thesis by (simp only: div_mult2_eq [symmetric]) simp
  qed
  ultimately show ?thesis using x by (simp add: page_eq_iff)
qed

section \<open>Reading back a stored cell\<close>

lemma load64_store64_same: "load64 (store64 m p v) p = v"
  by (rule bit_word_eqI)
    (simp add: bit_load64 store64_def bit_ucast_iff bit_drop_bit_eq unat_of_nat less_mult_imp_div_less)

lemma apart_offset:
  assumes "apart p q" and "k < 8"
  shows "8 \<le> unat (p + of_nat k - q)"
proof -
  from assms have "8 \<le> unat (p - q)" "8 \<le> unat (q - p)" by (simp_all add: apart_def)
  moreover have "unat (p + of_nat k - q) = (unat (p - q) + k) mod 2 ^ 64"
  proof -
    have "p + of_nat k - q = (p - q) + of_nat k" by simp
    then show ?thesis using assms(2) by (simp only: unat_word_ariths(1)) (simp add: unat_of_nat)
  qed
  moreover have "p \<noteq> q" using calculation(1) by auto
  then have "unat (q - p) = 2 ^ 64 - unat (p - q)"
    using unat_lt64 [of p] unat_lt64 [of q] by (auto simp: unat_sub_cases word_unat_eq_iff)
  ultimately show ?thesis using assms(2) by simp
qed

lemma load64_store64_apart:
  assumes "apart p q"
  shows "load64 (store64 m q v) p = load64 m p"
proof (rule load64_cong)
  fix k :: nat assume "k < 8"
  from apart_offset [OF assms this] show "store64 m q v (p + of_nat k) = m (p + of_nat k)"
    by (simp add: store64_def)
qed

lemma store64_byte_load64:
  assumes "k < 8"
  shows "ucast (drop_bit (8 * k) (load64 m p)) = m (p + of_nat k)"
  using assms by (intro bit_word_eqI) (simp add: bit_ucast_iff bit_drop_bit_eq bit_load64)

lemma store64_load64: "store64 m p (load64 m p) = m"
  by (rule ext) (simp add: store64_def store64_byte_load64)

lemma store64_store64_same: "store64 (store64 m p v) p w = store64 m p w"
  by (rule ext) (simp add: store64_def)

lemma store64_other_page: "aligned 8 p \<Longrightarrow> page a \<noteq> page p \<Longrightarrow> store64 m p v a = m a"
  using cell_page [of p "unat (a - p)"] by (auto simp: store64_def)

text \<open>
  The laws of a memory of cells, and what a client proves from them alone.
\<close>

locale cell_store =
  fixes load :: "'m \<Rightarrow> 'a \<Rightarrow> 'v"
    and store :: "'m \<Rightarrow> 'a \<Rightarrow> 'v \<Rightarrow> 'm"
    and cell :: "'a \<Rightarrow> bool"
  assumes load_store_same: "load (store m p v) p = v"
    and load_store_other: "cell p \<Longrightarrow> cell q \<Longrightarrow> p \<noteq> q \<Longrightarrow> load (store m q v) p = load m p"
    and store_load: "store m p (load m p) = m"
    and store_store: "store (store m p v) p w = store m p w"
begin

lemma load_store: "cell p \<Longrightarrow> cell q \<Longrightarrow> load (store m q v) p = (if p = q then v else load m p)"
  by (simp add: load_store_same load_store_other)

lemma undo: "store (store m p v) p (load m p) = m"
  by (simp add: store_store store_load)

lemma update_undo:
  assumes "\<And>x. g (f x) = x \<or> x \<noteq> load m p"
  shows "store (store m p (f (load m p))) p (g (load (store m p (f (load m p))) p)) = m"
  using assms [of "load m p"] by (simp add: load_store_same undo)

end

interpretation mem64: cell_store load64 store64 "aligned 8"
  by unfold_locales
    (simp_all add: load64_store64_same load64_store64_apart aligned_apart store64_load64
      store64_store64_same)

end
