(* ===== verification/Util.thy ===== *)
theory Util
  imports Prelude
begin

text \<open>
  \<open>src/util.h\<close>: integer helpers, bit masks and port input/output. A zero divisor traps in C and
  is 0 in HOL; every caller passes a non-zero constant, and the theorems assume it.
\<close>

section \<open>Rounding\<close>

definition MIN_u64 :: "u64 \<Rightarrow> u64 \<Rightarrow> u64" where
  "MIN_u64 a b = (if a < b then a else b)"

definition MAX_u64 :: "u64 \<Rightarrow> u64 \<Rightarrow> u64" where
  "MAX_u64 a b = (if b < a then a else b)"

definition BITS_PER_BYTE :: u64 where
  [kernel_defs]: "BITS_PER_BYTE = 8"

definition floorchunku64 :: "u64 \<Rightarrow> u64 \<Rightarrow> u64" where
  "floorchunku64 n chunk = n div chunk * chunk"

definition ceilchunku64 :: "u64 \<Rightarrow> u64 \<Rightarrow> u64" where
  "ceilchunku64 n chunk =
     (let result = n div chunk * chunk
      in if n mod chunk \<noteq> 0 then result + chunk else result)"

definition ceildivu64 :: "u64 \<Rightarrow> u64 \<Rightarrow> u64" where
  "ceildivu64 n divisor =
     (let result = n div divisor
      in if n mod divisor \<noteq> 0 then result + 1 else result)"

lemma unat_floorchunk: "unat (floorchunku64 n chunk) = unat n div unat chunk * unat chunk"
proof -
  have "unat n div unat chunk * unat chunk \<le> unat n" by (rule div_times_less_eq_dividend)
  also have "unat n < 2 ^ 64" using unsigned_less [of n, where ?'a = nat] by simp
  finally show ?thesis
    by (simp add: floorchunku64_def unat_word_ariths unat_div mod_mult_left_eq)
qed

lemma floorchunk_add_rest: "floorchunku64 n chunk + n mod chunk = n"
  by (simp add: floorchunku64_def div_mult_mod_eq)

lemma unat_ceildiv:
  assumes "1 < unat divisor"
  shows "unat (ceildivu64 n divisor) = (unat n + unat divisor - 1) div unat divisor"
proof -
  let ?n = "unat n" and ?d = "unat divisor"
  have "?n div ?d < 2 ^ 63"
  proof -
    have "?n div ?d \<le> ?n div 2" using assms by (simp add: div_le_mono2)
    then show ?thesis using unsigned_less [of n, where ?'a = nat] by simp
  qed
  then have s: "unat (n div divisor + 1) = ?n div ?d + 1"
    by (simp add: unat_word_ariths unat_div)
  have z: "n mod divisor = 0 \<longleftrightarrow> ?n mod ?d = 0"
    by (simp add: word_unat_eq_iff unat_mod)
  have "(?n + ?d - 1) div ?d = (if ?n mod ?d = 0 then ?n div ?d else ?n div ?d + 1)"
  proof -
    have "?n + ?d - 1 = ?n div ?d * ?d + (?n mod ?d + (?d - 1))"
      using assms div_mult_mod_eq [of ?n ?d] by linarith
    then have "(?n + ?d - 1) div ?d = ?n div ?d + (?n mod ?d + (?d - 1)) div ?d"
      using assms by (simp only: div_mult_self3 [of ?d])
    moreover have "(?n mod ?d + (?d - 1)) div ?d = (if ?n mod ?d = 0 then 0 else 1)"
    proof (cases "?n mod ?d = 0")
      case False
      have "?n mod ?d < ?d" using assms by simp
      then have "(?n mod ?d - 1) div ?d = 0" by simp
      then have "(?d + (?n mod ?d - 1)) div ?d = 1" using assms by (simp add: div_add_self1)
      moreover have "?n mod ?d + (?d - 1) = ?d + (?n mod ?d - 1)" using False assms by linarith
      ultimately show ?thesis using False by simp
    qed (use assms in simp)
    ultimately show ?thesis by simp
  qed
  then show ?thesis using s z by (simp add: ceildivu64_def unat_div)
qed

lemma ceildiv_chunk:
  assumes "1 < unat chunk"
  shows "ceilchunku64 n chunk = ceildivu64 n chunk * chunk"
  by (simp add: ceilchunku64_def ceildivu64_def Let_def algebra_simps)

lemma unat_ceilchunk:
  assumes "1 < unat chunk" and "unat n + unat chunk \<le> 2 ^ 64"
  shows "unat (ceilchunku64 n chunk) = (unat n + unat chunk - 1) div unat chunk * unat chunk"
proof -
  have "(unat n + unat chunk - 1) div unat chunk * unat chunk \<le> unat n + unat chunk - 1"
    by (rule div_times_less_eq_dividend)
  then have "(unat n + unat chunk - 1) div unat chunk * unat chunk < 2 ^ 64"
    using assms by linarith
  then show ?thesis
    using assms(1) by (simp add: ceildiv_chunk unat_ceildiv unat_word_ariths)
qed

section \<open>Bit masks\<close>

text \<open>
  \<open>1ll << i\<close> is undefined for \<open>i \<ge> 64\<close>; that branch is \<open>None\<close>. (For \<open>i = 63\<close> the
  compiler the build uses sets the sign bit.)
\<close>

function get_bitmask64_from :: "u32 \<Rightarrow> u32 \<Rightarrow> u64 \<Rightarrow> u64 option" where
  "get_bitmask64_from i stop_bit acc =
     (if i \<le> stop_bit
      then if 64 \<le> i then None
           else get_bitmask64_from (i + 1) stop_bit (acc OR push_bit (unat i) 1)
      else Some acc)"
  by pat_completeness auto
termination
proof (relation "measure (\<lambda>(i, stop_bit, acc). 64 - unat i)", goal_cases)
  case (2 i stop_bit acc)
  then have "unat i < 64" by (simp add: word_less_nat_alt not_le)
  then have "unat (i + 1) = unat i + 1" by (simp add: unat_word_ariths)
  with \<open>unat i < 64\<close> show ?case by simp
qed simp

declare get_bitmask64_from.simps [simp del]

definition get_bitmask64 :: "u32 \<Rightarrow> u32 \<Rightarrow> u64 option" where
  "get_bitmask64 start stop_bit = get_bitmask64_from start stop_bit 0"

lemma get_bitmask64_from_bits:
  "unat stop_bit < 64 \<Longrightarrow>
     \<exists>m. get_bitmask64_from i stop_bit acc = Some m \<and>
         (\<forall>n. bit m n \<longleftrightarrow> bit acc n \<or> (unat i \<le> n \<and> n \<le> unat stop_bit))"
proof (induction i stop_bit acc rule: get_bitmask64_from.induct)
  case (1 i stop_bit acc)
  show ?case
  proof (cases "i \<le> stop_bit")
    case True
    then have i: "unat i \<le> unat stop_bit" by (simp add: word_le_nat_alt)
    with "1.prems" have "\<not> 64 \<le> i" by (simp add: word_le_nat_alt)
    moreover have "unat (i + 1) = unat i + 1" using i "1.prems" by (simp add: unat_word_ariths)
    moreover have "bit (2 ^ unat i :: u64) n \<longleftrightarrow> n = unat i" for n
      using i "1.prems" by (auto simp: bit_exp_iff)
    ultimately show ?thesis
      using "1.IH" [OF True _ "1.prems"] True i "1.prems"
      by (subst get_bitmask64_from.simps) (auto simp: bit_or_iff)
  next
    case False
    then show ?thesis
      by (subst get_bitmask64_from.simps) (auto simp: word_le_nat_alt)
  qed
qed

section \<open>Port input and output\<close>

text \<open>
  \<open>outb\<close> and its kin append to the history of port accesses. What a device answers is not
  code of the repository: a device is a parameter, a function of the whole history so far,
  so it may keep any state of its own.
\<close>

datatype port_event =
    Outb u16 u8 | Outw u16 u16 | Outd u16 u32
  | Inb u16 u8 | Inw u16 u16 | Ind u16 u32

type_synonym ports = "port_event list"

record device =
  answer8 :: "ports \<Rightarrow> u16 \<Rightarrow> u8"
  answer16 :: "ports \<Rightarrow> u16 \<Rightarrow> u16"
  answer32 :: "ports \<Rightarrow> u16 \<Rightarrow> u32"

definition outb :: "u16 \<Rightarrow> u8 \<Rightarrow> ports \<Rightarrow> ports" where
  "outb port v h = h @ [Outb port v]"

definition outw :: "u16 \<Rightarrow> u16 \<Rightarrow> ports \<Rightarrow> ports" where
  "outw port v h = h @ [Outw port v]"

definition outd :: "u16 \<Rightarrow> u32 \<Rightarrow> ports \<Rightarrow> ports" where
  "outd port v h = h @ [Outd port v]"

definition inb :: "device \<Rightarrow> u16 \<Rightarrow> ports \<Rightarrow> u8 \<times> ports" where
  "inb d port h = (let v = answer8 d h port in (v, h @ [Inb port v]))"

definition inw :: "device \<Rightarrow> u16 \<Rightarrow> ports \<Rightarrow> u16 \<times> ports" where
  "inw d port h = (let v = answer16 d h port in (v, h @ [Inw port v]))"

definition ind :: "device \<Rightarrow> u16 \<Rightarrow> ports \<Rightarrow> u32 \<times> ports" where
  "ind d port h = (let v = answer32 d h port in (v, h @ [Ind port v]))"

end
