(* ===== verification/CString.thy ===== *)
theory CString
  imports Memory "HOL-Library.Sublist"
begin

text \<open>
  \<open>src/string.c\<close>: the freestanding string and memory routines, over the byte memory. A loop
  bounded by a count is a terminating function; a loop that only stops at a NUL byte is a
  partial function with \<open>None\<close> for a call that never returns.
\<close>

section \<open>memset, memcpy, memchr, memcmp\<close>

lemma word_Suc_less: "i < n \<Longrightarrow> unat (i + 1 :: u64) = Suc (unat i)"
  using unat_lt64 [of n] by (simp add: word_less_nat_alt unat_word_ariths)

function memset_from :: "u64 \<Rightarrow> u64 \<Rightarrow> u8 \<Rightarrow> u64 \<Rightarrow> mem \<Rightarrow> mem" where
  "memset_from i dst v count m =
     (if i < count then memset_from (i + 1) dst v count (m(dst + i := v)) else m)"
  by pat_completeness auto
termination
  by (relation "measure (\<lambda>(i, dst, v, count, m). unat count - unat i)")
    (simp_all add: word_Suc_less, simp add: word_less_nat_alt)

definition memset :: "u64 \<Rightarrow> int \<Rightarrow> u64 \<Rightarrow> mem \<Rightarrow> mem" where
  "memset dst value count m = memset_from 0 dst (word_of_int value) count m"

function memcpy_from :: "u64 \<Rightarrow> u64 \<Rightarrow> u64 \<Rightarrow> u64 \<Rightarrow> mem \<Rightarrow> mem" where
  "memcpy_from i dst src count m =
     (if i < count then memcpy_from (i + 1) dst src count (m(dst + i := m (src + i))) else m)"
  by pat_completeness auto
termination
  by (relation "measure (\<lambda>(i, dst, src, count, m). unat count - unat i)")
    (simp_all add: word_Suc_less, simp add: word_less_nat_alt)

definition memcpy :: "u64 \<Rightarrow> u64 \<Rightarrow> u64 \<Rightarrow> mem \<Rightarrow> mem" where
  "memcpy dst src count m = memcpy_from 0 dst src count m"

text \<open>The pointer results are addresses, with 0 for \<open>NULL\<close>.\<close>

function memchr_from :: "u64 \<Rightarrow> u64 \<Rightarrow> u8 \<Rightarrow> u64 \<Rightarrow> mem \<Rightarrow> u64" where
  "memchr_from i ptr ch count m =
     (if i < count
      then if m (ptr + i) = ch then ptr + i else memchr_from (i + 1) ptr ch count m
      else 0)"
  by pat_completeness auto
termination
  by (relation "measure (\<lambda>(i, ptr, ch, count, m). unat count - unat i)")
    (simp_all add: word_Suc_less, simp add: word_less_nat_alt)

definition memchr :: "u64 \<Rightarrow> int \<Rightarrow> u64 \<Rightarrow> mem \<Rightarrow> u64" where
  "memchr ptr ch count m = memchr_from 0 ptr (word_of_int ch) count m"

function memcmp_from :: "u64 \<Rightarrow> u64 \<Rightarrow> u64 \<Rightarrow> u64 \<Rightarrow> mem \<Rightarrow> int" where
  "memcmp_from i a b n m =
     (if i < n
      then let diff = uint (m (a + i)) - uint (m (b + i))
           in if diff \<noteq> 0 then diff else memcmp_from (i + 1) a b n m
      else 0)"
  by pat_completeness auto
termination
  by (relation "measure (\<lambda>(i, a, b, n, m). unat n - unat i)")
    (simp_all add: word_Suc_less, simp add: word_less_nat_alt)

definition memcmp :: "u64 \<Rightarrow> u64 \<Rightarrow> u64 \<Rightarrow> mem \<Rightarrow> int" where
  "memcmp a b n m = memcmp_from 0 a b n m"

declare memset_from.simps [simp del] memcpy_from.simps [simp del]
  memchr_from.simps [simp del] memcmp_from.simps [simp del]

section \<open>The NUL-terminated strings\<close>

partial_function (option) strlen_from :: "mem \<Rightarrow> u64 \<Rightarrow> u64 \<Rightarrow> u64 option" where
  "strlen_from m str len =
     (if m str \<noteq> 0 then strlen_from m (str + 1) (len + 1) else Some len)"

definition strlen :: "mem \<Rightarrow> u64 \<Rightarrow> u64 option" where
  "strlen m str = strlen_from m str 0"

partial_function (option) strcmp :: "mem \<Rightarrow> u64 \<Rightarrow> u64 \<Rightarrow> int option" where
  "strcmp m a b =
     (let diff = uint (m a) - uint (m b)
      in if diff \<noteq> 0 then Some diff
         else if m (a + 1) \<noteq> 0 \<and> m (b + 1) \<noteq> 0 then strcmp m (a + 1) (b + 1)
         else Some diff)"

partial_function (option) strncmp_from :: "mem \<Rightarrow> u64 \<Rightarrow> u64 \<Rightarrow> u64 \<Rightarrow> u64 \<Rightarrow> int option" where
  "strncmp_from m a b n i =
     (let diff = uint (m a) - uint (m b)
      in if diff \<noteq> 0 then Some diff
         else if m (a + 1) \<noteq> 0 \<and> m (b + 1) \<noteq> 0 \<and> i + 1 < n
              then strncmp_from m (a + 1) (b + 1) n (i + 1)
         else Some diff)"

definition strncmp :: "mem \<Rightarrow> u64 \<Rightarrow> u64 \<Rightarrow> u64 \<Rightarrow> int option" where
  "strncmp m a b n = (if n = 0 then Some 0 else strncmp_from m a b n 0)"

partial_function (option) strchr :: "mem \<Rightarrow> u64 \<Rightarrow> u8 \<Rightarrow> u64 option" where
  "strchr m str ch =
     (if m str \<noteq> 0 then if m str = ch then Some str else strchr m (str + 1) ch
      else Some 0)"

partial_function (option) strcpy :: "mem \<Rightarrow> u64 \<Rightarrow> u64 \<Rightarrow> mem option" where
  "strcpy m dst src =
     (if m src \<noteq> 0 then strcpy (m(dst := m src)) (dst + 1) (src + 1)
      else Some (m(dst := 0)))"

function strncpy_from :: "u64 \<Rightarrow> u64 \<Rightarrow> u64 \<Rightarrow> u64 \<Rightarrow> mem \<Rightarrow> mem" where
  "strncpy_from i dst src len m =
     (if i < len \<and> m (src + i) \<noteq> 0
      then strncpy_from (i + 1) dst src len (m(dst + i := m (src + i)))
      else m(dst + i := 0))"
  by pat_completeness auto
termination
  by (relation "measure (\<lambda>(i, dst, src, len, m). unat len - unat i)")
    (auto simp: word_Suc_less, simp add: word_less_nat_alt)

definition strncpy :: "u64 \<Rightarrow> u64 \<Rightarrow> u64 \<Rightarrow> mem \<Rightarrow> mem" where
  "strncpy dst src len m = strncpy_from 0 dst src len m"

declare strncpy_from.simps [simp del]

section \<open>Closed forms of the counted loops\<close>

lemma range_step:
  assumes "i < count"
  shows "i \<le> x \<and> x < count \<longleftrightarrow> x = i \<or> i + 1 \<le> x \<and> x < (count :: u64)"
  using assms word_Suc_less [OF assms]
  by (auto simp: word_le_nat_alt word_less_nat_alt word_unat_eq_iff)

lemma memset_from_eq:
  "memset_from i dst v count m = (\<lambda>a. if i \<le> a - dst \<and> a - dst < count then v else m a)"
proof (induction i dst v count m rule: memset_from.induct)
  case (1 i dst v count m)
  show ?case
  proof (cases "i < count")
    case True
    have "memset_from i dst v count m = memset_from (i + 1) dst v count (m(dst + i := v))"
      using True by (subst memset_from.simps) simp
    also have "\<dots> = (\<lambda>a. if i \<le> a - dst \<and> a - dst < count then v else m a)"
      unfolding "1.IH" [OF True] using range_step [OF True]
      by (intro ext) (auto simp: diff_eq_eq add.commute)
    finally show ?thesis .
  next
    case False
    then show ?thesis by (subst memset_from.simps) (auto intro!: ext dest: order.strict_trans1)
  qed
qed

lemma memset_eq: "memset dst v count m = (\<lambda>a. if a - dst < count then word_of_int v else m a)"
  by (simp add: memset_def memset_from_eq)

text \<open>
  \<open>memcpy\<close> copies upwards, so it is right for disjoint blocks and also when the
  destination overlaps the start of the source from below.
\<close>

lemma memcpy_from_eq:
  assumes "\<And>j k. j < k \<Longrightarrow> k < count \<Longrightarrow> dst + j \<noteq> src + k"
  shows "memcpy_from i dst src count m =
           (\<lambda>a. if i \<le> a - dst \<and> a - dst < count then m (src + (a - dst)) else m a)"
  using assms
proof (induction i dst src count m rule: memcpy_from.induct)
  case (1 i dst src count m)
  show ?case
  proof (cases "i < count")
    case True
    let ?m = "m(dst + i := m (src + i))"
    have keep: "?m (src + k) = m (src + k)" if "i + 1 \<le> k" "k < count" for k
      using that "1.prems" [of i k] word_Suc_less [OF True]
      by (auto simp: word_le_nat_alt word_less_nat_alt)
    have "memcpy_from i dst src count m = memcpy_from (i + 1) dst src count ?m"
      using True by (subst memcpy_from.simps) simp
    also have "\<dots> = (\<lambda>a. if i + 1 \<le> a - dst \<and> a - dst < count then ?m (src + (a - dst)) else ?m a)"
      by (rule "1.IH" [OF True "1.prems"])
    also have "\<dots> = (\<lambda>a. if i \<le> a - dst \<and> a - dst < count then m (src + (a - dst)) else m a)"
    proof (intro ext)
      fix a
      have "a = dst + i \<longleftrightarrow> a - dst = i" by (auto simp: algebra_simps)
      moreover have "\<not> i + 1 \<le> i" using word_Suc_less [OF True] by (simp add: word_le_nat_alt)
      ultimately show "(if i + 1 \<le> a - dst \<and> a - dst < count then ?m (src + (a - dst)) else ?m a) =
          (if i \<le> a - dst \<and> a - dst < count then m (src + (a - dst)) else m a)"
        using range_step [OF True, of "a - dst"] keep [of "a - dst"] True by simp
    qed
    finally show ?thesis .
  next
    case False
    then show ?thesis by (subst memcpy_from.simps) (auto intro!: ext dest: order.strict_trans1)
  qed
qed

lemma memcpy_eq:
  assumes "\<And>j k. j < k \<Longrightarrow> k < count \<Longrightarrow> dst + j \<noteq> src + k"
  shows "memcpy dst src count m = (\<lambda>a. if a - dst < count then m (src + (a - dst)) else m a)"
  by (simp add: memcpy_def memcpy_from_eq [OF assms])

section \<open>Strings in memory\<close>

text \<open>\<open>cstr m p cs\<close>: the bytes \<open>cs\<close>, none of them NUL, lie at \<open>p\<close>, followed by a NUL.\<close>

fun cstr :: "mem \<Rightarrow> u64 \<Rightarrow> u8 list \<Rightarrow> bool" where
  "cstr m p [] = (m p = 0)"
| "cstr m p (c # cs) = (m p = c \<and> c \<noteq> 0 \<and> cstr m (p + 1) cs)"

definition put_bytes :: "mem \<Rightarrow> u64 \<Rightarrow> u8 list \<Rightarrow> mem" where
  "put_bytes m p bs = (\<lambda>a. if unat (a - p) < length bs then bs ! unat (a - p) else m a)"

text \<open>The comparison that both \<open>strcmp\<close> and \<open>strncmp\<close> compute: the first difference, and 0 when
  either string ends.\<close>

fun cmp_bytes :: "u8 list \<Rightarrow> u8 list \<Rightarrow> int" where
  "cmp_bytes (x # xs) (y # ys) = (if x \<noteq> y then uint x - uint y else cmp_bytes xs ys)"
| "cmp_bytes _ _ = 0"

lemma put_bytes_Nil [simp]: "put_bytes m p [] = m"
  by (simp add: put_bytes_def)

lemma put_bytes_Cons:
  assumes "length bs < 2 ^ 64"
  shows "put_bytes (m(p := b)) (p + 1) bs = put_bytes m p (b # bs)"
proof (rule ext)
  fix a
  show "put_bytes (m(p := b)) (p + 1) bs a = put_bytes m p (b # bs) a"
  proof (cases "a = p")
    case True
    have "unat (-1 :: u64) = 2 ^ LENGTH(64) - 1"
      by (simp only: unsigned_minus_1_eq_mask mask_eq_exp_minus_1)
    then have "\<not> unat (p - (p + 1)) < length bs" using assms by simp
    with True show ?thesis unfolding put_bytes_def by (simp del: unsigned_minus_1_eq_mask)
  next
    case False
    then have nz: "a - p \<noteq> 0" by simp
    have "a - (p + 1) = a - p - 1" by simp
    then have "unat (a - (p + 1)) = unat (a - p) - 1" using unat_minus_one [OF nz] by metis
    moreover have "0 < unat (a - p)" using nz by (simp add: unat_gt_0)
    ultimately have "unat (a - p) = Suc (unat (a - (p + 1)))" by linarith
    with False show ?thesis by (simp add: put_bytes_def)
  qed
qed

lemma cstr_put_bytes:
  "0 \<notin> set cs \<Longrightarrow> length cs < 2 ^ 64 \<Longrightarrow> cstr (put_bytes m p (cs @ [0])) p cs"
proof (induction cs arbitrary: m p)
  case Nil
  then show ?case by (simp add: put_bytes_def)
next
  case (Cons c cs)
  have "put_bytes m p ((c # cs) @ [0]) = put_bytes (m(p := c)) (p + 1) (cs @ [0])"
    using put_bytes_Cons [of "cs @ [0]" m p c] Cons.prems by simp
  moreover have "put_bytes m p ((c # cs) @ [0]) p = c" by (simp add: put_bytes_def)
  moreover have "cstr (put_bytes (m(p := c)) (p + 1) (cs @ [0])) (p + 1) cs"
    using Cons.prems by (intro Cons.IH) simp_all
  ultimately show ?case using Cons.prems by simp
qed

lemma cstr_nonzero: "cstr m p cs \<Longrightarrow> 0 \<notin> set cs"
  by (induction cs arbitrary: p) auto

lemma cstr_upd: "cstr m p cs \<Longrightarrow> (\<And>k. k \<le> length cs \<Longrightarrow> q \<noteq> p + of_nat k) \<Longrightarrow> cstr (m(q := v)) p cs"
proof (induction cs arbitrary: p)
  case Nil
  from Nil.prems(2) [of 0] Nil.prems(1) show ?case by auto
next
  case (Cons c cs)
  have "q \<noteq> p" using Cons.prems(2) [of 0] by simp
  moreover have "q \<noteq> p + 1 + of_nat k" if "k \<le> length cs" for k
    using Cons.prems(2) [of "Suc k"] that by (simp add: algebra_simps)
  ultimately show ?case using Cons by auto
qed

lemma uint_eq [simp]: "uint (x :: u8) = uint y \<longleftrightarrow> x = y"
  by (simp add: word_uint_eq_iff)

lemma cmp_bytes_zero_iff: "cmp_bytes xs ys = 0 \<longleftrightarrow> prefix xs ys \<or> prefix ys xs"
  by (induction xs ys rule: cmp_bytes.induct) auto

lemma prefix_same_length: "length xs = length ys \<Longrightarrow> prefix xs ys \<or> prefix ys xs \<longleftrightarrow> xs = ys"
  by (auto simp: prefix_def)

section \<open>What the string routines compute\<close>

lemma strlen_from_cstr: "cstr m p cs \<Longrightarrow> strlen_from m p n = Some (n + of_nat (length cs))"
  by (induction cs arbitrary: p n) (simp_all add: strlen_from.simps algebra_simps)

lemma strlen_cstr: "cstr m p cs \<Longrightarrow> strlen m p = Some (of_nat (length cs))"
  by (simp add: strlen_def strlen_from_cstr)

lemma strcmp_cstr:
  "cstr m a (x # xs) \<Longrightarrow> cstr m b (y # ys) \<Longrightarrow> strcmp m a b = Some (cmp_bytes (x # xs) (y # ys))"
proof (induction xs arbitrary: a b x y ys)
  case Nil
  then show ?case by (subst strcmp.simps) (simp add: Let_def)
next
  case (Cons x' xs)
  show ?case
  proof (cases ys)
    case Nil
    with Cons.prems show ?thesis by (subst strcmp.simps) (simp add: Let_def)
  next
    case (Cons y' ys')
    then have "strcmp m (a + 1) (b + 1) = Some (cmp_bytes (x' # xs) (y' # ys'))"
      using Cons.IH [of "a + 1" x' "b + 1" y' ys'] \<open>cstr m a (x # x' # xs)\<close> \<open>cstr m b (y # ys)\<close> by simp
    with Cons \<open>cstr m a (x # x' # xs)\<close> \<open>cstr m b (y # ys)\<close> show ?thesis
      by (subst strcmp.simps) (simp add: Let_def)
  qed
qed

lemma strncmp_from_cstr:
  "cstr m a (x # xs) \<Longrightarrow> cstr m b (y # ys) \<Longrightarrow> i < n \<Longrightarrow>
     strncmp_from m a b n i =
       Some (cmp_bytes (take (unat n - unat i) (x # xs)) (take (unat n - unat i) (y # ys)))"
proof (induction xs arbitrary: a b x y ys i)
  case Nil
  then have "unat n - unat i \<noteq> 0" by (simp add: word_less_nat_alt)
  with Nil show ?case
    by (subst strncmp_from.simps) (simp add: Let_def take_Cons split: nat.split)
next
  case (Cons x' xs)
  from Cons.prems(3) have s: "unat n - unat i = Suc (unat n - unat (i + 1))"
    by (simp add: word_Suc_less) (simp add: word_less_nat_alt)
  show ?case
  proof (cases "ys \<noteq> [] \<and> i + 1 < n")
    case False
    then have "ys = [] \<or> unat n - unat (i + 1) = 0" by (auto simp: word_less_nat_alt)
    with False Cons.prems s show ?thesis
      by (subst strncmp_from.simps) (cases ys; auto simp: Let_def)
  next
    case True
    then obtain y' ys' where ys: "ys = y' # ys'" by (cases ys) auto
    have "strncmp_from m (a + 1) (b + 1) n (i + 1) =
        Some (cmp_bytes (take (unat n - unat (i + 1)) (x' # xs)) (take (unat n - unat (i + 1)) ys))"
      unfolding ys using Cons.IH [of "a + 1" x' "b + 1" y' ys' "i + 1"] Cons.prems True ys by simp
    with Cons.prems s True ys show ?thesis
      by (subst strncmp_from.simps) (simp add: Let_def)
  qed
qed

lemma strncmp_cstr:
  assumes "cstr m a as" and "cstr m b bs" and "as \<noteq> []" and "bs \<noteq> []"
  shows "strncmp m a b n = Some (cmp_bytes (take (unat n) as) (take (unat n) bs))"
proof (cases "n = 0")
  case False
  then have "0 < n" by (simp add: word_neq_0_conv)
  moreover obtain x xs y ys where "as = x # xs" "bs = y # ys"
    using assms(3,4) by (cases as; cases bs) auto
  ultimately show ?thesis
    using strncmp_from_cstr [of m a x xs b y ys 0 n] assms(1,2) False by (simp add: strncmp_def)
qed (simp add: strncmp_def)

lemma strchr_cstr:
  "cstr m p cs \<Longrightarrow>
     strchr m p ch = Some (if ch \<in> set cs then p + of_nat (length (takeWhile (\<lambda>c. c \<noteq> ch) cs)) else 0)"
  by (induction cs arbitrary: p) (subst strchr.simps, auto simp: algebra_simps)+

lemma strcpy_cstr:
  assumes "cstr m src cs" and "length cs < 2 ^ 64"
    and "\<And>j k. j \<le> length cs \<Longrightarrow> k \<le> length cs \<Longrightarrow> dst + of_nat j \<noteq> src + of_nat k"
  shows "strcpy m dst src = Some (put_bytes m dst (cs @ [0]))"
  using assms
proof (induction cs arbitrary: m dst src)
  case Nil
  then show ?case by (subst strcpy.simps) (auto simp: put_bytes_def unat_eq_zero)
next
  case (Cons c cs)
  let ?m = "m(dst := c)"
  have apart: "dst + 1 + of_nat j \<noteq> src + 1 + of_nat k" if "j \<le> length cs" "k \<le> length cs" for j k
    using Cons.prems(3) [of "Suc j" "Suc k"] that by (simp add: algebra_simps)
  have "dst \<noteq> src + 1 + of_nat k" if "k \<le> length cs" for k
    using Cons.prems(3) [of 0 "Suc k"] that by (simp add: algebra_simps)
  then have c: "cstr ?m (src + 1) cs" using Cons.prems(1) by (intro cstr_upd) simp_all
  have "strcpy ?m (dst + 1) (src + 1) = Some (put_bytes ?m (dst + 1) (cs @ [0]))"
    by (rule Cons.IH [OF c _ apart]) (use Cons.prems(2) in simp_all)
  moreover have "put_bytes ?m (dst + 1) (cs @ [0]) = put_bytes m dst ((c # cs) @ [0])"
    using put_bytes_Cons [of "cs @ [0]"] Cons.prems(2) by simp
  ultimately show ?case using Cons.prems(1) by (subst strcpy.simps) simp
qed

lemma strncpy_from_cstr:
  assumes "cstr m (src + i) cs" and "length cs < 2 ^ 64"
    and "\<And>j k. j \<le> min (unat len - unat i) (length cs) \<Longrightarrow> k \<le> length cs \<Longrightarrow>
           dst + i + of_nat j \<noteq> src + i + of_nat k"
  shows "strncpy_from i dst src len m = put_bytes m (dst + i) (take (unat len - unat i) cs @ [0])"
  using assms
proof (induction cs arbitrary: m i)
  case Nil
  then show ?case
    by (subst strncpy_from.simps) (auto simp: put_bytes_def unat_eq_zero)
next
  case (Cons c cs)
  show ?case
  proof (cases "i < len")
    case False
    then have "unat len - unat i = 0" by (simp add: word_less_nat_alt)
    with False show ?thesis
      by (subst strncpy_from.simps) (auto simp: put_bytes_def unat_eq_zero)
  next
    case True
    then have s: "unat len - unat i = Suc (unat len - unat (i + 1))"
      by (simp add: word_Suc_less) (simp add: word_less_nat_alt)
    let ?m = "m(dst + i := c)"
    have apart: "dst + (i + 1) + of_nat j \<noteq> src + (i + 1) + of_nat k"
      if "j \<le> min (unat len - unat (i + 1)) (length cs)" "k \<le> length cs" for j k
      using Cons.prems(3) [of "Suc j" "Suc k"] that s by (simp add: algebra_simps)
    have "dst + i \<noteq> src + (i + 1) + of_nat k" if "k \<le> length cs" for k
      using Cons.prems(3) [of 0 "Suc k"] that by (simp add: algebra_simps)
    moreover have "cstr m (src + (i + 1)) cs" using Cons.prems(1) by (simp add: algebra_simps)
    ultimately have c: "cstr ?m (src + (i + 1)) cs" by (intro cstr_upd)
    have "strncpy_from (i + 1) dst src len ?m =
        put_bytes ?m (dst + (i + 1)) (take (unat len - unat (i + 1)) cs @ [0])"
      by (rule Cons.IH [OF c _ apart]) (use Cons.prems(2) in simp_all)
    also have "\<dots> = put_bytes m (dst + i) (c # take (unat len - unat (i + 1)) cs @ [0])"
      using put_bytes_Cons [of "take (unat len - unat (i + 1)) cs @ [0]" m "dst + i" c] Cons.prems(2)
      by (simp add: add.assoc)
    finally show ?thesis using True Cons.prems(1) s by (subst strncpy_from.simps) simp
  qed
qed

lemma strncpy_cstr:
  assumes "cstr m src cs" and "length cs < 2 ^ 64"
    and "\<And>j k. j \<le> min (unat len) (length cs) \<Longrightarrow> k \<le> length cs \<Longrightarrow> dst + of_nat j \<noteq> src + of_nat k"
  shows "strncpy dst src len m = put_bytes m dst (take (unat len) cs @ [0])"
  using strncpy_from_cstr [of m src 0 cs len dst] assms by (simp add: strncpy_def)

text \<open>\<open>memcmp\<close> is 0 exactly on equal blocks.\<close>

lemma memcmp_from_zero_iff: "memcmp_from i a b n m = 0 \<longleftrightarrow> (\<forall>k. i \<le> k \<and> k < n \<longrightarrow> m (a + k) = m (b + k))"
proof (induction i a b n m rule: memcmp_from.induct)
  case (1 i a b n m)
  show ?case
  proof (cases "i < n")
    case True
    show ?thesis
    proof (cases "m (a + i) = m (b + i)")
      case eq: True
      then have "memcmp_from i a b n m = memcmp_from (i + 1) a b n m"
        using True by (subst memcmp_from.simps) (simp add: Let_def)
      then show ?thesis
        using "1.IH" [OF True refl] eq range_step [OF True] by auto
    next
      case False
      then have "memcmp_from i a b n m \<noteq> 0"
        using True by (subst memcmp_from.simps) (simp add: Let_def)
      with False True show ?thesis by auto
    qed
  next
    case False
    then show ?thesis by (subst memcmp_from.simps) (auto dest: order.strict_trans1)
  qed
qed

section \<open>Properties\<close>

text \<open>C33: On two strings that are not empty, \<open>strcmp\<close> and \<open>strncmp\<close> return, and compute the reference
  comparison: the difference at the first place where the strings (for \<open>strncmp\<close>, their first \<open>n\<close> bytes)
  differ before either of them ends. So they report equality exactly when one string is a prefix of the
  other, and never tell a string from a longer one.\<close>

theorem strcmp_compares_prefixes:
  assumes "cstr m a xs" and "cstr m b ys" and "xs \<noteq> []" and "ys \<noteq> []"
  shows "strcmp m a b = Some (cmp_bytes xs ys) \<and>
         strncmp m a b n = Some (cmp_bytes (take (unat n) xs) (take (unat n) ys)) \<and>
         (strcmp m a b = Some 0 \<longleftrightarrow> prefix xs ys \<or> prefix ys xs) \<and>
         (strncmp m a b n = Some 0 \<longleftrightarrow> prefix (take (unat n) xs) (take (unat n) ys) \<or> prefix (take (unat n) ys) (take (unat n) xs))"
proof -
  obtain x xs' y ys' where e: "xs = x # xs'" "ys = y # ys'" using assms(3,4) by (cases xs; cases ys) auto
  have "strcmp m a b = Some (cmp_bytes xs ys)" using strcmp_cstr assms(1,2) unfolding e by blast
  then show ?thesis using strncmp_cstr [OF assms] by (simp add: cmp_bytes_zero_iff)
qed

theorem strcmp_compares_prefixes_witness:
  "strcmp (put_bytes (put_bytes (\<lambda>_. 0) 0x100 [105, 100, 116]) 0x200 [105, 100]) 0x100 0x200 = Some 0"
proof -
  let ?m = "put_bytes (put_bytes (\<lambda>_. 0) 0x100 [105, 100, 116]) 0x200 [105, 100]"
  have s: "cstr ?m 0x100 [105, 100, 116]" "cstr ?m 0x200 [105, 100]" by (simp_all add: put_bytes_def)
  show ?thesis using strcmp_compares_prefixes [OF s] by simp
qed

text \<open>\<open>strncpy\<close> ends what it writes with a NUL, so it writes one byte more than the bound when the source is
  as long as the bound: byte \<open>len\<close> of the destination is lost.\<close>

theorem strncpy_writes_past:
  assumes "cstr m src cs" and "length cs < 2 ^ 64" and "unat len \<le> length cs"
    and "\<And>j k. j \<le> unat len \<Longrightarrow> k \<le> length cs \<Longrightarrow> dst + of_nat j \<noteq> src + of_nat k"
  shows "strncpy dst src len m (dst + len) = 0"
proof -
  have "strncpy dst src len m = put_bytes m dst (take (unat len) cs @ [0])"
    by (rule strncpy_cstr [OF assms(1,2)]) (use assms(4) in simp)
  then show ?thesis using assms(3) by (simp add: put_bytes_def nth_append)
qed

end
