(* ===== verification/Machine.thy ===== *)
theory Machine
  imports Memory Util CString
begin

text \<open>
  The state the kernel acts on: memory, the control registers it uses, the history of port accesses,
  the addresses whose translations were invalidated with \<open>invlpg\<close>, and the messages handed to the
  logging functions of \<open>drv/term.c\<close> (theory \<open>Term\<close> models what those do with a message). A logged
  message is its format and its arguments; \<open>Klog\<close> leaves out the final newline that every log message
  has, \<open>Kprintf\<close> has the whole format.
  Each component extends the record with its own static variables.
\<close>

datatype karg = KInt u64 | KStr string

datatype log_event =
    Klog nat string "karg list"
  | Kprintf string "karg list"
  | Print_stacktrace

definition LL_TRACE :: nat where [kernel_defs]: "LL_TRACE = 0"
definition LL_DEBUG :: nat where [kernel_defs]: "LL_DEBUG = 1"
definition LL_INFO :: nat where [kernel_defs]: "LL_INFO = 2"
definition LL_WARN :: nat where [kernel_defs]: "LL_WARN = 3"
definition LL_ERROR :: nat where [kernel_defs]: "LL_ERROR = 4"

record machine =
  mem :: mem
  cr0 :: u64
  cr2 :: u64
  cr3 :: u64
  io :: ports
  invlpgs :: "u64 list"
  klogs :: "log_event list"

abbreviation rd64 :: "'z machine_scheme \<Rightarrow> u64 \<Rightarrow> u64" where
  "rd64 s p \<equiv> load64 (mem s) p"

abbreviation wr64 :: "u64 \<Rightarrow> u64 \<Rightarrow> 'z machine_scheme \<Rightarrow> 'z machine_scheme" where
  "wr64 p v s \<equiv> s\<lparr>mem := store64 (mem s) p v\<rparr>"

abbreviation klog_event :: "log_event \<Rightarrow> 'z machine_scheme \<Rightarrow> 'z machine_scheme" where
  "klog_event e s \<equiv> s\<lparr>klogs := klogs s @ [e]\<rparr>"

abbreviation kerror :: "string \<Rightarrow> karg list \<Rightarrow> 'z machine_scheme \<Rightarrow> 'z machine_scheme" where
  "kerror fmt args s \<equiv> klog_event (Klog LL_ERROR fmt args) s"

abbreviation kwarn :: "string \<Rightarrow> karg list \<Rightarrow> 'z machine_scheme \<Rightarrow> 'z machine_scheme" where
  "kwarn fmt args s \<equiv> klog_event (Klog LL_WARN fmt args) s"

abbreviation kinfo :: "string \<Rightarrow> karg list \<Rightarrow> 'z machine_scheme \<Rightarrow> 'z machine_scheme" where
  "kinfo fmt args s \<equiv> klog_event (Klog LL_INFO fmt args) s"

abbreviation kdebug :: "string \<Rightarrow> karg list \<Rightarrow> 'z machine_scheme \<Rightarrow> 'z machine_scheme" where
  "kdebug fmt args s \<equiv> klog_event (Klog LL_DEBUG fmt args) s"

abbreviation ktrace :: "string \<Rightarrow> karg list \<Rightarrow> 'z machine_scheme \<Rightarrow> 'z machine_scheme" where
  "ktrace fmt args s \<equiv> klog_event (Klog LL_TRACE fmt args) s"

text \<open>\<open>hcf()\<close>: the machine stops in the state it had.\<close>

definition hcf :: "'s \<Rightarrow> ('a, 's) res" where
  "hcf s = Inl (Hcf s)"

text \<open>\<open>invlpg\<close> is executed for the active address space only (\<open>ctx == NULL\<close>).\<close>

definition invlpg :: "u64 \<Rightarrow> 'z machine_scheme \<Rightarrow> 'z machine_scheme" where
  "invlpg va s = s\<lparr>invlpgs := invlpgs s @ [va]\<rparr>"

lemma invlpg_simps [simp]:
  "mem (invlpg va s) = mem s" "cr3 (invlpg va s) = cr3 s"
  by (simp_all add: invlpg_def)

end
