(* ===== verification/Limine.thy ===== *)
theory Limine
  imports Machine
begin

text \<open>
  \<open>src/limine_data.c\<close>: the answers of the boot loader and the checks the kernel makes before it
  relies on them. A response pointer is an \<open>option\<close> (\<open>None\<close> for \<open>NULL\<close>), an array with its
  count is a list; the structures hold the fields the kernel reads. The numeric codes of the
  memory types belong to the boot protocol's header; the kernel only tests them for equality.
\<close>

datatype memmap_type =
    LIMINE_MEMMAP_USABLE
  | LIMINE_MEMMAP_RESERVED
  | LIMINE_MEMMAP_ACPI_RECLAIMABLE
  | LIMINE_MEMMAP_ACPI_NVS
  | LIMINE_MEMMAP_BAD_MEMORY
  | LIMINE_MEMMAP_BOOTLOADER_RECLAIMABLE
  | LIMINE_MEMMAP_EXECUTABLE_AND_MODULES
  | LIMINE_MEMMAP_FRAMEBUFFER
  | LIMINE_MEMMAP_RESERVED_MAPPED

record memmap_entry =
  me_base :: u64
  me_length :: u64
  me_type :: memmap_type

record framebuffer =
  fb_address :: u64
  fb_width :: u64
  fb_height :: u64
  fb_pitch :: u64
  fb_bpp :: u16
  fb_red_mask_size :: u8
  fb_red_mask_shift :: u8
  fb_green_mask_size :: u8
  fb_green_mask_shift :: u8
  fb_blue_mask_size :: u8
  fb_blue_mask_shift :: u8

text \<open>The parameters the boot loader chose for the terminal; the kernel only passes them on.\<close>

record flanterm_params =
  fp_canvas :: u64
  fp_ansi_colours :: u64
  fp_ansi_bright_colours :: u64
  fp_default_bg_bright :: u64
  fp_default_fg_bright :: u64
  fp_font :: u64
  fp_font_width :: u64
  fp_font_height :: u64
  fp_font_spacing :: u64
  fp_font_scale_x :: u64
  fp_font_scale_y :: u64
  fp_margin :: u64
  fp_rotation :: u64

record limine_file =
  lf_address :: u64
  lf_size :: u64
  lf_path :: u64
  lf_string :: u64

record executable_address =
  physical_base :: u64
  virtual_base :: u64

record boot_info =
  base_revision_supported :: bool
  framebuffer_response :: "framebuffer list option"
  flanterm_response :: "flanterm_params list option"
  hhdm_response :: "u64 option"
  memmap_response :: "memmap_entry list option"
  paging_mode_response :: "u64 option"
  module_response :: "limine_file list option"
  executable_address_response :: "executable_address option"
  rsdp_response :: "u64 option"

text \<open>The one module the kernel asks for, besides those that the boot loader's configuration names.\<close>

record limine_internal_module =
  im_path :: string
  im_string :: string
  im_required :: bool

definition MODULE_COUNT :: nat where "MODULE_COUNT = 1"

definition debug_symbol_module :: limine_internal_module where
  "debug_symbol_module = \<lparr>im_path = ''rats/symbols.map'', im_string = ''debug symbol map'', im_required = True\<rparr>"

definition requested_modules :: "limine_internal_module list" where
  "requested_modules = [debug_symbol_module]"

lemma requested_modules_count: "length requested_modules = MODULE_COUNT"
  by (simp add: requested_modules_def MODULE_COUNT_def)

section \<open>The checks of the boot path\<close>

definition limine_data_bare_minimum_present :: "boot_info \<Rightarrow> bool" where
  "limine_data_bare_minimum_present b =
     (if \<not> base_revision_supported b then False
      else if (case framebuffer_response b of None \<Rightarrow> True | Some fbs \<Rightarrow> length fbs < 1) then False
      else if (case flanterm_response b of None \<Rightarrow> True | Some ps \<Rightarrow> length ps < 1) then False
      else True)"

fun log_modules :: "nat \<Rightarrow> limine_file list \<Rightarrow> 'z machine_scheme \<Rightarrow> 'z machine_scheme" where
  "log_modules i [] s = s"
| "log_modules i (f # fs) s =
     log_modules (Suc i) fs
       (kinfo ''    %2llu: %s (%s) @ %0p (size %0p)''
          [KInt (of_nat i), KInt (lf_string f), KInt (lf_path f), KInt (lf_address f), KInt (lf_size f)] s)"

definition limine_data_wanted_responses_present ::
    "boot_info \<Rightarrow> 'z machine_scheme \<Rightarrow> bool \<times> 'z machine_scheme" where
  "limine_data_wanted_responses_present b s =
     (if hhdm_response b = None
      then (False, kerror ''Limine didn't provide a HHDM response..?'' [] s)
      else if (case memmap_response b of None \<Rightarrow> True | Some es \<Rightarrow> length es < 1)
      then (False, kerror ''Limine didn't pass a memory map! :('' [] s)
      else if paging_mode_response b = None
      then (False, kerror ''Limine didn't provide a paging mode response!'' [] s)
      else if (case module_response b of None \<Rightarrow> True | Some ms \<Rightarrow> length ms < 1)
      then (False, kerror ''Limine didn't load any modules!'' [] s)
      else
        (let ms = the (module_response b);
             s = log_modules 0 ms (kinfo ''Limine loaded %llu modules:'' [KInt (of_nat (length ms))] s)
         in if executable_address_response b = None
            then (False, kerror ''Limine didn't provide the executable addresses!'' [] s)
            else if rsdp_response b = None
            then (False, kerror ''ACPI is unavailable! (RSDP response missing)'' [] s)
            else (True, s)))"

section \<open>The getters\<close>

text \<open>A getter that goes through a NULL response is \<open>None\<close>.\<close>

definition limine_data_hhdm_get_offset :: "boot_info \<Rightarrow> u64 option" where
  "limine_data_hhdm_get_offset b = hhdm_response b"

definition limine_data_get_flanterm_fb_init_params_response :: "boot_info \<Rightarrow> flanterm_params list option" where
  "limine_data_get_flanterm_fb_init_params_response b = flanterm_response b"

definition limine_data_get_framebuffer_response :: "boot_info \<Rightarrow> framebuffer list option" where
  "limine_data_get_framebuffer_response b = framebuffer_response b"

definition limine_data_get_memmap_response :: "boot_info \<Rightarrow> memmap_entry list option" where
  "limine_data_get_memmap_response b = memmap_response b"

definition limine_data_paging_get_mode :: "boot_info \<Rightarrow> u64 option" where
  "limine_data_paging_get_mode b = paging_mode_response b"

definition limine_data_get_module_response :: "boot_info \<Rightarrow> limine_file list option" where
  "limine_data_get_module_response b = module_response b"

definition limine_data_get_executable_address_response :: "boot_info \<Rightarrow> executable_address option" where
  "limine_data_get_executable_address_response b = executable_address_response b"

definition limine_data_get_rsdp_virt :: "boot_info \<Rightarrow> u64 option" where
  "limine_data_get_rsdp_virt b = rsdp_response b"

lemma log_modules_frame [simp]:
  "mem (log_modules i fs s) = mem s" "cr3 (log_modules i fs s) = cr3 s"
  by (induction fs arbitrary: i s) simp_all

end
