(* ===== verification/Phys.thy ===== *)
theory Phys
  imports Limine
begin

text \<open>
  \<open>src/mem/phys.c\<close>: the physical page allocator, a bitmap with one bit per 4 KiB page frame (1 for
  a used frame) that lives in memory at \<open>s_phys_bitmap\<close>. The bitmap is read and written
  through \<open>uint64_t\<close> accesses of the byte memory, as in the code, so its overlap with the
  pages it hands out is something to be proved, not assumed.
\<close>

section \<open>The static variables\<close>

record phys = machine +
  s_phys_hhdm_offset :: u64
  s_phys_bitmap :: u64
  s_phys_bitmap_size :: u64
  s_phys_addr_space_size :: u64

definition PHYS_PAGE_SIZE :: u64 where
  [kernel_defs]: "PHYS_PAGE_SIZE = 4096"

definition PHYS_BITMAP_INDEX :: "u64 \<Rightarrow> u64" where
  "PHYS_BITMAP_INDEX addr = addr div PHYS_PAGE_SIZE div 64"

definition PHYS_BITMAP_BIT_POS :: "u64 \<Rightarrow> u64" where
  "PHYS_BITMAP_BIT_POS addr = (addr div PHYS_PAGE_SIZE) mod 64"

definition PHYS_BITMAP_MASK :: "u64 \<Rightarrow> u64" where
  "PHYS_BITMAP_MASK addr = push_bit (unat (PHYS_BITMAP_BIT_POS addr)) 1"

definition FULLY_USED :: u64 where
  [kernel_defs]: "FULLY_USED = NOT 0"

text \<open>The cell \<open>s_phys_bitmap[i]\<close>.\<close>

definition bitmap_cell :: "'z phys_scheme \<Rightarrow> u64 \<Rightarrow> u64" where
  "bitmap_cell s i = s_phys_bitmap s + 8 * i"

section \<open>Marking\<close>

definition phys_mark_used :: "u64 \<Rightarrow> 'z phys_scheme \<Rightarrow> 'z phys_scheme" where
  "phys_mark_used addr s =
     (let p = bitmap_cell s (PHYS_BITMAP_INDEX addr)
      in wr64 p (rd64 s p OR PHYS_BITMAP_MASK addr) s)"

definition phys_mark_unused :: "u64 \<Rightarrow> 'z phys_scheme \<Rightarrow> 'z phys_scheme" where
  "phys_mark_unused addr s =
     (let p = bitmap_cell s (PHYS_BITMAP_INDEX addr)
      in wr64 p (rd64 s p AND NOT (PHYS_BITMAP_MASK addr)) s)"

definition phys_mark_region_used ::
    "u64 \<Rightarrow> u64 \<Rightarrow> 'z phys_scheme \<Rightarrow> (unit, 'z phys_scheme) res" where
  "phys_mark_region_used addr len s =
     for_step PHYS_PAGE_SIZE 0 len (\<lambda>i s. Inr ((), phys_mark_used (addr + i) s)) s"

definition phys_mark_region_unused ::
    "u64 \<Rightarrow> u64 \<Rightarrow> 'z phys_scheme \<Rightarrow> (unit, 'z phys_scheme) res" where
  "phys_mark_region_unused addr len s =
     for_step PHYS_PAGE_SIZE 0 len (\<lambda>i s. Inr ((), phys_mark_unused (addr + i) s)) s"

section \<open>Allocating and freeing\<close>

text \<open>
  The inner loop of \<open>phys_alloc\<close>, over the 64 bits of one entry: the first bit that is clear. The
  loop counter stays at most 64, so it is a natural number here.
\<close>

function first_clear_bit :: "u64 \<Rightarrow> nat \<Rightarrow> nat option" where
  "first_clear_bit entry b =
     (if b < 64
      then if entry AND push_bit b 1 \<noteq> 0 then first_clear_bit entry (b + 1) else Some b
      else None)"
  by pat_completeness auto
termination
  by (relation "measure (\<lambda>(entry, b). 64 - b)") auto

function phys_alloc_from :: "u64 \<Rightarrow> 'z phys_scheme \<Rightarrow> u64 \<times> 'z phys_scheme" where
  "phys_alloc_from i s =
     (if i < s_phys_bitmap_size s
      then let entry = rd64 s (bitmap_cell s i)
           in if entry = FULLY_USED then phys_alloc_from (i + 1) s
              else (case first_clear_bit entry 0 of
                      Some b \<Rightarrow>
                        ((i * 64 + of_nat b) * PHYS_PAGE_SIZE,
                         wr64 (bitmap_cell s i) (rd64 s (bitmap_cell s i) OR push_bit b 1) s)
                    | None \<Rightarrow> phys_alloc_from (i + 1) s)
      else (0, s))"
  by pat_completeness auto
termination
  by (relation "measure (\<lambda>(i, s). unat (s_phys_bitmap_size s) - unat i)")
    (simp_all add: word_Suc_less, simp_all add: word_less_nat_alt)

declare first_clear_bit.simps [simp del] phys_alloc_from.simps [simp del]

definition phys_alloc :: "'z phys_scheme \<Rightarrow> u64 \<times> 'z phys_scheme" where
  "phys_alloc s = phys_alloc_from 0 s"

text \<open>
  \<open>phys_alloc_region\<close> tries start addresses until a run of clear bits is found; after a used page
  at offset \<open>i\<close> it goes on behind that page. \<open>None\<close>: the outer loop never ends.
\<close>

definition region_page_used :: "u64 \<Rightarrow> u64 \<Rightarrow> 'z phys_scheme \<Rightarrow> (bool, 'z phys_scheme) res" where
  "region_page_used addr i s =
     Inr (rd64 s (bitmap_cell s (PHYS_BITMAP_INDEX (addr + i))) AND PHYS_BITMAP_MASK (addr + i) \<noteq> 0, s)"

partial_function (option) phys_alloc_region_from ::
    "u64 \<Rightarrow> u64 \<Rightarrow> 'z phys_scheme \<Rightarrow> (u64, 'z phys_scheme) res option" where
  "phys_alloc_region_from addr len s =
     (if addr < s_phys_addr_space_size s
      then (case search_step PHYS_PAGE_SIZE 0 len (region_page_used addr) s of
              Inl e \<Rightarrow> Some (Inl e)
            | Inr (Some i, s') \<Rightarrow> phys_alloc_region_from (addr + (i + PHYS_PAGE_SIZE)) len s'
            | Inr (None, s') \<Rightarrow>
                Some (bindk (phys_mark_region_used addr len s') (\<lambda>_ s''. Inr (addr, s''))))
      else Some (Inr (0, s)))"

definition phys_alloc_region :: "u64 \<Rightarrow> 'z phys_scheme \<Rightarrow> (u64, 'z phys_scheme) res" where
  "phys_alloc_region len s =
     (case phys_alloc_region_from 0 len s of None \<Rightarrow> Inl Spin | Some r \<Rightarrow> r)"

definition phys_free :: "u64 \<Rightarrow> 'z phys_scheme \<Rightarrow> 'z phys_scheme" where
  "phys_free addr s =
     (let p = bitmap_cell s (PHYS_BITMAP_INDEX addr)
      in wr64 p (rd64 s p AND NOT (PHYS_BITMAP_MASK addr)) s)"

definition phys_free_region :: "u64 \<Rightarrow> u64 \<Rightarrow> 'z phys_scheme \<Rightarrow> (unit, 'z phys_scheme) res" where
  "phys_free_region addr len s =
     for_step PHYS_PAGE_SIZE 0 len (\<lambda>i s. Inr ((), phys_free (addr + i) s)) s"

definition phys_get_address_space_size :: "'z phys_scheme \<Rightarrow> u64" where
  "phys_get_address_space_size s = s_phys_addr_space_size s"

section \<open>Initialisation\<close>

text \<open>The search for a usable region that can hold the bitmap; the physical address, 0 for none.\<close>

fun find_bitmap_base :: "memmap_entry list \<Rightarrow> u64 \<Rightarrow> u64 option" where
  "find_bitmap_base [] bitmap_size = None"
| "find_bitmap_base (e # es) bitmap_size =
     (let base = (if me_base e = 0 then me_base e + PHYS_PAGE_SIZE else me_base e);
          len = (if me_base e = 0 then me_length e - PHYS_PAGE_SIZE else me_length e)
      in if me_type e = LIMINE_MEMMAP_USABLE \<and> bitmap_size < len then Some base
         else find_bitmap_base es bitmap_size)"

fun mark_usable_entries :: "memmap_entry list \<Rightarrow> 'z phys_scheme \<Rightarrow> (unit, 'z phys_scheme) res" where
  "mark_usable_entries [] s = Inr ((), s)"
| "mark_usable_entries (e # es) s =
     bindk (if me_type e = LIMINE_MEMMAP_USABLE
            then phys_mark_region_unused (me_base e) (me_length e) s else Inr ((), s))
       (\<lambda>_ s. mark_usable_entries es s)"

definition phys_init :: "boot_info \<Rightarrow> 'z phys_scheme \<Rightarrow> (unit, 'z phys_scheme) res" where
  "phys_init b s =
     (case (limine_data_hhdm_get_offset b, limine_data_get_memmap_response b) of
        (Some offset, Some entries) \<Rightarrow>
          if entries = [] then Inl Fault else
          (let s = s\<lparr>s_phys_hhdm_offset := offset\<rparr>;
               last_entry = last entries;
               s = s\<lparr>s_phys_addr_space_size := me_base last_entry + me_length last_entry\<rparr>;
               s = s\<lparr>s_phys_bitmap_size :=
                        ceildivu64 (s_phys_addr_space_size s) (PHYS_PAGE_SIZE * BITS_PER_BYTE)\<rparr>;
               s = (case find_bitmap_base entries (s_phys_bitmap_size s) of
                      None \<Rightarrow> s | Some base \<Rightarrow> s\<lparr>s_phys_bitmap := base + s_phys_hhdm_offset s\<rparr>)
           in if s_phys_bitmap s = 0
              then hcf (kerror ''Failed to find a memory region big enough to hold the physical memory map!'' [] s)
              else
                (let s = s\<lparr>mem := memset (s_phys_bitmap s) 0xff (s_phys_bitmap_size s) (mem s)\<rparr>
                 in bindk (mark_usable_entries entries s) (\<lambda>_ s.
                    bindk (phys_mark_region_used (s_phys_bitmap s - s_phys_hhdm_offset s)
                             (s_phys_bitmap_size s * 8) s) (\<lambda>_ s.
                    Inr ((), phys_mark_used 0 s)))))
      | _ \<Rightarrow> Inl Fault)"

end
