(* ===== verification/Virt.thy ===== *)
theory Virt
  imports Phys
begin

text \<open>
  \<open>src/mem/virt.c\<close>: the four-level page tables. A table is a page of 512 64-bit entries in memory,
  reached through the direct map; a context (\<open>virt_ctx_t *\<close>) is 0 for \<open>NULL\<close>, the active
  address space, or the address of a \<open>phys\<close>/\<open>virt\<close> pair. Entry pointers are addresses, with
  0 for \<open>NULL\<close>, and all reads and writes go to the byte memory. A write through \<open>NULL\<close> is a
  \<open>Fault\<close>.
\<close>

section \<open>Constants and static variables\<close>

record virt = phys +
  s_virt_hhdm_offset :: u64
  s_kernel_pdpt_virt :: u64

definition ENTRY_PHYS_ADDR_MASK :: u64 where
  [kernel_defs]: "ENTRY_PHYS_ADDR_MASK = 0x001ffffffffff000"

definition VIRT_ENTRIES_PER_STRUCT :: u64 where
  [kernel_defs]: "VIRT_ENTRIES_PER_STRUCT = 512"
definition VIRT_PAGE_SIZE :: u64 where
  [kernel_defs]: "VIRT_PAGE_SIZE = 4096"
definition VIRT_PAGE_SIZE_BIG :: u64 where
  [kernel_defs]: "VIRT_PAGE_SIZE_BIG = VIRT_PAGE_SIZE * VIRT_ENTRIES_PER_STRUCT"

definition VF_PT_PRESENT :: u64 where [kernel_defs]: "VF_PT_PRESENT = 0x001"
definition VF_PT_WRITABLE :: u64 where [kernel_defs]: "VF_PT_WRITABLE = 0x002"
definition VF_PT_USER :: u64 where [kernel_defs]: "VF_PT_USER = 0x004"
definition VF_PT_WRITE_THROUGH :: u64 where [kernel_defs]: "VF_PT_WRITE_THROUGH = 0x008"
definition VF_PT_CACHE_DISABLE :: u64 where [kernel_defs]: "VF_PT_CACHE_DISABLE = 0x010"
definition VF_PT_ACCESSED :: u64 where [kernel_defs]: "VF_PT_ACCESSED = 0x020"
definition VF_PT_DIRTY :: u64 where [kernel_defs]: "VF_PT_DIRTY = 0x040"
definition VF_PT_PAT :: u64 where [kernel_defs]: "VF_PT_PAT = 0x080"
definition VF_PT_GLOBAL :: u64 where [kernel_defs]: "VF_PT_GLOBAL = 0x100"

definition VF_PD_PRESENT :: u64 where [kernel_defs]: "VF_PD_PRESENT = 0x001"
definition VF_PD_WRITABLE :: u64 where [kernel_defs]: "VF_PD_WRITABLE = 0x002"
definition VF_PD_USER :: u64 where [kernel_defs]: "VF_PD_USER = 0x004"
definition VF_PD_WRITE_THROUGH :: u64 where [kernel_defs]: "VF_PD_WRITE_THROUGH = 0x008"
definition VF_PD_CACHE_DISABLE :: u64 where [kernel_defs]: "VF_PD_CACHE_DISABLE = 0x010"
definition VF_PD_ACCESSED :: u64 where [kernel_defs]: "VF_PD_ACCESSED = 0x020"
definition VF_PD_DIRTY :: u64 where [kernel_defs]: "VF_PD_DIRTY = 0x040"
definition VF_PD_BIG_PAGE :: u64 where [kernel_defs]: "VF_PD_BIG_PAGE = 0x080"
definition VF_PD_GLOBAL :: u64 where [kernel_defs]: "VF_PD_GLOBAL = 0x100"

text \<open>No flag reaches into the address field of an entry.\<close>

definition page_flags :: "u64 list" where
  "page_flags = [VF_PT_PRESENT, VF_PT_WRITABLE, VF_PT_USER, VF_PT_WRITE_THROUGH, VF_PT_CACHE_DISABLE,
     VF_PT_ACCESSED, VF_PT_DIRTY, VF_PT_PAT, VF_PT_GLOBAL, VF_PD_PRESENT, VF_PD_WRITABLE, VF_PD_USER,
     VF_PD_WRITE_THROUGH, VF_PD_CACHE_DISABLE, VF_PD_ACCESSED, VF_PD_DIRTY, VF_PD_BIG_PAGE, VF_PD_GLOBAL]"

lemma page_flags_outside_address: "fl \<in> set page_flags \<Longrightarrow> fl AND ENTRY_PHYS_ADDR_MASK = 0"
  by (auto simp: page_flags_def kernel_defs)

definition VIRT_PML4_INDEX_OFFSET :: nat where [kernel_defs]: "VIRT_PML4_INDEX_OFFSET = 39"
definition VIRT_PDPT_INDEX_OFFSET :: nat where [kernel_defs]: "VIRT_PDPT_INDEX_OFFSET = 30"
definition VIRT_PD_INDEX_OFFSET :: nat where [kernel_defs]: "VIRT_PD_INDEX_OFFSET = 21"
definition VIRT_PT_INDEX_OFFSET :: nat where [kernel_defs]: "VIRT_PT_INDEX_OFFSET = 12"
definition VIRT_INDEX_MASK :: u64 where [kernel_defs]: "VIRT_INDEX_MASK = 0x1ff"

text \<open>The index into the table of one level, \<open>(addr >> offset) & VIRT_INDEX_MASK\<close>.\<close>

definition virt_index :: "nat \<Rightarrow> u64 \<Rightarrow> u64" where
  "virt_index off addr = drop_bit off addr AND VIRT_INDEX_MASK"

section \<open>Walking the tables\<close>

definition s_phys_to_virt :: "u64 \<Rightarrow> 'z virt_scheme \<Rightarrow> u64" where
  "s_phys_to_virt addr s = addr + s_virt_hhdm_offset s"

definition s_virt_to_phys :: "u64 \<Rightarrow> 'z virt_scheme \<Rightarrow> u64" where
  "s_virt_to_phys addr s = addr - s_virt_hhdm_offset s"

definition s_virt_get_top_level :: "u64 \<Rightarrow> 'z virt_scheme \<Rightarrow> u64" where
  "s_virt_get_top_level ctx s =
     (if ctx \<noteq> 0 then rd64 s (ctx + 8) else s_phys_to_virt (cr3 s) s)"

definition s_virt_entry_ptr_to_table_ptr :: "u64 \<Rightarrow> 'z virt_scheme \<Rightarrow> u64" where
  "s_virt_entry_ptr_to_table_ptr entry s =
     (let table_phys = rd64 s entry AND ENTRY_PHYS_ADDR_MASK in s_phys_to_virt table_phys s)"

definition s_virt_get_entry_ptr ::
    "u64 \<Rightarrow> u64 \<Rightarrow> bool \<Rightarrow> u64 \<Rightarrow> 'z virt_scheme \<Rightarrow> (u64, 'z virt_scheme) res" where
  "s_virt_get_entry_ptr table index create_if_missing flags s =
     (let entry = rd64 s (table + 8 * index)
      in if entry = 0 then
           if \<not> create_if_missing then Inr (0, s)
           else
             (case phys_alloc s of (phys, s) \<Rightarrow>
                if phys = 0
                then hcf (kerror ''Failed to allocate a paging structure!'' [] (klog_event Print_stacktrace s))
                else
                  (let s = s\<lparr>mem := memset (s_phys_to_virt phys s) 0 VIRT_PAGE_SIZE (mem s)\<rparr>;
                       s = wr64 (table + 8 * index) (phys OR flags OR VF_PD_PRESENT) s
                   in Inr (table + 8 * index, s)))
         else Inr (table + 8 * index, s))"

definition s_virt_get_pte :: "u64 \<Rightarrow> u64 \<Rightarrow> bool \<Rightarrow> 'z virt_scheme \<Rightarrow> (u64, 'z virt_scheme) res" where
  "s_virt_get_pte ctx addr is_big_page s =
     (let pml4 = s_virt_get_top_level ctx s
      in bindk (s_virt_get_entry_ptr pml4 (virt_index VIRT_PML4_INDEX_OFFSET addr) False 0 s) (\<lambda>pml4e s.
         if pml4e = 0 then Inr (0, s) else
         let pdpt = s_virt_entry_ptr_to_table_ptr pml4e s
         in bindk (s_virt_get_entry_ptr pdpt (virt_index VIRT_PDPT_INDEX_OFFSET addr) False 0 s) (\<lambda>pdpte s.
            if pdpte = 0 then Inr (0, s) else
            let pd = s_virt_entry_ptr_to_table_ptr pdpte s
            in bindk (s_virt_get_entry_ptr pd (virt_index VIRT_PD_INDEX_OFFSET addr) False 0 s) (\<lambda>pde s.
               if pde = 0 then Inr (0, s)
               else if is_big_page then Inr (pde, s)
               else if rd64 s pde AND VF_PD_BIG_PAGE \<noteq> 0 then Inr (pde, s)
               else let pt = s_virt_entry_ptr_to_table_ptr pde s
                    in Inr (pt + 8 * virt_index VIRT_PT_INDEX_OFFSET addr, s)))))"

definition s_virt_get_or_create_pte ::
    "u64 \<Rightarrow> u64 \<Rightarrow> bool \<Rightarrow> bool \<Rightarrow> 'z virt_scheme \<Rightarrow> (u64, 'z virt_scheme) res" where
  "s_virt_get_or_create_pte ctx addr is_user is_big_page s =
     (let flags = (if is_user then VF_PD_USER else 0) OR VF_PD_PRESENT;
          pml4 = s_virt_get_top_level ctx s
      in bindk (s_virt_get_entry_ptr pml4 (virt_index VIRT_PML4_INDEX_OFFSET addr) True
                  (flags OR VF_PD_WRITABLE) s) (\<lambda>pml4e s.
         if pml4e = 0 then Inr (0, s) else
         let pdpt = s_virt_entry_ptr_to_table_ptr pml4e s
         in bindk (s_virt_get_entry_ptr pdpt (virt_index VIRT_PDPT_INDEX_OFFSET addr) True
                     (flags OR VF_PD_WRITABLE) s) (\<lambda>pdpte s.
            if pdpte = 0 then Inr (0, s) else
            let pd = s_virt_entry_ptr_to_table_ptr pdpte s
            in bindk (s_virt_get_entry_ptr pd (virt_index VIRT_PD_INDEX_OFFSET addr) True
                        (flags OR VF_PD_WRITABLE) s) (\<lambda>pde s.
               if pde = 0 then Inr (0, s)
               else if is_big_page then Inr (pde, s)
               else if rd64 s pde AND VF_PD_BIG_PAGE \<noteq> 0 then Inr (pde, s)
               else let pt = s_virt_entry_ptr_to_table_ptr pde s
                    in Inr (pt + 8 * virt_index VIRT_PT_INDEX_OFFSET addr, s)))))"

definition s_virt_is_address_mapped :: "u64 \<Rightarrow> u64 \<Rightarrow> 'z virt_scheme \<Rightarrow> (bool, 'z virt_scheme) res" where
  "s_virt_is_address_mapped ctx addr s =
     bindk (s_virt_get_pte ctx addr False s) (\<lambda>entry s.
       if entry = 0 then Inr (False, s) else Inr (rd64 s entry \<noteq> 0, s))"

section \<open>Mapping and unmapping\<close>

definition virt_map_step :: "u64 \<Rightarrow> u64 \<Rightarrow> u64 \<Rightarrow> u64 \<Rightarrow> bool \<Rightarrow> u64 \<Rightarrow> 'z virt_scheme \<Rightarrow> (unit, 'z virt_scheme) res" where
  "virt_map_step ctx phys_addr virt_addr flags is_big_page i s =
     (let curr_virt_addr = virt_addr + i
      in bindk (s_virt_get_or_create_pte ctx curr_virt_addr False is_big_page s) (\<lambda>entry s.
           if entry = 0 then Inl Fault else
           let s = wr64 entry ((phys_addr + i) OR flags) s
           in Inr ((), if ctx = 0 then invlpg curr_virt_addr s else s)))"

definition virt_map :: "u64 \<Rightarrow> u64 \<Rightarrow> u64 \<Rightarrow> u64 \<Rightarrow> u64 \<Rightarrow> 'z virt_scheme \<Rightarrow> (unit, 'z virt_scheme) res" where
  "virt_map ctx phys_addr virt_addr len flags s =
     (let is_big_page = (flags AND VF_PD_BIG_PAGE \<noteq> 0);
          step = (if is_big_page then VIRT_PAGE_SIZE_BIG else VIRT_PAGE_SIZE)
      in for_step step 0 len (virt_map_step ctx phys_addr virt_addr flags is_big_page) s)"

definition virt_map_user_step ::
    "u64 \<Rightarrow> u64 \<Rightarrow> u64 \<Rightarrow> u64 \<Rightarrow> bool \<Rightarrow> u64 \<Rightarrow> 'z virt_scheme \<Rightarrow> (unit, 'z virt_scheme) res" where
  "virt_map_user_step ctx phys_addr virt_addr flags is_big_page i s =
     bindk (s_virt_get_or_create_pte ctx (virt_addr + i) True is_big_page s) (\<lambda>entry s.
       if entry = 0 then Inl Fault else Inr ((), wr64 entry (phys_addr OR flags) s))"

definition virt_map_user :: "u64 \<Rightarrow> u64 \<Rightarrow> u64 \<Rightarrow> u64 \<Rightarrow> u64 \<Rightarrow> 'z virt_scheme \<Rightarrow> (unit, 'z virt_scheme) res" where
  "virt_map_user ctx phys_addr virt_addr len flags s =
     (let is_big_page = (flags AND VF_PD_BIG_PAGE \<noteq> 0);
          step = (if is_big_page then VIRT_PAGE_SIZE_BIG else VIRT_PAGE_SIZE)
      in for_step step 0 len (virt_map_user_step ctx phys_addr virt_addr flags is_big_page) s)"

definition virt_unmap_step :: "u64 \<Rightarrow> u64 \<Rightarrow> u64 \<Rightarrow> 'z virt_scheme \<Rightarrow> (unit, 'z virt_scheme) res" where
  "virt_unmap_step ctx addr i s =
     (let curr_virt_addr = addr + i
      in bindk (s_virt_get_pte ctx curr_virt_addr False s) (\<lambda>entry s.
           if entry \<noteq> 0
           then let s = wr64 entry 0 s
                in Inr ((), if ctx = 0 then invlpg curr_virt_addr s else s)
           else Inr ((), s)))"

definition virt_unmap :: "u64 \<Rightarrow> u64 \<Rightarrow> u64 \<Rightarrow> 'z virt_scheme \<Rightarrow> (unit, 'z virt_scheme) res" where
  "virt_unmap ctx addr len s = for_step VIRT_PAGE_SIZE 0 len (virt_unmap_step ctx addr) s"

definition virt_free :: "u64 \<Rightarrow> u64 \<Rightarrow> u64 \<Rightarrow> 'z virt_scheme \<Rightarrow> 'z virt_scheme" where
  "virt_free ctx addr len s = s"

definition virt_get_physical_address :: "u64 \<Rightarrow> u64 \<Rightarrow> 'z virt_scheme \<Rightarrow> (u64, 'z virt_scheme) res" where
  "virt_get_physical_address ctx virt_addr s =
     bindk (s_virt_get_pte ctx virt_addr False s) (\<lambda>entry s.
       if entry = 0 then Inr (0, s)
       else if rd64 s entry AND VF_PT_PRESENT = 0 then Inr (0, s)
       else Inr (rd64 s entry AND ENTRY_PHYS_ADDR_MASK, s))"

section \<open>Finding room in the address space\<close>

text \<open>
  The outer loop that \<open>virt_alloc\<close>, \<open>virt_user_alloc\<close> and \<open>virt_map_anywhere\<close> share: at each page
  below \<open>limit\<close>, test whether all pages of the range are unmapped; if so, fill the range and
  return its address. The outcome \<open>None\<close> is a loop that never ends.
\<close>

definition range_unmapped :: "u64 \<Rightarrow> u64 \<Rightarrow> u64 \<Rightarrow> 'z virt_scheme \<Rightarrow> (bool, 'z virt_scheme) res" where
  "range_unmapped ctx len addr s =
     bindk (search_step VIRT_PAGE_SIZE 0 len (\<lambda>i. s_virt_is_address_mapped ctx (addr + i)) s)
       (\<lambda>hit s. Inr (hit = None, s))"

partial_function (option) place_range ::
    "u64 \<Rightarrow> u64 \<Rightarrow> u64 \<Rightarrow> (u64 \<Rightarrow> u64 \<Rightarrow> 'z virt_scheme \<Rightarrow> (unit, 'z virt_scheme) res) \<Rightarrow>
     u64 \<Rightarrow> 'z virt_scheme \<Rightarrow> (u64, 'z virt_scheme) res option" where
  "place_range ctx len limit fill addr s =
     (if addr < limit
      then (case range_unmapped ctx len addr s of
              Inl e \<Rightarrow> Some (Inl e)
            | Inr (found, s') \<Rightarrow>
                if found
                then Some (bindk (for_step VIRT_PAGE_SIZE 0 len (fill addr) s') (\<lambda>_ s''. Inr (addr, s'')))
                else place_range ctx len limit fill (addr + VIRT_PAGE_SIZE) s')
      else Some (Inr (0, s)))"

definition returns :: "('a, 's) res option \<Rightarrow> ('a, 's) res" where
  "returns r = (case r of None \<Rightarrow> Inl Spin | Some x \<Rightarrow> x)"

definition virt_alloc_step :: "u64 \<Rightarrow> u64 \<Rightarrow> u64 \<Rightarrow> 'z virt_scheme \<Rightarrow> (unit, 'z virt_scheme) res" where
  "virt_alloc_step ctx addr i s =
     (case phys_alloc s of (phys, s) \<Rightarrow>
        if phys = 0
        then hcf (kerror ''Failed to allocate physical memory for a virt_alloc!'' [] s)
        else virt_map ctx phys (addr + i) VIRT_PAGE_SIZE (VF_PT_PRESENT OR VF_PT_WRITABLE) s)"

definition virt_alloc :: "u64 \<Rightarrow> u64 \<Rightarrow> 'z virt_scheme \<Rightarrow> (u64, 'z virt_scheme) res" where
  "virt_alloc ctx len s =
     returns (place_range ctx len 0xffffffffffff0000 (virt_alloc_step ctx)
                (s_virt_hhdm_offset s + VIRT_PAGE_SIZE) s)"

definition virt_user_alloc_step :: "u64 \<Rightarrow> u64 \<Rightarrow> u64 \<Rightarrow> 'z virt_scheme \<Rightarrow> (unit, 'z virt_scheme) res" where
  "virt_user_alloc_step ctx addr i s =
     (case phys_alloc s of (phys, s) \<Rightarrow>
        if phys = 0
        then hcf (kerror ''Failed to allocate physical memory for a virt_alloc!'' [] s)
        else virt_map_user ctx phys (addr + i) VIRT_PAGE_SIZE
               (VF_PT_PRESENT OR VF_PT_USER OR VF_PT_WRITABLE) s)"

definition virt_user_alloc :: "u64 \<Rightarrow> u64 \<Rightarrow> 'z virt_scheme \<Rightarrow> (u64, 'z virt_scheme) res" where
  "virt_user_alloc ctx len s =
     returns (place_range ctx len (s_virt_hhdm_offset s) (virt_user_alloc_step ctx) 0x100000 s)"

definition virt_map_anywhere_step ::
    "u64 \<Rightarrow> u64 \<Rightarrow> u64 \<Rightarrow> u64 \<Rightarrow> u64 \<Rightarrow> 'z virt_scheme \<Rightarrow> (unit, 'z virt_scheme) res" where
  "virt_map_anywhere_step ctx phys_addr flags addr i s =
     (let curr_virt_addr = addr + i
      in bindk (s_virt_get_or_create_pte ctx curr_virt_addr False False s) (\<lambda>entry s.
           if entry = 0 then Inl Fault else
           let s = wr64 entry ((phys_addr + i) OR flags) s
           in Inr ((), if ctx = 0 then invlpg curr_virt_addr s else s)))"

definition virt_map_anywhere :: "u64 \<Rightarrow> u64 \<Rightarrow> u64 \<Rightarrow> u64 \<Rightarrow> 'z virt_scheme \<Rightarrow> (u64, 'z virt_scheme) res" where
  "virt_map_anywhere ctx phys_addr len flags s =
     returns (place_range ctx len 0xffffffffffff0000 (virt_map_anywhere_step ctx phys_addr flags)
                (s_virt_hhdm_offset s + VIRT_PAGE_SIZE) s)"

section \<open>Contexts and initialisation\<close>

definition virt_ctx_use :: "u64 \<Rightarrow> 'z virt_scheme \<Rightarrow> 'z virt_scheme" where
  "virt_ctx_use ctx s = s\<lparr>cr3 := rd64 s ctx\<rparr>"

definition virt_ctx_new :: "'z virt_scheme \<Rightarrow> (u64, 'z virt_scheme) res" where
  "virt_ctx_new s =
     bindk (virt_alloc 0 VIRT_PAGE_SIZE s) (\<lambda>ctx s.
       if ctx = 0 then Inl Fault else
       case phys_alloc s of (phys, s) \<Rightarrow>
         let s = wr64 ctx phys s
         in if rd64 s ctx = 0 then hcf (kerror ''Failed to allocate the PML4!'' [] s)
            else
              (let s = wr64 (ctx + 8) (s_phys_to_virt (rd64 s ctx) s) s;
                   s = wr64 (rd64 s (ctx + 8) + 8 * (VIRT_ENTRIES_PER_STRUCT - 1))
                         (s_virt_to_phys (s_kernel_pdpt_virt s) s OR VF_PD_WRITABLE OR VF_PD_PRESENT) s
               in Inr (ctx, s)))"

fun map_hhdm_entries :: "u64 \<Rightarrow> memmap_entry list \<Rightarrow> 'z virt_scheme \<Rightarrow> (unit, 'z virt_scheme) res" where
  "map_hhdm_entries ctx [] s = Inr ((), s)"
| "map_hhdm_entries ctx (e # es) s =
     bindk (if me_type e \<in> {LIMINE_MEMMAP_USABLE, LIMINE_MEMMAP_BOOTLOADER_RECLAIMABLE,
                LIMINE_MEMMAP_EXECUTABLE_AND_MODULES, LIMINE_MEMMAP_RESERVED_MAPPED,
                LIMINE_MEMMAP_ACPI_RECLAIMABLE, LIMINE_MEMMAP_ACPI_NVS}
            then virt_map ctx (me_base e) (me_base e + s_virt_hhdm_offset s)
                   (ceilchunku64 (me_length e) VIRT_PAGE_SIZE) (VF_PT_PRESENT OR VF_PT_WRITABLE) s
            else Inr ((), s))
       (\<lambda>_ s. map_hhdm_entries ctx es s)"

text \<open>\<open>kernel_start\<close> and \<open>kernel_end\<close> are addresses the linker sets (\<open>linker.ld\<close>): parameters.\<close>

definition virt_init :: "u64 \<Rightarrow> u64 \<Rightarrow> boot_info \<Rightarrow> 'z virt_scheme \<Rightarrow> (unit, 'z virt_scheme) res" where
  "virt_init kernel_start kernel_end b s =
     (case limine_data_hhdm_get_offset b of None \<Rightarrow> Inl Fault | Some off \<Rightarrow>
      let s = s\<lparr>s_virt_hhdm_offset := off\<rparr>
      in case phys_alloc s of (kernel_pdpt_phys, s) \<Rightarrow>
         if kernel_pdpt_phys = 0 then hcf (kerror ''Failed to allocate the kernel PDPT!'' [] s) else
         let s = s\<lparr>s_kernel_pdpt_virt := s_phys_to_virt kernel_pdpt_phys s\<rparr>
         in case phys_alloc s of (ctx_phys, s) \<Rightarrow>
         let ctx = s_phys_to_virt ctx_phys s
         in case phys_alloc s of (pml4_phys, s) \<Rightarrow>
         let s = wr64 ctx pml4_phys s;
             s = wr64 (ctx + 8) (s_phys_to_virt (rd64 s ctx) s) s
         in case limine_data_get_memmap_response b of None \<Rightarrow> Inl Fault | Some entries \<Rightarrow>
         bindk (map_hhdm_entries ctx entries s) (\<lambda>_ s.
         case limine_data_get_framebuffer_response b of
           Some (fb # _) \<Rightarrow>
             bindk (virt_map ctx (fb_address fb - s_virt_hhdm_offset s) (fb_address fb)
                      (fb_width fb * fb_height fb * ucast (fb_bpp fb) div BITS_PER_BYTE)
                      (VF_PT_PRESENT OR VF_PT_WRITABLE) s) (\<lambda>_ s.
             let s = ktrace ''Added HHDM map.'' [] s
             in case limine_data_get_executable_address_response b of None \<Rightarrow> Inl Fault | Some ea \<Rightarrow>
                bindk (virt_map ctx (physical_base ea) (virtual_base ea) (kernel_end - kernel_start)
                         (VF_PT_PRESENT OR VF_PT_WRITABLE) s) (\<lambda>_ s.
                let s = ktrace ''Added kernel map.'' [] s
                in Inr ((), virt_ctx_use ctx s)))
         | _ \<Rightarrow> Inl Fault))"

end
