(* ===== verification/SerialRegs.thy ===== *)
theory SerialRegs
  imports Prelude
begin

text \<open>
  \<open>src/drv/rs232.h\<close>: the ports, registers and bits of the serial line. A number is written as it is
  in the source, with its cast to \<open>uint8_t\<close> where that changes it.
\<close>

definition S_COM1 :: u16 where [kernel_defs]: "S_COM1 = 0x3f8"
definition S_COM2 :: u16 where [kernel_defs]: "S_COM2 = 0x2f8"
definition KERNEL_LOGGING_PORT :: u16 where [kernel_defs]: "KERNEL_LOGGING_PORT = S_COM1"


definition S_BAUD_115200 :: u16 where [kernel_defs]: "S_BAUD_115200 = 1"
definition S_BAUD_57600 :: u16 where [kernel_defs]: "S_BAUD_57600 = 2"
definition S_BAUD_38400 :: u16 where [kernel_defs]: "S_BAUD_38400 = 3"
definition S_BAUD_28800 :: u16 where [kernel_defs]: "S_BAUD_28800 = 4"
definition S_BAUD_19200 :: u16 where [kernel_defs]: "S_BAUD_19200 = 5"
definition S_BAUD_9600 :: u16 where [kernel_defs]: "S_BAUD_9600 = 6"
definition S_BAUD_4800 :: u16 where [kernel_defs]: "S_BAUD_4800 = 7"
definition S_BAUD_2400 :: u16 where [kernel_defs]: "S_BAUD_2400 = 8"
definition S_BAUD_1800 :: u16 where [kernel_defs]: "S_BAUD_1800 = 9"
definition S_BAUD_1200 :: u16 where [kernel_defs]: "S_BAUD_1200 = 10"
definition S_BAUD_600 :: u16 where [kernel_defs]: "S_BAUD_600 = 11"
definition S_BAUD_300 :: u16 where [kernel_defs]: "S_BAUD_300 = 12"

definition S_TX_RX :: "u16 \<Rightarrow> u16" where [kernel_defs]: "S_TX_RX port = port + 0"
definition S_DIVISOR_LSB :: "u16 \<Rightarrow> u16" where [kernel_defs]: "S_DIVISOR_LSB port = port + 0"
definition S_INT_ENABLE :: "u16 \<Rightarrow> u16" where [kernel_defs]: "S_INT_ENABLE port = port + 1"
definition S_DIVISOR_MSB :: "u16 \<Rightarrow> u16" where [kernel_defs]: "S_DIVISOR_MSB port = port + 1"
definition S_INTERRUPT_IDENT :: "u16 \<Rightarrow> u16" where [kernel_defs]: "S_INTERRUPT_IDENT port = port + 2"
definition S_FIFO_CONTROL :: "u16 \<Rightarrow> u16" where [kernel_defs]: "S_FIFO_CONTROL port = port + 2"
definition S_LINE_CONTROL :: "u16 \<Rightarrow> u16" where [kernel_defs]: "S_LINE_CONTROL port = port + 3"
definition S_MODEM_CONTROL :: "u16 \<Rightarrow> u16" where [kernel_defs]: "S_MODEM_CONTROL port = port + 4"
definition S_LINE_STATUS :: "u16 \<Rightarrow> u16" where [kernel_defs]: "S_LINE_STATUS port = port + 5"
definition S_MODEM_STATUS :: "u16 \<Rightarrow> u16" where [kernel_defs]: "S_MODEM_STATUS port = port + 6"
definition S_SCRATCH_REG :: "u16 \<Rightarrow> u16" where [kernel_defs]: "S_SCRATCH_REG port = port + 7"

definition S_LCR_DLAB :: u8 where [kernel_defs]: "S_LCR_DLAB = 0x80"
definition S_LCR_BREAK_EN :: u8 where [kernel_defs]: "S_LCR_BREAK_EN = ucast (0x01000000 :: u32)"
definition S_LCR_PARITY_NONE :: u8 where [kernel_defs]: "S_LCR_PARITY_NONE = 0"
definition S_LCR_PARITY_ODD :: u8 where [kernel_defs]: "S_LCR_PARITY_ODD = ucast (0x00001000 :: u32)"
definition S_LCR_PARITY_EVEN :: u8 where [kernel_defs]: "S_LCR_PARITY_EVEN = 0x18"
definition S_LCR_PARITY_MARK :: u8 where [kernel_defs]: "S_LCR_PARITY_MARK = 0x28"
definition S_LCR_PARITY_SPACE :: u8 where [kernel_defs]: "S_LCR_PARITY_SPACE = 0x38"
definition S_LCR_STOP_BITS_1 :: u8 where [kernel_defs]: "S_LCR_STOP_BITS_1 = 0"
definition S_LCR_STOP_BITS_1_5 :: u8 where [kernel_defs]: "S_LCR_STOP_BITS_1_5 = 4"
definition S_LCR_STOP_BITS_2 :: u8 where [kernel_defs]: "S_LCR_STOP_BITS_2 = 4"
definition S_LCR_DATA_BITS_5 :: u8 where [kernel_defs]: "S_LCR_DATA_BITS_5 = 0"
definition S_LCR_DATA_BITS_6 :: u8 where [kernel_defs]: "S_LCR_DATA_BITS_6 = 1"
definition S_LCR_DATA_BITS_7 :: u8 where [kernel_defs]: "S_LCR_DATA_BITS_7 = 2"
definition S_LCR_DATA_BITS_8 :: u8 where [kernel_defs]: "S_LCR_DATA_BITS_8 = 3"

definition S_IER_MODEM_STATUS :: u8 where [kernel_defs]: "S_IER_MODEM_STATUS = 8"
definition S_IER_REC_LINE_STATUS :: u8 where [kernel_defs]: "S_IER_REC_LINE_STATUS = 4"
definition S_IER_TX_REG_EMPTY :: u8 where [kernel_defs]: "S_IER_TX_REG_EMPTY = 2"
definition S_IER_RX_DATA_AVAIL :: u8 where [kernel_defs]: "S_IER_RX_DATA_AVAIL = 1"

definition S_FCR_ITL_1_BYTE :: u8 where [kernel_defs]: "S_FCR_ITL_1_BYTE = 0"
definition S_FCR_ITL_4_BYTES :: u8 where [kernel_defs]: "S_FCR_ITL_4_BYTES = 0x40"
definition S_FCR_ITL_8_BYTES :: u8 where [kernel_defs]: "S_FCR_ITL_8_BYTES = 0x80"
definition S_FCR_ITL_14_BYTES :: u8 where [kernel_defs]: "S_FCR_ITL_14_BYTES = 0xc0"
definition S_FCR_DMA_MODE_SELECT :: u8 where [kernel_defs]: "S_FCR_DMA_MODE_SELECT = 8"
definition S_FCR_CLEAR_TX_FIFO :: u8 where [kernel_defs]: "S_FCR_CLEAR_TX_FIFO = 4"
definition S_FCR_CLEAR_RX_FIFO :: u8 where [kernel_defs]: "S_FCR_CLEAR_RX_FIFO = 2"
definition S_FCR_ENABLE_FIFOS :: u8 where [kernel_defs]: "S_FCR_ENABLE_FIFOS = 1"

definition S_IIR_FIFO_MASK :: u8 where [kernel_defs]: "S_IIR_FIFO_MASK = 0xc0"
definition S_IIR_FIFO_DISABLED :: u8 where [kernel_defs]: "S_IIR_FIFO_DISABLED = 0"
definition S_IIR_FIFO_UNUSABLE :: u8 where [kernel_defs]: "S_IIR_FIFO_UNUSABLE = 0x40"
definition S_IIR_FIFO_ENABLED :: u8 where [kernel_defs]: "S_IIR_FIFO_ENABLED = 0x80"
definition S_IIR_TIMEOUT_PENDING :: u8 where [kernel_defs]: "S_IIR_TIMEOUT_PENDING = 8"
definition S_IIR_INT_MASK :: u8 where [kernel_defs]: "S_IIR_INT_MASK = 6"
definition S_IIR_INT_MODEM_STATUS :: u8 where [kernel_defs]: "S_IIR_INT_MODEM_STATUS = 0"
definition S_IIR_INT_TX_REG_EMPTY :: u8 where [kernel_defs]: "S_IIR_INT_TX_REG_EMPTY = 2"
definition S_IIR_INT_RX_DATA_AVAIL :: u8 where [kernel_defs]: "S_IIR_INT_RX_DATA_AVAIL = 4"
definition S_IIR_INT_RX_LINE_STATUS :: u8 where [kernel_defs]: "S_IIR_INT_RX_LINE_STATUS = 6"
definition S_IIR_PENDING_MASK :: u8 where [kernel_defs]: "S_IIR_PENDING_MASK = 1"
definition S_IIR_PENDING :: u8 where [kernel_defs]: "S_IIR_PENDING = 0"

definition S_MCR_LOOPBACK :: u8 where [kernel_defs]: "S_MCR_LOOPBACK = 0x10"
definition S_MCR_OUT2 :: u8 where [kernel_defs]: "S_MCR_OUT2 = 8"
definition S_MCR_OUT1 :: u8 where [kernel_defs]: "S_MCR_OUT1 = 4"
definition S_MCR_RTS :: u8 where [kernel_defs]: "S_MCR_RTS = 2"
definition S_MCR_DTR :: u8 where [kernel_defs]: "S_MCR_DTR = 1"

definition S_LSR_IMPENDING_ERROR :: u8 where [kernel_defs]: "S_LSR_IMPENDING_ERROR = 0x80"
definition S_LSR_TX_EMPTY :: u8 where [kernel_defs]: "S_LSR_TX_EMPTY = 0x40"
definition S_LSR_TX_REG_EMPTY :: u8 where [kernel_defs]: "S_LSR_TX_REG_EMPTY = 0x20"
definition S_LSR_BREAK_INDICATOR :: u8 where [kernel_defs]: "S_LSR_BREAK_INDICATOR = 0x10"
definition S_LSR_FRAMING_ERROR :: u8 where [kernel_defs]: "S_LSR_FRAMING_ERROR = 8"
definition S_LSR_PARITY_ERROR :: u8 where [kernel_defs]: "S_LSR_PARITY_ERROR = 4"
definition S_LSR_OVERRUN_ERROR :: u8 where [kernel_defs]: "S_LSR_OVERRUN_ERROR = 2"
definition S_LSR_DATA_READY :: u8 where [kernel_defs]: "S_LSR_DATA_READY = 1"

section \<open>The registers\<close>

text \<open>The eight ports, as they are with the divisor latch closed, are different.\<close>

definition serial_registers :: "u16 \<Rightarrow> u16 list" where
  "serial_registers port = [S_TX_RX port, S_INT_ENABLE port, S_FIFO_CONTROL port, S_LINE_CONTROL port,
     S_MODEM_CONTROL port, S_LINE_STATUS port, S_MODEM_STATUS port, S_SCRATCH_REG port]"

lemma serial_registers_distinct: "distinct (serial_registers port)"
  by (simp add: serial_registers_def kernel_defs)

text \<open>The bits of the line status are the eight bits of the register.\<close>

definition line_status_bits :: "u8 list" where
  "line_status_bits = [S_LSR_DATA_READY, S_LSR_OVERRUN_ERROR, S_LSR_PARITY_ERROR, S_LSR_FRAMING_ERROR,
     S_LSR_BREAK_INDICATOR, S_LSR_TX_REG_EMPTY, S_LSR_TX_EMPTY, S_LSR_IMPENDING_ERROR]"

lemma line_status_bits_eq: "line_status_bits = map (\<lambda>n. push_bit n 1) [0..<8]"
  by (simp add: line_status_bits_def kernel_defs upt_rec)

text \<open>Two bits of the line control are written with the wrong prefix and vanish in the cast.\<close>

lemma line_control_lost: "S_LCR_BREAK_EN = 0" "S_LCR_PARITY_ODD = S_LCR_PARITY_NONE"
  by (simp_all add: kernel_defs)

section \<open>The baud rates\<close>

text \<open>A divisor \<open>d\<close> gives \<open>115200 div d\<close> baud. The four highest rates are right, the others are not.\<close>

definition baud_of :: "u16 \<Rightarrow> nat" where
  "baud_of d = 115200 div unat d"

lemma baud_rates_right:
  "baud_of S_BAUD_115200 = 115200" "baud_of S_BAUD_57600 = 57600" "baud_of S_BAUD_38400 = 38400" "baud_of S_BAUD_28800 = 28800"
  by (simp_all add: baud_of_def kernel_defs)

lemma baud_rates_wrong:
  "baud_of S_BAUD_19200 = 23040" "baud_of S_BAUD_9600 = 19200" "baud_of S_BAUD_4800 = 16457" "baud_of S_BAUD_2400 = 14400"
  "baud_of S_BAUD_1800 = 12800" "baud_of S_BAUD_1200 = 11520" "baud_of S_BAUD_600 = 10472" "baud_of S_BAUD_300 = 9600"
  by (simp_all add: baud_of_def kernel_defs)

end
