(* ===== verification/Serial.thy ===== *)
theory Serial
  imports Memory Util CString SerialRegs
begin

text \<open>
  \<open>src/drv/rs232.c\<close> and \<open>src/drv/pit.c\<close>: the serial port and the interval timer, as the port
  accesses they make. The device behind the ports is a parameter (\<open>device\<close>).
\<close>

section \<open>The driver\<close>

definition can_tx :: "device \<Rightarrow> u16 \<Rightarrow> ports \<Rightarrow> bool \<times> ports" where
  "can_tx d port h = (case inb d (S_LINE_STATUS port) h of (v, h) \<Rightarrow> (v AND S_LSR_TX_REG_EMPTY \<noteq> 0, h))"


definition TEST_BYTES :: "u8 list" where
  "TEST_BYTES = [0x00, 0xff, 0xa5, 0x5a]"

fun loopback_test :: "device \<Rightarrow> u16 \<Rightarrow> u8 list \<Rightarrow> ports \<Rightarrow> bool \<times> ports" where
  "loopback_test d port [] h = (True, h)"
| "loopback_test d port (b # bs) h =
     (case inb d (S_TX_RX port) (outb (S_TX_RX port) b h) of
        (v, h) \<Rightarrow> if v \<noteq> b then (False, h) else loopback_test d port bs h)"

definition serial_init :: "device \<Rightarrow> u16 \<Rightarrow> u16 \<Rightarrow> ports \<Rightarrow> int \<times> ports" where
  "serial_init d port baud_rate_divisor h =
     (let h = outb (S_INT_ENABLE port) 0 h;
          h = outb (S_LINE_CONTROL port) S_LCR_DLAB h;
          h = outb (S_DIVISOR_LSB port) (ucast (baud_rate_divisor AND 0xff)) h;
          h = outb (S_DIVISOR_MSB port) (ucast (drop_bit 8 baud_rate_divisor AND 0xff)) h;
          h = outb (S_LINE_CONTROL port) (S_LCR_DATA_BITS_8 OR S_LCR_PARITY_NONE OR S_LCR_STOP_BITS_1) h;
          h = outb (S_FIFO_CONTROL port)
                (S_FCR_ENABLE_FIFOS OR S_FCR_CLEAR_RX_FIFO OR S_FCR_CLEAR_TX_FIFO OR S_FCR_ITL_14_BYTES) h;
          h = outb (S_MODEM_CONTROL port) (S_MCR_OUT2 OR S_MCR_DTR OR S_MCR_RTS) h;
          h = outb (S_MODEM_CONTROL port) (S_MCR_OUT2 OR S_MCR_RTS OR S_MCR_LOOPBACK) h
      in case loopback_test d port TEST_BYTES h of
           (False, h) \<Rightarrow> (-1, h)
         | (True, h) \<Rightarrow> (0, outb (S_MODEM_CONTROL port) (S_MCR_OUT2 OR S_MCR_DTR OR S_MCR_RTS) h))"

text \<open>The empty \<open>if\<close> around the transmitter test does not wait: the byte is sent in any case.\<close>

partial_function (option) serial_write_from ::
    "device \<Rightarrow> u16 \<Rightarrow> mem \<Rightarrow> u64 \<Rightarrow> u64 \<Rightarrow> u64 \<Rightarrow> ports \<Rightarrow> ports option" where
  "serial_write_from d port m str sz i h =
     (if (sz \<noteq> 0 \<and> i < sz) \<or> (sz = 0 \<and> m (str + i) \<noteq> 0)
      then (let h = snd (can_tx d port h)
            in serial_write_from d port m str sz (i + 1) (outb (S_TX_RX port) (m (str + i)) h))
      else Some h)"

definition serial_write :: "device \<Rightarrow> u16 \<Rightarrow> mem \<Rightarrow> u64 \<Rightarrow> u64 \<Rightarrow> ports \<Rightarrow> ports option" where
  "serial_write d port m str sz h = serial_write_from d port m str sz 0 h"




section \<open>The interval timer\<close>

definition PIT_CHAN0 :: u16 where [kernel_defs]: "PIT_CHAN0 = 0x40"
definition PIT_CHAN1 :: u16 where [kernel_defs]: "PIT_CHAN1 = 0x41"
definition PIT_CHAN2 :: u16 where [kernel_defs]: "PIT_CHAN2 = 0x42"
definition PIT_MODE :: u16 where [kernel_defs]: "PIT_MODE = 0x43"
definition PIT_MODE_CHAN0 :: u8 where [kernel_defs]: "PIT_MODE_CHAN0 = 0"
definition PIT_MODE_CHAN1 :: u8 where [kernel_defs]: "PIT_MODE_CHAN1 = 0x40"
definition PIT_MODE_CHAN2 :: u8 where [kernel_defs]: "PIT_MODE_CHAN2 = 0x80"
definition PIT_MODE_RB :: u8 where [kernel_defs]: "PIT_MODE_RB = 0xc0"
definition PIT_MODE_LATCH :: u8 where [kernel_defs]: "PIT_MODE_LATCH = 0"
definition PIT_MODE_LOW :: u8 where [kernel_defs]: "PIT_MODE_LOW = 0x10"
definition PIT_MODE_HIGH :: u8 where [kernel_defs]: "PIT_MODE_HIGH = 0x20"
definition PIT_MODE_HILO :: u8 where [kernel_defs]: "PIT_MODE_HILO = 0x30"
definition PIT_MODE_SQ_WAVE :: u8 where [kernel_defs]: "PIT_MODE_SQ_WAVE = 3"

definition pit_init :: "ports \<Rightarrow> ports" where
  "pit_init h =
     outb PIT_CHAN0 0x00 (outb PIT_CHAN0 0x01 (outb PIT_MODE (PIT_MODE_CHAN0 OR PIT_MODE_HILO OR PIT_MODE_SQ_WAVE) h))"

section \<open>What the driver does\<close>

text \<open>The bytes sent and received through a port.\<close>

fun sent_on :: "u16 \<Rightarrow> ports \<Rightarrow> u8 list" where
  "sent_on port [] = []"
| "sent_on port (Outb p v # h) = (if p = port then v # sent_on port h else sent_on port h)"
| "sent_on port (e # h) = sent_on port h"

fun received_on :: "u16 \<Rightarrow> ports \<Rightarrow> u8 list" where
  "received_on port [] = []"
| "received_on port (Inb p v # h) = (if p = port then v # received_on port h else received_on port h)"
| "received_on port (e # h) = received_on port h"

lemma sent_on_append [simp]: "sent_on port (h @ h') = sent_on port h @ sent_on port h'"
  by (induction port h rule: sent_on.induct) simp_all

lemma received_on_append [simp]: "received_on port (h @ h') = received_on port h @ received_on port h'"
  by (induction port h rule: received_on.induct) simp_all

text \<open>The bytes of memory in a row.\<close>

definition bytes_at :: "mem \<Rightarrow> u64 \<Rightarrow> nat \<Rightarrow> u8 list" where
  "bytes_at m p n = map (\<lambda>k. m (p + of_nat k)) [0..<n]"

lemma bytes_at_Suc: "bytes_at m p (Suc n) = m p # bytes_at m (p + 1) n"
proof -
  have "[0..<Suc n] = 0 # map Suc [0..<n]" by (simp add: upt_conv_Cons map_Suc_upt)
  then show ?thesis unfolding bytes_at_def by (simp only: list.map map_map o_def of_nat_0 of_nat_Suc) (simp add: algebra_simps)
qed

lemma bytes_at_0 [simp]: "bytes_at m p 0 = []"
  by (simp add: bytes_at_def)

lemma cstr_bytes_at: "cstr m p cs \<Longrightarrow> bytes_at m p (length cs) = cs"
  by (induction cs arbitrary: p) (simp_all add: bytes_at_Suc)


text \<open>One pass of the write loop: the status is read, the byte is sent.\<close>

lemma serial_write_step:
  "sent_on (S_TX_RX port) (outb (S_TX_RX port) b (snd (can_tx d port h))) = sent_on (S_TX_RX port) h @ [b]"
  by (simp add: can_tx_def inb_def outb_def Let_def)

lemma serial_write_sized:
  assumes "sz \<noteq> 0"
  shows "\<exists>h'. serial_write_from d port m str sz i h = Some h' \<and>
           sent_on (S_TX_RX port) h' = sent_on (S_TX_RX port) h @ bytes_at m (str + i) (unat sz - unat i)"
proof (induction "unat sz - unat i" arbitrary: i h)
  case 0
  then have "\<not> i < sz" by (simp add: word_less_nat_alt)
  then show ?case using assms 0 by (subst serial_write_from.simps) simp
next
  case (Suc n)
  then have i: "i < sz" by (simp add: word_less_nat_alt)
  have n: "n = unat sz - unat (i + 1)" using Suc.hyps(2) word_Suc_less [OF i] by simp
  let ?h = "outb (S_TX_RX port) (m (str + i)) (snd (can_tx d port h))"
  obtain h' where h': "serial_write_from d port m str sz (i + 1) ?h = Some h'"
      "sent_on (S_TX_RX port) h' = sent_on (S_TX_RX port) ?h @ bytes_at m (str + (i + 1)) n"
    using Suc.hyps(1) [OF n, of ?h] n by auto
  have "serial_write_from d port m str sz i h = Some h'"
    using h'(1) i assms by (subst serial_write_from.simps) (simp add: Let_def)
  moreover have "unat sz - unat i = Suc n" using Suc.hyps(2) by simp
  ultimately show ?case
    using h'(2) by (simp add: serial_write_step bytes_at_Suc add.assoc)
qed

lemma serial_write_string:
  assumes "cstr m (str + i) cs"
  shows "\<exists>h'. serial_write_from d port m str 0 i h = Some h' \<and>
           sent_on (S_TX_RX port) h' = sent_on (S_TX_RX port) h @ cs"
  using assms
proof (induction cs arbitrary: i h)
  case Nil
  then show ?case by (subst serial_write_from.simps) simp
next
  case (Cons c cs)
  let ?h = "outb (S_TX_RX port) (m (str + i)) (snd (can_tx d port h))"
  have "cstr m (str + (i + 1)) cs" using Cons.prems by (simp add: add.assoc)
  from Cons.IH [OF this, of ?h] obtain h' where
    "serial_write_from d port m str 0 (i + 1) ?h = Some h'"
    "sent_on (S_TX_RX port) h' = sent_on (S_TX_RX port) ?h @ cs" by blast
  then show ?case
    using Cons.prems by (subst serial_write_from.simps) (simp add: Let_def serial_write_step)
qed


lemma loopback_test_cases:
  obtains (ok) "loopback_test d port bs h = (True, h @ concat (map (\<lambda>b. [Outb (S_TX_RX port) b, Inb (S_TX_RX port) b]) bs))"
    | (bad) n v where "n < length bs" "v \<noteq> bs ! n"
        "loopback_test d port bs h =
           (False, h @ concat (map (\<lambda>b. [Outb (S_TX_RX port) b, Inb (S_TX_RX port) b]) (take n bs)) @
                   [Outb (S_TX_RX port) (bs ! n), Inb (S_TX_RX port) v])"
proof (induction bs arbitrary: h thesis)
  case Nil
  then show ?case by simp
next
  case (Cons b bs)
  obtain v h' where v: "inb d (S_TX_RX port) (outb (S_TX_RX port) b h) = (v, h')"
    "h' = h @ [Outb (S_TX_RX port) b, Inb (S_TX_RX port) v]"
    by (simp add: inb_def outb_def Let_def)
  show ?case
  proof (cases "v = b")
    case False
    then show ?thesis using v by (intro Cons.prems(2) [of 0 v]) simp_all
  next
    case True
    show ?thesis
    proof (rule Cons.IH [of h'], goal_cases)
      case 1
      then show ?thesis using True v by (intro Cons.prems(1)) simp
    next
      case (2 n w)
      then show ?thesis using True v by (intro Cons.prems(2) [of "Suc n" w]) simp_all
    qed
  qed
qed


section \<open>Properties\<close>

definition serial_setup :: "u16 \<Rightarrow> u16 \<Rightarrow> ports" where
  "serial_setup port divisor =
     [Outb (port + 1) 0, Outb (port + 3) 0x80, Outb port (ucast divisor), Outb (port + 1) (ucast (drop_bit 8 divisor)),
      Outb (port + 3) 3, Outb (port + 2) 0xc7, Outb (port + 4) 0x0b, Outb (port + 4) 0x1a]"

definition echo :: "u16 \<Rightarrow> u8 list \<Rightarrow> ports" where
  "echo port bs = concat (map (\<lambda>b. [Outb port b, Inb port b]) bs)"

text \<open>C29: \<open>serial_init\<close> programs the port (8N1, the divisor, FIFOs), runs the loopback test and
  returns 0 exactly when the device echoed all four bytes; only then is loopback switched off, so a
  port that fails the test is left in loopback mode.\<close>

theorem serial_init_correct:
  "\<exists>n v. n \<le> 4 \<and> (n < 4 \<longrightarrow> v \<noteq> TEST_BYTES ! n) \<and>
     serial_init d port divisor h =
       (if n = 4 then 0 else -1,
        h @ serial_setup port divisor @ echo port (take n TEST_BYTES) @
        (if n = 4 then [Outb (port + 4) 0x0b] else [Outb port (TEST_BYTES ! n), Inb port v]))"
proof -
  let ?h = "h @ serial_setup port divisor"
  have m: "(0xff :: u16) = mask 8" by (simp add: mask_eq_exp_minus_1)
  have lo: "ucast (divisor AND 0xff) = (ucast divisor :: u8)"
    and hi: "ucast (drop_bit 8 divisor AND 0xff) = (ucast (drop_bit 8 divisor) :: u8)"
    unfolding m by (rule bit_word_eqI; simp add: bit_simps)+
  have run: "serial_init d port divisor h =
      (case loopback_test d port TEST_BYTES ?h of
         (False, h) \<Rightarrow> (-1, h) | (True, h) \<Rightarrow> (0, h @ [Outb (port + 4) 0x0b]))"
    unfolding serial_init_def Let_def outb_def serial_setup_def kernel_defs lo hi
    by (simp split: prod.split bool.split)
  have len: "length TEST_BYTES = 4" by (simp add: TEST_BYTES_def)
  show ?thesis
  proof (rule loopback_test_cases [of d port TEST_BYTES ?h])
    assume "loopback_test d port TEST_BYTES ?h =
        (True, ?h @ concat (map (\<lambda>b. [Outb (S_TX_RX port) b, Inb (S_TX_RX port) b]) TEST_BYTES))"
    then show ?thesis
      by (intro exI [of _ 4] exI [of _ 0]) (simp add: run echo_def len kernel_defs)
  next
    fix n v assume "n < length TEST_BYTES" "v \<noteq> TEST_BYTES ! n"
      "loopback_test d port TEST_BYTES ?h =
         (False, ?h @ concat (map (\<lambda>b. [Outb (S_TX_RX port) b, Inb (S_TX_RX port) b]) (take n TEST_BYTES)) @
                 [Outb (S_TX_RX port) (TEST_BYTES ! n), Inb (S_TX_RX port) v])"
    then show ?thesis
      by (intro exI [of _ n] exI [of _ v]) (simp add: run echo_def len kernel_defs)
  qed
qed

definition silent_device :: device where
  "silent_device = \<lparr>answer8 = \<lambda>_ _. 0, answer16 = \<lambda>_ _. 0, answer32 = \<lambda>_ _. 0\<rparr>"

theorem serial_init_correct_witness:
  "\<exists>n v. n \<le> 4 \<and> (n < 4 \<longrightarrow> v \<noteq> TEST_BYTES ! n) \<and>
     serial_init silent_device S_COM1 1 [] =
       (if n = 4 then 0 else -1,
        serial_setup S_COM1 1 @ echo S_COM1 (take n TEST_BYTES) @
        (if n = 4 then [Outb (S_COM1 + 4) 0x0b] else [Outb S_COM1 (TEST_BYTES ! n), Inb S_COM1 v]))"
  using serial_init_correct [of silent_device S_COM1 1 "[]"] by simp

text \<open>C30: \<open>serial_write\<close> ends and sends exactly the bytes asked for, in order: \<open>size\<close> bytes, or the
  bytes up to the terminating NUL when \<open>size\<close> is 0. This holds for every device, also for one whose
  transmitter is never ready: the code does not wait for it.\<close>

theorem serial_write_correct:
  assumes "if sz = 0 then cstr m str bs else bs = bytes_at m str (unat sz)"
  shows "\<exists>h'. serial_write d port m str sz h = Some h' \<and>
           sent_on (S_TX_RX port) h' = sent_on (S_TX_RX port) h @ bs"
proof (cases "sz = 0")
  case True
  then show ?thesis
    using serial_write_string [of m str 0 bs d port h] assms by (simp add: serial_write_def)
next
  case False
  then show ?thesis
    using serial_write_sized [OF False, of d port m str 0 h] assms by (simp add: serial_write_def)
qed

theorem serial_write_correct_witness:
  "\<exists>h'. serial_write silent_device S_COM1
          (put_bytes (\<lambda>_. 0) 0x1000 ([104, 105] @ [0])) 0x1000 0 [] = Some h' \<and>
     sent_on S_COM1 h' = [104, 105]"
proof -
  have "cstr (put_bytes (\<lambda>_. 0) 0x1000 ([104, 105] @ [0])) 0x1000 [104, 105]"
    by (rule cstr_put_bytes) simp_all
  from serial_write_correct [of 0, simplified, OF this] show ?thesis
    by (force simp: S_TX_RX_def)
qed




end
