(* ===== verification/Term.thy ===== *)
theory Term
  imports Limine Serial
begin

text \<open>
  \<open>src/drv/term.c\<close>: the terminal. Formatting is the library \<open>nanoprintf\<close>, a parameter \<open>npf\<close> that
  gives the characters it passes to the callback for a format and its arguments (it returns their
  number, as its documentation says); drawing is the library \<open>flanterm\<close>, seen as the calls made to it.
  The serial line is the driver of theory \<open>Serial\<close>.
\<close>

section \<open>The state\<close>

text \<open>The arguments of \<open>flanterm_fb_init\<close>, in its order; colours of 32 bits are passed by reference.\<close>

record fb_init_call =
  ia_framebuffer :: "u64 \<times> u64 \<times> u64 \<times> u64"
  ia_red_mask :: "u8 \<times> u8"
  ia_green_mask :: "u8 \<times> u8"
  ia_blue_mask :: "u8 \<times> u8"
  ia_canvas :: u64
  ia_ansi_colours :: "u64 \<times> u64"
  ia_defaults :: "u32 \<times> u32"
  ia_default_brights :: "u64 \<times> u64"
  ia_font :: "u64 \<times> u64 \<times> u64 \<times> u64"
  ia_font_scale :: "u64 \<times> u64"
  ia_margin :: u64
  ia_rotation :: u64

datatype flanterm_call =
    Flanterm_fb_init fb_init_call
  | Flanterm_set_autoflush bool
  | Flanterm_write "u8 list"
  | Flanterm_flush

record term_state =
  flanterm :: "flanterm_call list"
  com :: ports

type_synonym npf = "string \<Rightarrow> karg list \<Rightarrow> u8 list"

definition MIN_LOG_LEVEL :: int where [kernel_defs]: "MIN_LOG_LEVEL = 0"

definition flanterm_call :: "flanterm_call \<Rightarrow> term_state \<Rightarrow> term_state" where
  "flanterm_call c t = t\<lparr>flanterm := flanterm t @ [c]\<rparr>"

section \<open>Characters and formats\<close>

definition s_putchar :: "device \<Rightarrow> u8 \<Rightarrow> term_state \<Rightarrow> term_state option" where
  "s_putchar d c t =
     (let t = (if c = 10 then flanterm_call (Flanterm_write [13]) t else t);
          t = flanterm_call (Flanterm_write [c]) t
      in case serial_write d KERNEL_LOGGING_PORT (\<lambda>_. c) 0 1 (com t) of
           None \<Rightarrow> None
         | Some h \<Rightarrow> Some (t\<lparr>com := h\<rparr>))"

fun put_chars :: "device \<Rightarrow> u8 list \<Rightarrow> term_state \<Rightarrow> term_state option" where
  "put_chars d [] t = Some t"
| "put_chars d (c # cs) t = (case s_putchar d c t of None \<Rightarrow> None | Some t \<Rightarrow> put_chars d cs t)"

definition kvprintf :: "npf \<Rightarrow> device \<Rightarrow> string \<Rightarrow> karg list \<Rightarrow> term_state \<Rightarrow> (u64 \<times> term_state) option" where
  "kvprintf npf d fmt args t =
     (case put_chars d (npf fmt args) t of
        None \<Rightarrow> None
      | Some t \<Rightarrow> Some (of_nat (length (npf fmt args)), flanterm_call Flanterm_flush t))"

definition kprintf :: "npf \<Rightarrow> device \<Rightarrow> string \<Rightarrow> karg list \<Rightarrow> term_state \<Rightarrow> (u64 \<times> term_state) option" where
  "kprintf npf d fmt args t = kvprintf npf d fmt args t"

section \<open>Log lines\<close>

text \<open>The escape character of the ANSI sequences is character 27.\<close>

definition ANSI_SGR_FG_COLOR :: string where "ANSI_SGR_FG_COLOR = CHR 27 # ''[38;5;''"
definition ANSI_SGR_END :: string where "ANSI_SGR_END = ''m''"
definition ANSI_SGR_FG_COLOR_RESET :: string where "ANSI_SGR_FG_COLOR_RESET = CHR 27 # ''[39;49m''"

definition LOG_COLORS :: "string list" where
  "LOG_COLORS = [''7'', ''69'', ''70'', ''221'', ''160'']"

definition LOG_LEVEL_NAMES :: "string list" where
  "LOG_LEVEL_NAMES = [''trc'', ''dbg'', ''inf'', ''wrn'', ''err'']"

text \<open>The message about an invalid level is itself a log line, of level \<open>LL_ERROR\<close>.\<close>

definition head_args :: "int \<Rightarrow> string \<Rightarrow> karg list" where
  "head_args log_level file =
     [KStr ANSI_SGR_FG_COLOR, KStr (LOG_COLORS ! nat log_level), KStr ANSI_SGR_END,
      KStr (LOG_LEVEL_NAMES ! nat log_level), KStr ANSI_SGR_FG_COLOR_RESET, KStr file]"

definition print_head :: "npf \<Rightarrow> device \<Rightarrow> int \<Rightarrow> string \<Rightarrow> int \<Rightarrow> term_state \<Rightarrow> (u64 \<times> term_state) option" where
  "print_head npf d log_level file line t =
     (case kprintf npf d ''[%s%s%s%s%s] [%s'' (head_args log_level file) t of
        None \<Rightarrow> None
      | Some (size1, t) \<Rightarrow>
          (case (if 0 \<le> line then kprintf npf d '':%3d'' [KInt (word_of_int line)] t else Some (0, t)) of
             None \<Rightarrow> None
           | Some (size2, t) \<Rightarrow>
               (case kprintf npf d ''] '' [] t of
                  None \<Rightarrow> None
                | Some (size3, t) \<Rightarrow> Some (size1 + size2 + size3, t))))"

function s_print_log_head ::
    "npf \<Rightarrow> device \<Rightarrow> int \<Rightarrow> string \<Rightarrow> int \<Rightarrow> term_state \<Rightarrow> (u64 \<times> term_state) option" where
  "s_print_log_head npf d log_level file line t =
     (if log_level < 0 \<or> int LL_ERROR < log_level
      then (case s_print_log_head npf d (int LL_ERROR) ''term.c'' 84 t of
              None \<Rightarrow> None
            | Some (_, t) \<Rightarrow>
                (case kvprintf npf d (''Invalid log level %d in %s:%d, rewriting to LL_ERROR.'' @ [CHR 10])
                        [KInt (word_of_int log_level), KStr file, KInt (word_of_int line)] t of
                   None \<Rightarrow> None
                 | Some (_, t) \<Rightarrow> print_head npf d (int LL_ERROR) file line t))
      else print_head npf d log_level file line t)"
  by pat_completeness auto
termination
  by (relation "measure (\<lambda>(npf, d, log_level, file, line, t).
        if log_level < 0 \<or> int LL_ERROR < log_level then 1 else 0)") (auto simp: LL_ERROR_def)

declare s_print_log_head.simps [simp del]

definition kvlog ::
    "npf \<Rightarrow> device \<Rightarrow> int \<Rightarrow> string \<Rightarrow> int \<Rightarrow> string \<Rightarrow> karg list \<Rightarrow> term_state \<Rightarrow> (u64 \<times> term_state) option" where
  "kvlog npf d log_level file line fmt args t =
     (if log_level < MIN_LOG_LEVEL then Some (0, t)
      else
        (case s_print_log_head npf d log_level file line t of
           None \<Rightarrow> None
         | Some (size1, t) \<Rightarrow>
             (case kvprintf npf d fmt args t of
                None \<Rightarrow> None
              | Some (size2, t) \<Rightarrow> Some (size1 + size2, t))))"

definition klog ::
    "npf \<Rightarrow> device \<Rightarrow> int \<Rightarrow> string \<Rightarrow> int \<Rightarrow> string \<Rightarrow> karg list \<Rightarrow> term_state \<Rightarrow> (u64 \<times> term_state) option" where
  "klog npf d log_level file line fmt args t = kvlog npf d log_level file line fmt args t"

text \<open>\<open>term_init\<close>: \<open>None\<close> in the outer option for an access to a missing framebuffer.\<close>

record term_defaults =
  fg :: u32
  bg :: u32

definition s_term_defaults :: term_defaults where
  "s_term_defaults = \<lparr>fg = 0xffffff, bg = 0x000000\<rparr>"

definition fb_init_args :: "framebuffer \<Rightarrow> flanterm_params \<Rightarrow> fb_init_call" where
  "fb_init_args fb p = \<lparr>
     ia_framebuffer = (fb_address fb, fb_width fb, fb_height fb, fb_pitch fb),
     ia_red_mask = (fb_red_mask_size fb, fb_red_mask_shift fb),
     ia_green_mask = (fb_green_mask_size fb, fb_green_mask_shift fb),
     ia_blue_mask = (fb_blue_mask_size fb, fb_blue_mask_shift fb),
     ia_canvas = fp_canvas p, ia_ansi_colours = (fp_ansi_colours p, fp_ansi_bright_colours p),
     ia_defaults = (bg s_term_defaults, fg s_term_defaults),
     ia_default_brights = (fp_default_bg_bright p, fp_default_fg_bright p),
     ia_font = (fp_font p, fp_font_width p, fp_font_height p, fp_font_spacing p),
     ia_font_scale = (fp_font_scale_x p, fp_font_scale_y p),
     ia_margin = fp_margin p, ia_rotation = fp_rotation p\<rparr>"

definition term_init :: "npf \<Rightarrow> device \<Rightarrow> boot_info \<Rightarrow> term_state \<Rightarrow> term_state option" where
  "term_init npf d b t =
     (case limine_data_get_framebuffer_response b of
        Some (fb # _) \<Rightarrow>
          (case limine_data_get_flanterm_fb_init_params_response b of
             Some (p # _) \<Rightarrow>
               (let t = flanterm_call (Flanterm_fb_init (fb_init_args fb p)) t;
                    t = flanterm_call (Flanterm_set_autoflush False) t;
                    t = t\<lparr>com := snd (serial_init d KERNEL_LOGGING_PORT S_BAUD_115200 (com t))\<rparr>
                in map_option snd (kprintf npf d (CHR 27 # ''[2J'') [] t))
           | _ \<Rightarrow> None)
      | _ \<Rightarrow> None)"

section \<open>What is shown\<close>

text \<open>The characters on the screen and on the serial line.\<close>

fun shown :: "flanterm_call list \<Rightarrow> u8 list" where
  "shown [] = []"
| "shown (Flanterm_write cs # l) = cs @ shown l"
| "shown (c # l) = shown l"

definition with_cr :: "u8 list \<Rightarrow> u8 list" where
  "with_cr cs = concat (map (\<lambda>c. if c = 10 then [13, 10] else [c]) cs)"

lemma shown_append [simp]: "shown (l @ l') = shown l @ shown l'"
  by (induction l rule: shown.induct) simp_all

lemma with_cr_append [simp]: "with_cr (xs @ ys) = with_cr xs @ with_cr ys"
  by (simp add: with_cr_def)

text \<open>\<open>prints cs t t'\<close>: exactly the characters \<open>cs\<close> were put out between \<open>t\<close> and \<open>t'\<close>, on both.\<close>

definition prints :: "u8 list \<Rightarrow> term_state \<Rightarrow> term_state \<Rightarrow> bool" where
  "prints cs t t' \<longleftrightarrow>
     shown (flanterm t') = shown (flanterm t) @ with_cr cs \<and>
     sent_on KERNEL_LOGGING_PORT (com t') = sent_on KERNEL_LOGGING_PORT (com t) @ cs"

lemma prints_Nil [simp]: "prints [] t t"
  by (simp add: prints_def with_cr_def)

lemma prints_trans: "prints xs t u \<Longrightarrow> prints ys u v \<Longrightarrow> prints (xs @ ys) t v"
  by (simp add: prints_def)

lemma s_putchar_prints: "\<exists>t'. s_putchar d c t = Some t' \<and> prints [c] t t'"
proof -
  let ?t = "flanterm_call (Flanterm_write [c]) (if c = 10 then flanterm_call (Flanterm_write [13]) t else t)"
  obtain h' where h': "serial_write d KERNEL_LOGGING_PORT (\<lambda>_. c) 0 1 (com ?t) = Some h'"
      "sent_on (S_TX_RX KERNEL_LOGGING_PORT) h' = sent_on (S_TX_RX KERNEL_LOGGING_PORT) (com ?t) @ [c]"
    using serial_write_sized [of 1 d KERNEL_LOGGING_PORT "\<lambda>_. c" 0 0 "com ?t"]
    by (auto simp: serial_write_def bytes_at_def)
  have tx: "S_TX_RX KERNEL_LOGGING_PORT = KERNEL_LOGGING_PORT" by (simp add: S_TX_RX_def)
  show ?thesis
    using h' unfolding tx
    by (intro exI [of _ "?t\<lparr>com := h'\<rparr>"]) (simp add: s_putchar_def prints_def with_cr_def flanterm_call_def Let_def)
qed

lemma put_chars_prints: "\<exists>t'. put_chars d cs t = Some t' \<and> prints cs t t'"
proof (induction cs arbitrary: t)
  case (Cons c cs)
  obtain u where u: "s_putchar d c t = Some u" "prints [c] t u" using s_putchar_prints by blast
  obtain v where v: "put_chars d cs u = Some v" "prints cs u v" using Cons.IH by blast
  show ?case using u v prints_trans [OF u(2) v(2)] by simp
qed simp

lemma kvprintf_prints:
  "\<exists>t'. kvprintf npf d fmt args t = Some (of_nat (length (npf fmt args)), t') \<and> prints (npf fmt args) t t'"
proof -
  obtain u where u: "put_chars d (npf fmt args) t = Some u" "prints (npf fmt args) t u"
    using put_chars_prints by blast
  then show ?thesis by (simp add: kvprintf_def flanterm_call_def prints_def)
qed

text \<open>The characters of the head of a log line.\<close>

definition head_chars :: "npf \<Rightarrow> int \<Rightarrow> string \<Rightarrow> int \<Rightarrow> u8 list" where
  "head_chars npf log_level file line =
     npf ''[%s%s%s%s%s] [%s'' (head_args log_level file) @
     (if 0 \<le> line then npf '':%3d'' [KInt (word_of_int line)] else []) @ npf ''] '' []"

lemma print_head_prints:
  "\<exists>t'. print_head npf d log_level file line t =
          Some (of_nat (length (head_chars npf log_level file line)), t') \<and>
        prints (head_chars npf log_level file line) t t'"
proof -
  obtain t1 where t1: "kprintf npf d ''[%s%s%s%s%s] [%s'' (head_args log_level file) t =
      Some (of_nat (length (npf ''[%s%s%s%s%s] [%s'' (head_args log_level file))), t1)"
      "prints (npf ''[%s%s%s%s%s] [%s'' (head_args log_level file)) t t1"
    using kvprintf_prints unfolding kprintf_def by blast
  let ?l = "if 0 \<le> line then npf '':%3d'' [KInt (word_of_int line)] else []"
  obtain t2 where t2: "(if 0 \<le> line then kprintf npf d '':%3d'' [KInt (word_of_int line)] t1 else Some (0, t1)) =
      Some (of_nat (length ?l), t2)" "prints ?l t1 t2"
    using kvprintf_prints [of npf d "'':%3d''" "[KInt (word_of_int line)]" t1]
    by (cases "0 \<le> line") (auto simp: kprintf_def)
  obtain t3 where t3: "kprintf npf d ''] '' [] t2 = Some (of_nat (length (npf ''] '' [])), t3)"
      "prints (npf ''] '' []) t2 t3"
    using kvprintf_prints unfolding kprintf_def by blast
  show ?thesis
    using t1(1) t2(1) t3(1) prints_trans [OF t1(2) prints_trans [OF t2(2) t3(2)]]
    by (auto simp: print_head_def head_chars_def)
qed


text \<open>What a log call of a given level puts out before its message.\<close>

definition log_prefix :: "npf \<Rightarrow> int \<Rightarrow> string \<Rightarrow> int \<Rightarrow> u8 list" where
  "log_prefix npf log_level file line =
     (if log_level < 0 \<or> int LL_ERROR < log_level
      then head_chars npf (int LL_ERROR) ''term.c'' 84 @
           npf (''Invalid log level %d in %s:%d, rewriting to LL_ERROR.'' @ [CHR 10])
             [KInt (word_of_int log_level), KStr file, KInt (word_of_int line)]
      else [])"

definition effective_level :: "int \<Rightarrow> int" where
  "effective_level log_level = (if log_level < 0 \<or> int LL_ERROR < log_level then int LL_ERROR else log_level)"

lemma s_print_log_head_prints:
  "\<exists>t'. s_print_log_head npf d log_level file line t =
          Some (of_nat (length (head_chars npf (effective_level log_level) file line)), t') \<and>
        prints (log_prefix npf log_level file line @ head_chars npf (effective_level log_level) file line) t t'"
proof (cases "log_level < 0 \<or> int LL_ERROR < log_level")
  case False
  then show ?thesis
    using print_head_prints [of npf d log_level "file" line t]
    by (subst s_print_log_head.simps) (simp add: log_prefix_def effective_level_def)
next
  case True
  let ?fmt = "''Invalid log level %d in %s:%d, rewriting to LL_ERROR.'' @ [CHR 10]"
  let ?args = "[KInt (word_of_int log_level), KStr file, KInt (word_of_int line)]"
  obtain t1 where t1: "print_head npf d (int LL_ERROR) ''term.c'' 84 t =
      Some (of_nat (length (head_chars npf (int LL_ERROR) ''term.c'' 84)), t1)"
      "prints (head_chars npf (int LL_ERROR) ''term.c'' 84) t t1"
    using print_head_prints by blast
  have valid: "s_print_log_head npf d (int LL_ERROR) ''term.c'' 84 t = print_head npf d (int LL_ERROR) ''term.c'' 84 t"
    by (subst s_print_log_head.simps) (simp add: LL_ERROR_def)
  obtain t2 where t2: "kvprintf npf d ?fmt ?args t1 = Some (of_nat (length (npf ?fmt ?args)), t2)"
      "prints (npf ?fmt ?args) t1 t2"
    using kvprintf_prints by blast
  obtain t3 where t3: "print_head npf d (int LL_ERROR) file line t2 =
      Some (of_nat (length (head_chars npf (int LL_ERROR) file line)), t3)"
      "prints (head_chars npf (int LL_ERROR) file line) t2 t3"
    using print_head_prints by blast
  have "s_print_log_head npf d log_level file line t =
      Some (of_nat (length (head_chars npf (int LL_ERROR) file line)), t3)"
    using True t1(1) t2(1) t3(1) valid by (subst s_print_log_head.simps) simp
  moreover have "prints (log_prefix npf log_level file line @ head_chars npf (int LL_ERROR) file line) t t3"
    using True prints_trans [OF prints_trans [OF t1(2) t2(2)] t3(2)] by (simp add: log_prefix_def)
  ultimately show ?thesis using True by (simp add: effective_level_def)
qed

section \<open>Properties\<close>

text \<open>C34: A log call below \<open>MIN_LOG_LEVEL\<close> prints nothing; one of a known level prints the head (level
  name in its colour, file, line if there is one) and the message, and returns their length; one above
  \<open>LL_ERROR\<close> first reports the bad level, without counting the report, and goes on as \<open>LL_ERROR\<close>.\<close>

theorem klog_output:
  "\<exists>t'. klog npf d log_level file line fmt args t =
       Some (if log_level < MIN_LOG_LEVEL then 0
             else of_nat (length (head_chars npf (effective_level log_level) file line) + length (npf fmt args)), t') \<and>
     (if log_level < MIN_LOG_LEVEL then t' = t
      else prints (log_prefix npf log_level file line @
                   head_chars npf (effective_level log_level) file line @ npf fmt args) t t')"
proof (cases "log_level < MIN_LOG_LEVEL")
  case False
  obtain u where u: "s_print_log_head npf d log_level file line t =
      Some (of_nat (length (head_chars npf (effective_level log_level) file line)), u)"
      "prints (log_prefix npf log_level file line @ head_chars npf (effective_level log_level) file line) t u"
    using s_print_log_head_prints by blast
  obtain v where v: "kvprintf npf d fmt args u = Some (of_nat (length (npf fmt args)), v)" "prints (npf fmt args) u v"
    using kvprintf_prints by blast
  show ?thesis using False u(1) v(1) prints_trans [OF u(2) v(2)] by (simp add: klog_def kvlog_def)
qed (simp add: klog_def kvlog_def)

end
