(* ===== verification/Acpi.thy ===== *)
theory Acpi
  imports Virt Term
begin

text \<open>
  \<open>src/acpi/\<close> (\<open>acpi.c\<close>, \<open>kernel_api.c\<close>, \<open>lapic.c\<close>) and the last getter of \<open>src/limine_data.c\<close>, which
  needs the page tables. The library \<open>uACPI\<close> is a parameter: its two entry points, which may call back
  into the kernel and so map any state to any outcome, and the accessors of the table structures its
  headers declare.
\<close>

section \<open>State and parameters\<close>

record acpi = virt +
  s_acpi_early_table_buffer :: u64
  s_local_apic_address_phys :: u64
  s_limine_data_rsdp_phys :: u64

text \<open>
  \<open>setup_early_table_access\<close> gives \<open>None\<close> for \<open>UACPI_STATUS_OK\<close> and the text of the status otherwise;
  \<open>find_madt\<close> gives the address of the table, \<open>None\<close> when there is none and the variable of the caller
  stays uninitialised. The fields of an entry header are bytes, as the ACPI specification says.
\<close>

record 's uacpi =
  setup_early_table_access :: "u64 \<Rightarrow> u64 \<Rightarrow> 's \<Rightarrow> (string option, 's) res"
  find_madt :: "'s \<Rightarrow> (u64 option, 's) res"

record madt_layout =
  table_length :: "mem \<Rightarrow> u64 \<Rightarrow> u32"
  local_interrupt_controller_address :: "mem \<Rightarrow> u64 \<Rightarrow> u32"
  entry_type :: "mem \<Rightarrow> u64 \<Rightarrow> u8"
  entry_length :: "mem \<Rightarrow> u64 \<Rightarrow> u8"
  override_address :: "mem \<Rightarrow> u64 \<Rightarrow> u64"
  type_lapic_address_override :: u8

datatype uacpi_log_level =
    UACPI_LOG_DEBUG | UACPI_LOG_TRACE | UACPI_LOG_INFO | UACPI_LOG_WARN | UACPI_LOG_ERROR
  | UACPI_LOG_OTHER int

section \<open>The RSDP\<close>

definition limine_data_get_rsdp_phys :: "boot_info \<Rightarrow> 'z acpi_scheme \<Rightarrow> (u64, 'z acpi_scheme) res" where
  "limine_data_get_rsdp_phys b s =
     (if s_limine_data_rsdp_phys s = 0
      then (case limine_data_get_rsdp_virt b of
              None \<Rightarrow> Inl Fault
            | Some v \<Rightarrow> bindk (virt_get_physical_address 0 v s) (\<lambda>p s. Inr (p, s\<lparr>s_limine_data_rsdp_phys := p\<rparr>)))
      else Inr (s_limine_data_rsdp_phys s, s))"

section \<open>The services uACPI calls\<close>

fun s_kernel_api_convert_log_level :: "uacpi_log_level \<Rightarrow> nat" where
  "s_kernel_api_convert_log_level UACPI_LOG_DEBUG = LL_DEBUG"
| "s_kernel_api_convert_log_level UACPI_LOG_TRACE = LL_TRACE"
| "s_kernel_api_convert_log_level UACPI_LOG_INFO = LL_INFO"
| "s_kernel_api_convert_log_level UACPI_LOG_WARN = LL_WARN"
| "s_kernel_api_convert_log_level UACPI_LOG_ERROR = LL_ERROR"
| "s_kernel_api_convert_log_level (UACPI_LOG_OTHER n) = LL_ERROR"

definition uacpi_kernel_get_rsdp :: "boot_info \<Rightarrow> 'z acpi_scheme \<Rightarrow> (u64, 'z acpi_scheme) res" where
  "uacpi_kernel_get_rsdp b s = limine_data_get_rsdp_phys b s"

definition uacpi_kernel_map :: "u64 \<Rightarrow> u64 \<Rightarrow> 'z virt_scheme \<Rightarrow> (u64, 'z virt_scheme) res" where
  "uacpi_kernel_map addr len s =
     (let phys_base = floorchunku64 addr VIRT_PAGE_SIZE;
          offset_within_page = addr - phys_base;
          actual_len = ceilchunku64 (len + offset_within_page) VIRT_PAGE_SIZE
      in bindk (virt_map_anywhere 0 phys_base actual_len (VF_PT_PRESENT OR VF_PT_WRITABLE) s) (\<lambda>virt_addr s.
           Inr (virt_addr + offset_within_page, s)))"

definition uacpi_kernel_unmap :: "u64 \<Rightarrow> u64 \<Rightarrow> 'z virt_scheme \<Rightarrow> (unit, 'z virt_scheme) res" where
  "uacpi_kernel_unmap addr len s =
     (let virt_base = floorchunku64 addr VIRT_PAGE_SIZE;
          offset_within_page = addr - virt_base;
          actual_len = ceilchunku64 (len + offset_within_page) VIRT_PAGE_SIZE
      in virt_unmap 0 virt_base actual_len s)"

definition uacpi_kernel_vlog ::
    "npf \<Rightarrow> device \<Rightarrow> uacpi_log_level \<Rightarrow> string \<Rightarrow> karg list \<Rightarrow> term_state \<Rightarrow> (u64 \<times> term_state) option" where
  "uacpi_kernel_vlog npf d log_level fmt args t =
     kvlog npf d (int (s_kernel_api_convert_log_level log_level)) ''uACPI'' (-1) fmt args t"

definition uacpi_kernel_log ::
    "npf \<Rightarrow> device \<Rightarrow> uacpi_log_level \<Rightarrow> string \<Rightarrow> karg list \<Rightarrow> term_state \<Rightarrow> (u64 \<times> term_state) option" where
  "uacpi_kernel_log npf d log_level fmt args t = uacpi_kernel_vlog npf d log_level fmt args t"

section \<open>Reading the MADT\<close>

text \<open>The loop over the entries: \<open>None\<close> when it never ends.\<close>

partial_function (option) madt_walk :: "madt_layout \<Rightarrow> mem \<Rightarrow> u64 \<Rightarrow> u64 \<Rightarrow> u64 \<Rightarrow> u64 option" where
  "madt_walk L m madt offset lapic =
     (if offset < ucast (table_length L m madt)
      then (let entry = madt + offset
            in madt_walk L m madt (offset + ucast (entry_length L m entry))
                 (if entry_type L m entry = type_lapic_address_override L then override_address L m entry else lapic))
      else Some lapic)"

definition acpi_init ::
    "'z acpi_scheme uacpi \<Rightarrow> madt_layout \<Rightarrow> 'z acpi_scheme \<Rightarrow> (unit, 'z acpi_scheme) res" where
  "acpi_init u L s =
     bindk (virt_alloc 0 VIRT_PAGE_SIZE s) (\<lambda>buf s.
     let s = s\<lparr>s_acpi_early_table_buffer := buf\<rparr> in
     bindk (setup_early_table_access u buf VIRT_PAGE_SIZE s) (\<lambda>err s.
     case err of
       Some msg \<Rightarrow> hcf (kerror ''Failed to initialize uACPI: %s'' [KStr msg] s)
     | None \<Rightarrow>
         bindk (find_madt u s) (\<lambda>table s.
         case table of
           None \<Rightarrow> Inl Fault
         | Some madt \<Rightarrow>
             (let s = ktrace ''MADT @ %0p'' [KInt madt] s
              in case madt_walk L (mem s) madt 0x2c (ucast (local_interrupt_controller_address L (mem s) madt)) of
                   None \<Rightarrow> Inl Spin
                 | Some lapic \<Rightarrow> Inr ((), s\<lparr>s_local_apic_address_phys := lapic\<rparr>)))))"

definition acpi_get_lapic_address :: "'z acpi_scheme \<Rightarrow> u64" where
  "acpi_get_lapic_address s = s_local_apic_address_phys s"

section \<open>The local APIC\<close>

definition MSR_APIC_BASE :: u32 where [kernel_defs]: "MSR_APIC_BASE = 0x1b"
definition MSR_APIC_BASE_FLAGS_IS_BOOTSTRAP_PROCESSOR :: u64 where [kernel_defs]: "MSR_APIC_BASE_FLAGS_IS_BOOTSTRAP_PROCESSOR = 0x100"
definition MSR_APIC_BASE_FLAGS_ENABLED :: u64 where [kernel_defs]: "MSR_APIC_BASE_FLAGS_ENABLED = 0x800"

text \<open>
  \<open>msr_read\<close> of \<open>util.h\<close>: the operand constraint \<open>=A\<close> names the register \<open>rax\<close> on x86-64, so of the
  two halves that \<open>rdmsr\<close> leaves in \<open>edx\<close> and \<open>eax\<close> only the low one is read (\<open>rdmsr\<close> clears the upper
  half of \<open>rax\<close>). The registers are a parameter.
\<close>

definition msr_read :: "(u32 \<Rightarrow> u64) \<Rightarrow> u32 \<Rightarrow> u64" where
  "msr_read msrs msr_addr = take_bit 32 (msrs msr_addr)"

text \<open>
  \<open>msr_write\<close> (which nothing calls) has the same defect: \<open>wrmsr\<close> takes the high half from \<open>edx\<close>, which
  the statement does not set, so its content is a parameter.
\<close>

definition msr_write :: "u32 \<Rightarrow> u32 \<Rightarrow> u64 \<Rightarrow> (u32 \<Rightarrow> u64) \<Rightarrow> u32 \<Rightarrow> u64" where
  "msr_write edx msr_addr value msrs = msrs(msr_addr := push_bit 32 (ucast edx) OR take_bit 32 value)"

definition lapic_init :: "(u32 \<Rightarrow> u64) \<Rightarrow> 'z acpi_scheme \<Rightarrow> (unit, 'z acpi_scheme) res" where
  "lapic_init msrs s =
     (let phys = acpi_get_lapic_address s;
          s = kinfo ''The local APIC lies at the physical address %0p, '' [KInt phys] s
      in bindk (virt_map_anywhere 0 phys VIRT_PAGE_SIZE
                  (VF_PT_PRESENT OR VF_PT_WRITABLE OR VF_PT_WRITE_THROUGH OR VF_PT_CACHE_DISABLE) s) (\<lambda>virt_addr s.
           let s = klog_event (Kprintf (''and is mapped to %0p.'' @ [CHR 10]) [KInt virt_addr]) s;
               apic_base_msr = msr_read msrs MSR_APIC_BASE;
               s = kinfo ''The APIC MSR says the APIC is located at %0p.'' [KInt apic_base_msr] s
           in if apic_base_msr AND MSR_APIC_BASE_FLAGS_ENABLED = 0
              then hcf (kerror ''The APIC was disabled! We cannot re-enable it.'' [] s)
              else Inr ((), s)))"

end
