(* ===== verification/Gdt.thy ===== *)
theory Gdt
  imports Prelude
begin

text \<open>
  \<open>src/mem/gdt.c\<close>, \<open>gdt.h\<close> and \<open>gdt.asm\<close>: the global descriptor table. A descriptor is the packed
  struct of bit fields; \<open>gdt_encode\<close> is its 64-bit memory image, with the first field in the lowest
  bits, as the compiler lays out packed bit fields on x86-64.
\<close>

section \<open>Descriptors\<close>

record gdt_entry_t =
  limit_low :: "16 word"
  base_low :: "24 word"
  access :: "8 word"
  limit_high :: "4 word"
  flags :: "4 word"
  base_high :: "8 word"

definition gdt_encode :: "gdt_entry_t \<Rightarrow> u64" where
  "gdt_encode e =
     ucast (limit_low e) OR push_bit 16 (ucast (base_low e)) OR push_bit 40 (ucast (access e)) OR
     push_bit 48 (ucast (limit_high e)) OR push_bit 52 (ucast (flags e)) OR push_bit 56 (ucast (base_high e))"

definition gdt_decode :: "u64 \<Rightarrow> gdt_entry_t" where
  "gdt_decode w =
     \<lparr>limit_low = ucast w, base_low = ucast (drop_bit 16 w), access = ucast (drop_bit 40 w),
      limit_high = ucast (drop_bit 48 w), flags = ucast (drop_bit 52 w), base_high = ucast (drop_bit 56 w)\<rparr>"

text \<open>What the processor reads as base and limit.\<close>

definition gdt_base :: "gdt_entry_t \<Rightarrow> u32" where
  "gdt_base e = ucast (base_low e) OR push_bit 24 (ucast (base_high e))"

definition gdt_limit :: "gdt_entry_t \<Rightarrow> u32" where
  "gdt_limit e = ucast (limit_low e) OR push_bit 16 (ucast (limit_high e))"

definition GDT_ACCESS_PRESENT :: u64 where [kernel_defs]: "GDT_ACCESS_PRESENT = 0x80"
definition GDT_ACCESS_DPL_RING0 :: u64 where [kernel_defs]: "GDT_ACCESS_DPL_RING0 = 0x00"
definition GDT_ACCESS_DPL_RING3 :: u64 where [kernel_defs]: "GDT_ACCESS_DPL_RING3 = 0x60"
definition GDT_ACCESS_CODE_SEGMENT :: u64 where [kernel_defs]: "GDT_ACCESS_CODE_SEGMENT = 0x18"
definition GDT_ACCESS_DATA_SEGMENT :: u64 where [kernel_defs]: "GDT_ACCESS_DATA_SEGMENT = 0x10"
definition GDT_ACCESS_CONFORMING :: u64 where [kernel_defs]: "GDT_ACCESS_CONFORMING = 0x04"
definition GDT_ACCESS_READABLE :: u64 where [kernel_defs]: "GDT_ACCESS_READABLE = 0x02"
definition GDT_ACCESS_WRITABLE :: u64 where [kernel_defs]: "GDT_ACCESS_WRITABLE = 0x02"
definition GDT_ACCESS_ACCESSED :: u64 where [kernel_defs]: "GDT_ACCESS_ACCESSED = 0x01"

definition GDT_FLAGS_PAGE_GRANULARITY :: u64 where [kernel_defs]: "GDT_FLAGS_PAGE_GRANULARITY = 0x8"
definition GDT_FLAGS_PROTECTED_MODE :: u64 where [kernel_defs]: "GDT_FLAGS_PROTECTED_MODE = 0x4"
definition GDT_FLAGS_LONG_MODE_CODE :: u64 where [kernel_defs]: "GDT_FLAGS_LONG_MODE_CODE = 0x2"

section \<open>Loading the table\<close>

text \<open>
  The state: the table, the \<open>gdtr\<close> variable, the register that \<open>lgdt\<close> loads, and the selectors of
  the code segment and of the data segments (\<open>gdt_reload_segments\<close> loads the same one into all five).
\<close>

record gdtr_t =
  gdtr_size :: u16
  gdtr_offset :: u64

record gdt_state =
  gdt :: "gdt_entry_t list"
  gdtr :: gdtr_t
  gdt_register :: "gdtr_t option"
  seg_cs :: u16
  seg_data :: u16

definition GDT_ENTRIES :: nat where [kernel_defs]: "GDT_ENTRIES = 5"

definition s_add_gdt_entry :: "nat \<Rightarrow> u64 \<Rightarrow> u64 \<Rightarrow> u64 \<Rightarrow> u64 \<Rightarrow> gdt_state \<Rightarrow> gdt_state" where
  "s_add_gdt_entry index base lim acc flgs s =
     s\<lparr>gdt := (gdt s)[index :=
        \<lparr>limit_low = ucast (lim AND 0xffff),
         base_low = ucast (base AND 0xffffff),
         access = ucast (acc AND 0xff),
         limit_high = ucast (drop_bit 16 lim AND 0xf),
         flags = ucast (flgs AND 0xf),
         base_high = ucast (drop_bit 24 base AND 0xff)\<rparr>]\<rparr>"

definition gdt_reload_segments :: "gdt_state \<Rightarrow> gdt_state" where
  "gdt_reload_segments s = s\<lparr>seg_cs := 0x8, seg_data := 0x10\<rparr>"

definition s_load_gdt :: "gdt_state \<Rightarrow> gdt_state" where
  "s_load_gdt s = gdt_reload_segments (s\<lparr>gdt_register := Some (gdtr s)\<rparr>)"

text \<open>\<open>gdt_addr\<close> is the address the linker gives the table: a parameter.\<close>

definition gdt_init :: "u64 \<Rightarrow> gdt_state \<Rightarrow> gdt_state" where
  "gdt_init gdt_addr s =
     (let s = s_add_gdt_entry 0 0 0 0 0 s;
          s = s_add_gdt_entry 1 0 0xfffff
                (GDT_ACCESS_PRESENT OR GDT_ACCESS_DPL_RING0 OR GDT_ACCESS_CODE_SEGMENT OR
                 GDT_ACCESS_READABLE OR GDT_ACCESS_ACCESSED)
                (GDT_FLAGS_PAGE_GRANULARITY OR GDT_FLAGS_LONG_MODE_CODE) s;
          s = s_add_gdt_entry 2 0 0xfffff
                (GDT_ACCESS_PRESENT OR GDT_ACCESS_DPL_RING0 OR GDT_ACCESS_DATA_SEGMENT OR
                 GDT_ACCESS_WRITABLE OR GDT_ACCESS_ACCESSED)
                (GDT_FLAGS_PAGE_GRANULARITY OR GDT_FLAGS_PROTECTED_MODE) s;
          s = s_add_gdt_entry 3 0 0xfffff
                (GDT_ACCESS_PRESENT OR GDT_ACCESS_DPL_RING3 OR GDT_ACCESS_CODE_SEGMENT OR
                 GDT_ACCESS_READABLE OR GDT_ACCESS_ACCESSED)
                (GDT_FLAGS_PAGE_GRANULARITY OR GDT_FLAGS_LONG_MODE_CODE) s;
          s = s_add_gdt_entry 4 0 0xfffff
                (GDT_ACCESS_PRESENT OR GDT_ACCESS_DPL_RING3 OR GDT_ACCESS_DATA_SEGMENT OR
                 GDT_ACCESS_WRITABLE OR GDT_ACCESS_ACCESSED)
                (GDT_FLAGS_PAGE_GRANULARITY OR GDT_FLAGS_PROTECTED_MODE) s;
          s = s\<lparr>gdtr := \<lparr>gdtr_size = 8 * of_nat GDT_ENTRIES - 1, gdtr_offset = gdt_addr\<rparr>\<rparr>
      in s_load_gdt s)"

section \<open>Properties\<close>

text \<open>The bit fields of a descriptor tile its eight bytes: encoding and decoding are inverse to
  each other, so no field is lost and no two fields overlap.\<close>

theorem gdt_encode_roundtrip:
  "gdt_decode (gdt_encode e) = e \<and> gdt_encode (gdt_decode w) = w"
proof
  show "gdt_decode (gdt_encode e) = e"
  proof (rule gdt_entry_t.equality)
    show "limit_low (gdt_decode (gdt_encode e)) = limit_low e" "base_low (gdt_decode (gdt_encode e)) = base_low e"
      "access (gdt_decode (gdt_encode e)) = access e" "limit_high (gdt_decode (gdt_encode e)) = limit_high e"
      "flags (gdt_decode (gdt_encode e)) = flags e" "base_high (gdt_decode (gdt_encode e)) = base_high e"
      by (rule bit_word_eqI; auto simp: gdt_decode_def gdt_encode_def bit_simps dest: bit_imp_le_length)+
  qed simp
  show "gdt_encode (gdt_decode w) = w"
  proof (rule bit_word_eqI)
    fix n assume "n < LENGTH(64)"
    then consider "n < 16" | "16 \<le> n" "n < 40" | "40 \<le> n" "n < 48" | "48 \<le> n" "n < 52"
      | "52 \<le> n" "n < 56" | "56 \<le> n" "n < 64" by fastforce
    then show "bit (gdt_encode (gdt_decode w)) n = bit w n"
      by cases (simp_all add: gdt_decode_def gdt_encode_def bit_simps less_diff_conv2)
  qed
qed

lemma gdt_mask:
  "(0xffff :: u64) = mask 16" "(0xffffff :: u64) = mask 24" "(0xff :: u64) = mask 8" "(0xf :: u64) = mask 4"
  by (simp_all add: mask_eq_exp_minus_1)

text \<open>\<open>s_add_gdt_entry\<close> writes the one entry, and the processor reads back from it the base
  (32 bits) and the limit (20 bits) that were passed, and access byte and flags cut to their widths;
  the other entries stay.\<close>

lemma s_add_gdt_entry_reads_back:
  assumes "index < length (gdt s)"
  shows "let s' = s_add_gdt_entry index base lim acc flgs s; e = gdt s' ! index in
           gdt_base e = take_bit 32 (ucast base) \<and> gdt_limit e = take_bit 20 (ucast lim) \<and>
           access e = ucast acc \<and> flags e = ucast flgs \<and>
           (\<forall>i. i \<noteq> index \<longrightarrow> gdt s' ! i = gdt s ! i) \<and> length (gdt s') = length (gdt s)"
proof -
  let ?e = "gdt (s_add_gdt_entry index base lim acc flgs s) ! index"
  have "gdt_base ?e = take_bit 32 (ucast base)" "gdt_limit ?e = take_bit 20 (ucast lim)"
    "access ?e = ucast acc" "flags ?e = ucast flgs"
    using assms unfolding s_add_gdt_entry_def gdt_mask
    by (rule_tac [!] bit_word_eqI) (auto simp: gdt_base_def gdt_limit_def bit_simps)
  then show ?thesis using assms by (simp add: s_add_gdt_entry_def Let_def)
qed

lemma gdt_init_state:
  assumes "length (gdt s) = GDT_ENTRIES"
  shows "let s' = gdt_init gdt_addr s in
           map gdt_encode (gdt s') =
             [0, 0x00af9b000000ffff, 0x00cf93000000ffff, 0x00affb000000ffff, 0x00cff3000000ffff] \<and>
           gdt_register s' = Some \<lparr>gdtr_size = 39, gdtr_offset = gdt_addr\<rparr> \<and>
           unat (gdtr_size (the (gdt_register s'))) + 1 = 8 * length (gdt s') \<and>
           seg_cs s' = 8 * 1 \<and> access (gdt s' ! 1) = 0x9b \<and>
           seg_data s' = 8 * 2 \<and> access (gdt s' ! 2) = 0x93"
proof -
  obtain a b c d e where g: "gdt s = [a, b, c, d, e]"
    using assms by (auto simp: kernel_defs numeral_eq_Suc length_Suc_conv)
  show ?thesis
    unfolding Let_def gdt_init_def s_load_gdt_def gdt_reload_segments_def s_add_gdt_entry_def
    by (simp add: g kernel_defs gdt_encode_def)
qed

text \<open>C32: After \<open>gdt_init\<close> the five descriptors are the null descriptor and flat 4 GiB code and data
  segments for rings 0 and 3 (the code segments in long mode); the loaded \<open>gdtr\<close> covers exactly these
  40 bytes; and the selectors loaded into the segment registers name the present ring-0 code and the
  present ring-0 writable data descriptor.\<close>

theorem gdt_init_correct:
  assumes "length (gdt s) = GDT_ENTRIES"
  shows "let s' = gdt_init gdt_addr s in
           map gdt_encode (gdt s') =
             [0, 0x00af9b000000ffff, 0x00cf93000000ffff, 0x00affb000000ffff, 0x00cff3000000ffff] \<and>
           gdt_register s' = Some \<lparr>gdtr_size = 39, gdtr_offset = gdt_addr\<rparr> \<and>
           unat (gdtr_size (the (gdt_register s'))) + 1 = 8 * length (gdt s') \<and>
           seg_cs s' = 8 * 1 \<and> access (gdt s' ! 1) = 0x9b \<and>
           seg_data s' = 8 * 2 \<and> access (gdt s' ! 2) = 0x93"
  by (rule gdt_init_state [OF assms])

theorem gdt_init_correct_witness:
  "let s' = gdt_init 0xffffffff80010000
              \<lparr>gdt = replicate 5 (gdt_decode 0), gdtr = \<lparr>gdtr_size = 0, gdtr_offset = 0\<rparr>,
               gdt_register = None, seg_cs = 0, seg_data = 0\<rparr> in
     map gdt_encode (gdt s') = [0, 0x00af9b000000ffff, 0x00cf93000000ffff, 0x00affb000000ffff, 0x00cff3000000ffff] \<and>
     seg_cs s' = 8"
  using gdt_init_correct [of "\<lparr>gdt = replicate 5 (gdt_decode 0), gdtr = \<lparr>gdtr_size = 0, gdtr_offset = 0\<rparr>,
               gdt_register = None, seg_cs = 0, seg_data = 0\<rparr>" "0xffffffff80010000"]
  by (simp add: Let_def kernel_defs)

end
