(* ===== verification/Stacktrace.thy ===== *)
theory Stacktrace
  imports Limine CString
begin

text \<open>
  \<open>src/debug/stacktrace.c\<close>: the walk over the stack frames and the look-up of a return address in the
  symbol map, a text file that the boot loader has loaded. The map is a sequence of lines: sixteen
  hexadecimal digits, a separator, a name. The static buffer \<open>function_name\<close> and the two string
  literals the code compares with lie in memory, at addresses the linker chooses.
\<close>

section \<open>State\<close>

record trace = machine +
  s_was_common_handler :: bool

record symbols =
  function_name :: u64
  lit_debug_symbol_map :: u64
  lit_idt_common_handler :: u64

definition STACKTRACE_MAX_RECURSION :: nat where
  "STACKTRACE_MAX_RECURSION = 64"

definition INDENT :: string where
  "INDENT = ''        ''"

section \<open>Parsing an address\<close>

text \<open>The range tests on \<open>char\<close> are the same for signed and unsigned bytes: all bounds are below 128.\<close>

definition add_digit :: "u8 \<Rightarrow> u64 \<Rightarrow> u64" where
  "add_digit c n =
     (if 0x30 \<le> c \<and> c \<le> 0x39 then n + ucast (c - 0x30)
      else if 0x61 \<le> c \<and> c \<le> 0x66 then n + (ucast (c - 0x61) + 0xa)
      else if 0x41 \<le> c \<and> c \<le> 0x46 then n + (ucast (c - 0x41) + 0xa)
      else n)"

definition s_pointer_to_number :: "mem \<Rightarrow> u64 \<Rightarrow> u64" where
  "s_pointer_to_number m str =
     fold (\<lambda>i n. add_digit (m (str + of_nat i)) (push_bit 4 n)) [0..<16] 0"

section \<open>Looking up a function\<close>

text \<open>The first module with the right string; \<open>None\<close> when a comparison never ends.\<close>

fun find_symbol_map :: "mem \<Rightarrow> u64 \<Rightarrow> limine_file list \<Rightarrow> limine_file option option" where
  "find_symbol_map m lit [] = Some None"
| "find_symbol_map m lit (f # fs) =
     (case strcmp m (lf_string f) lit of
        None \<Rightarrow> None
      | Some d \<Rightarrow> if d = 0 then Some (Some f) else find_symbol_map m lit fs)"

text \<open>
  The loop over the lines: \<open>None\<close> when it never ends, \<open>Some None\<close> when it writes through the \<open>NULL\<close>
  that \<open>strchr\<close> gives for a line without an end. Differences of pointers are signed.
\<close>

partial_function (option) symbol_loop ::
    "u64 \<Rightarrow> u64 \<Rightarrow> u64 \<Rightarrow> u64 \<Rightarrow> u64 \<Rightarrow> mem \<Rightarrow> mem option option" where
  "symbol_loop fn return_address data sz curr_data m =
     (if curr_data = 0 then Some (Some m)
      else case strchr m curr_data 10 of None \<Rightarrow> None | Some e \<Rightarrow>
        if 10 <s e - data \<and> curr_data - data <s sz
        then (let addr = s_pointer_to_number m curr_data
              in if return_address < addr then Some (Some m)
                 else case strchr m curr_data 10 of None \<Rightarrow> None | Some end_of_line \<Rightarrow>
                   if end_of_line = 0 then Some None
                   else
                     (let m = m(end_of_line := 0);
                          m = strncpy fn (curr_data + 17) 63 m;
                          m = m(end_of_line := 10)
                      in symbol_loop fn return_address data sz (end_of_line + 1) m))
        else Some (Some m))"

text \<open>The text in the buffer of 64 bytes, as \<open>%s\<close> prints it.\<close>

definition name_text :: "mem \<Rightarrow> u64 \<Rightarrow> string" where
  "name_text m fn = map (\<lambda>b. char_of (unat b)) (takeWhile (\<lambda>b. b \<noteq> 0) (map (\<lambda>k. m (fn + of_nat k)) [0..<64]))"

definition s_print_function_name ::
    "symbols \<Rightarrow> boot_info \<Rightarrow> u64 \<Rightarrow> bool \<Rightarrow> 'z trace_scheme \<Rightarrow> (unit, 'z trace_scheme) res" where
  "s_print_function_name sy b return_address skip_printing s =
     (case limine_data_get_module_response b of None \<Rightarrow> Inl Fault | Some modules \<Rightarrow>
      case find_symbol_map (mem s) (lit_debug_symbol_map sy) modules of None \<Rightarrow> Inl Spin | Some symbol_map_file \<Rightarrow>
      case symbol_map_file of
        None \<Rightarrow> hcf (kerror ''failed to find the symbol map file?'' [] s)
      | Some f \<Rightarrow>
          (case symbol_loop (function_name sy) return_address (lf_address f) (lf_size f) (lf_address f) (mem s) of
             None \<Rightarrow> Inl Spin
           | Some None \<Rightarrow> Inl Fault
           | Some (Some m) \<Rightarrow>
               (let s = s\<lparr>mem := m\<rparr>
                in case strncmp m (lit_idt_common_handler sy) (function_name sy) 63 of None \<Rightarrow> Inl Spin | Some d \<Rightarrow>
                   let s = s\<lparr>s_was_common_handler := (d = 0)\<rparr>
                   in Inr ((), if \<not> skip_printing
                               then klog_event (Kprintf ''%s'' [KStr (name_text m (function_name sy))]) s else s))))"

section \<open>Walking the stack\<close>

fun trace_frames ::
    "symbols \<Rightarrow> boot_info \<Rightarrow> nat \<Rightarrow> nat \<Rightarrow> u64 \<Rightarrow> 'z trace_scheme \<Rightarrow> (unit, 'z trace_scheme) res" where
  "trace_frames sy b 0 skips current_base_pointer s = Inr ((), s)"
| "trace_frames sy b (Suc left) skips current_base_pointer s =
     (if current_base_pointer = 0 then Inr ((), s)
      else
        (let rip = rd64 s (current_base_pointer + 8 * 1)
         in if rip = 0 then Inr ((), klog_event (Kprintf (INDENT @ ''at _start'' @ [CHR 10]) []) s)
            else
              (let s = (if skips = 0 then klog_event (Kprintf (INDENT @ ''at %0p '') [KInt rip]) s else s)
               in bindk (s_print_function_name sy b rip (skips \<noteq> 0) s) (\<lambda>_ s.
                  bindk
                    (if s_was_common_handler s
                     then
                       (let s = (if skips = 0 then klog_event (Kprintf [CHR 10] []) s else s);
                            rip = rd64 s (current_base_pointer + 8 * 19);
                            s = klog_event (Kprintf ''%sat %0p '' [KStr INDENT, KInt rip]) s
                        in bindk (s_print_function_name sy b (rd64 s (current_base_pointer + 8 * 19)) False s) (\<lambda>_ s.
                           let s = (if skips \<noteq> 0 then klog_event (Kprintf [CHR 10] []) s else s)
                           in Inr ((), s\<lparr>s_was_common_handler := True\<rparr>)))
                     else Inr ((), s)) (\<lambda>_ s.
                  let s = (if skips = 0 then klog_event (Kprintf [CHR 10] []) s else s)
                  in trace_frames sy b left (skips - 1)
                       (if s_was_common_handler s
                        then rd64 s (current_base_pointer + 8 * 8)
                        else rd64 s current_base_pointer) s)))))"

text \<open>The base pointer the processor has on entry is the argument.\<close>

definition print_stacktrace :: "symbols \<Rightarrow> boot_info \<Rightarrow> u64 \<Rightarrow> 'z trace_scheme \<Rightarrow> (unit, 'z trace_scheme) res" where
  "print_stacktrace sy b rbp s = trace_frames sy b STACKTRACE_MAX_RECURSION 3 rbp s"

end
