(* ===== verification/IdtGates.thy ===== *)
theory IdtGates
  imports Prelude
begin

text \<open>
  The interrupt descriptor table of \<open>src/int/idt.asm\<close>: the gates that its macros lay out, and \<open>idt_load\<close>.
\<close>

section \<open>Gates\<close>

record gate =
  g_offset_low :: u16
  g_selector :: u16
  g_ist :: u8
  g_flags :: u8
  g_offset_mid :: u16
  g_offset_high :: u32

definition FLG_PRESENT :: u8 where "FLG_PRESENT = 0x80"
definition FLG_RING0 :: u8 where "FLG_RING0 = 0x00"
definition FLG_TYPE_INT :: u8 where "FLG_TYPE_INT = 0x0e"
definition FLG_TYPE_TRAP :: u8 where "FLG_TYPE_TRAP = 0x0f"

text \<open>
  The macro argument is substituted as text, and \<open>&\<close> binds tighter than \<open>|\<close>: the mask in
  \<open>db (%3 & 0xf)\<close> applies to the type alone.
\<close>

definition idt_entry :: "u16 \<Rightarrow> u8 \<Rightarrow> gate" where
  "idt_entry selector typ =
     \<lparr>g_offset_low = 0, g_selector = selector AND 0xffff, g_ist = 0,
      g_flags = FLG_PRESENT OR FLG_RING0 OR (typ AND 0xf), g_offset_mid = 0, g_offset_high = 0\<rparr>"

definition idt_int :: gate where "idt_int = idt_entry 8 FLG_TYPE_INT"
definition idt_trap :: gate where "idt_trap = idt_entry 8 FLG_TYPE_TRAP"

definition idt_table :: "gate list" where
  "idt_table = [idt_trap, idt_trap, idt_int] @ replicate (32 - 3) idt_trap @ replicate (256 - 32) idt_int"

definition write_idt_addr :: "u64 \<Rightarrow> gate \<Rightarrow> gate" where
  "write_idt_addr handler g =
     g\<lparr>g_offset_low := ucast handler, g_offset_mid := ucast (drop_bit 16 handler),
       g_offset_high := ucast (drop_bit 32 handler)\<rparr>"

text \<open>\<open>idt_load\<close> fills in the addresses of the stubs, which the assembler chooses, and executes \<open>lidt\<close>.\<close>

definition idt_load :: "(nat \<Rightarrow> u64) \<Rightarrow> gate list \<Rightarrow> gate list" where
  "idt_load handler_addr idt = map (\<lambda>i. write_idt_addr (handler_addr i) (idt ! i)) [0..<256]"

definition gate_target :: "gate \<Rightarrow> u64" where
  "gate_target g = ucast (g_offset_low g) OR push_bit 16 (ucast (g_offset_mid g)) OR push_bit 32 (ucast (g_offset_high g))"

text \<open>
  Each gate leads to the stub of its vector, through the kernel code segment, present and for ring 0:
  a trap gate for the exceptions but the non-maskable interrupt, an interrupt gate for all others.
\<close>

lemma idt_load_gates:
  assumes "n < 256"
  shows "let g = idt_load handler_addr idt_table ! n in
           gate_target g = handler_addr n \<and> g_selector g = 8 \<and> bit (g_flags g) 7 \<and>
           g_flags g = (if n < 32 \<and> n \<noteq> 2 then 0x8f else 0x8e)"
proof -
  have target: "gate_target (write_idt_addr h g) = h" for h g
  proof (rule bit_word_eqI)
    fix n assume "n < LENGTH(64)"
    then consider "n < 16" | "16 \<le> n" "n < 32" | "32 \<le> n" "n < 64" by fastforce
    then show "bit (gate_target (write_idt_addr h g)) n = bit h n"
      by cases (simp_all add: gate_target_def write_idt_addr_def bit_simps less_diff_conv2)
  qed
  have "idt_table ! n = (if n < 32 \<and> n \<noteq> 2 then idt_trap else idt_int)"
  proof -
    consider "n = 0" | "n = 1" | "n = 2" | "3 \<le> n" "n < 32" | "32 \<le> n" "n < 256" using assms by fastforce
    then show ?thesis by cases (simp_all add: idt_table_def nth_append)
  qed
  then show ?thesis
    using assms target by (auto simp: Let_def idt_load_def write_idt_addr_def idt_trap_def idt_int_def idt_entry_def
        FLG_PRESENT_def FLG_RING0_def FLG_TYPE_INT_def FLG_TYPE_TRAP_def)
qed

end
