(* ===== verification/Idt.thy ===== *)
theory Idt
  imports Stacktrace IdtGates
begin

text \<open>
  \<open>src/int/idt.c\<close>: the two interrupt controllers and the interrupt handler. The saved processor state
  (\<open>state_t\<close> of \<open>idt.h\<close>) lies in memory where the entry stub of \<open>idt.asm\<close> pushed it; the handler gets
  and returns its address.
\<close>

section \<open>Constants\<close>

definition PIC1_CMD :: u16 where [kernel_defs]: "PIC1_CMD = 0x20"
definition PIC1_DATA :: u16 where [kernel_defs]: "PIC1_DATA = PIC1_CMD + 1"
definition PIC2_CMD :: u16 where [kernel_defs]: "PIC2_CMD = 0xa0"
definition PIC2_DATA :: u16 where [kernel_defs]: "PIC2_DATA = PIC2_CMD + 1"

definition PIC_EOI :: u8 where [kernel_defs]: "PIC_EOI = 0x20"
definition PIC_ICW1_ICW4 :: u8 where [kernel_defs]: "PIC_ICW1_ICW4 = 0x01"
definition PIC_ICW1_INIT :: u8 where [kernel_defs]: "PIC_ICW1_INIT = 0x10"
definition PIC_ICW4_8086 :: u8 where [kernel_defs]: "PIC_ICW4_8086 = 0x01"
definition PIC_CASCADE_ID :: nat where [kernel_defs]: "PIC_CASCADE_ID = 2"
definition PIC_READ_IRR :: u8 where [kernel_defs]: "PIC_READ_IRR = 0x0a"
definition PIC_READ_ISR :: u8 where [kernel_defs]: "PIC_READ_ISR = 0x0b"

definition PIC_IRQ_MASK :: "nat \<Rightarrow> u32" where
  "PIC_IRQ_MASK n = push_bit n 1"

definition IRQ_FIRST :: u64 where [kernel_defs]: "IRQ_FIRST = 0x20"
definition PIC1_IRQ_START :: u8 where [kernel_defs]: "PIC1_IRQ_START = 0x20"
definition PIC2_IRQ_START :: u64 where [kernel_defs]: "PIC2_IRQ_START = 0x28"
definition IRQ_LAST :: u64 where [kernel_defs]: "IRQ_LAST = 0x2f"

section \<open>The saved state\<close>

record state_t =
  st_rax :: u64
  st_rbx :: u64
  st_rcx :: u64
  st_rdx :: u64
  st_rsi :: u64
  st_rdi :: u64
  st_rbp :: u64
  st_r8 :: u64
  st_r9 :: u64
  st_r10 :: u64
  st_r11 :: u64
  st_r12 :: u64
  st_r13 :: u64
  st_r14 :: u64
  st_r15 :: u64
  st_int_no :: u64
  st_err_no :: u64
  st_rip :: u64
  st_cs :: u64
  st_rflags :: u64
  st_rsp :: u64
  st_ss :: u64

definition load_state :: "mem \<Rightarrow> u64 \<Rightarrow> state_t" where
  "load_state m p =
     \<lparr>st_rax = load64 m p, st_rbx = load64 m (p + 8), st_rcx = load64 m (p + 16), st_rdx = load64 m (p + 24),
      st_rsi = load64 m (p + 32), st_rdi = load64 m (p + 40), st_rbp = load64 m (p + 48),
      st_r8 = load64 m (p + 56), st_r9 = load64 m (p + 64), st_r10 = load64 m (p + 72),
      st_r11 = load64 m (p + 80), st_r12 = load64 m (p + 88), st_r13 = load64 m (p + 96),
      st_r14 = load64 m (p + 104), st_r15 = load64 m (p + 112),
      st_int_no = load64 m (p + 120), st_err_no = load64 m (p + 128),
      st_rip = load64 m (p + 136), st_cs = load64 m (p + 144), st_rflags = load64 m (p + 152),
      st_rsp = load64 m (p + 160), st_ss = load64 m (p + 168)\<rparr>"

section \<open>The interrupt controllers\<close>

definition s_pic_init :: "ports \<Rightarrow> ports" where
  "s_pic_init h =
     (let h = outb PIC1_CMD (PIC_ICW1_INIT OR PIC_ICW1_ICW4) h;
          h = outb PIC1_DATA PIC1_IRQ_START h;
          h = outb PIC1_DATA (ucast (PIC_IRQ_MASK PIC_CASCADE_ID)) h;
          h = outb PIC1_DATA PIC_ICW4_8086 h;
          h = outb PIC2_CMD (PIC_ICW1_INIT OR PIC_ICW1_ICW4) h;
          h = outb PIC2_DATA PIC1_IRQ_START h;
          h = outb PIC2_DATA (of_nat PIC_CASCADE_ID) h;
          h = outb PIC2_DATA PIC_ICW4_8086 h;
          h = outb PIC1_DATA 0xff h
      in outb PIC2_DATA 0xff h)"

text \<open>C leaves the order of the two reads open; the compiler reads the operands from left to right.\<close>

definition s_pic_read_regs :: "device \<Rightarrow> u8 \<Rightarrow> ports \<Rightarrow> u16 \<times> ports" where
  "s_pic_read_regs d reg h =
     (let h = outb PIC2_CMD reg (outb PIC1_CMD reg h)
      in case inb d PIC2_CMD h of (hi, h) \<Rightarrow>
         case inb d PIC1_CMD h of (lo, h) \<Rightarrow> (push_bit 8 (ucast hi) OR ucast lo, h))"

definition s_pic_read_irr :: "device \<Rightarrow> ports \<Rightarrow> u16 \<times> ports" where
  "s_pic_read_irr d h = s_pic_read_regs d PIC_READ_IRR h"

definition s_pic_read_isr :: "device \<Rightarrow> ports \<Rightarrow> u16 \<times> ports" where
  "s_pic_read_isr d h = s_pic_read_regs d PIC_READ_ISR h"

section \<open>The handlers\<close>

definition s_handle_spurious_interrupt :: "u64 \<Rightarrow> 'z machine_scheme \<Rightarrow> u64 \<times> 'z machine_scheme" where
  "s_handle_spurious_interrupt state s =
     (let int_no = st_int_no (load_state (mem s) state);
          s = (if PIC2_IRQ_START \<le> int_no then s\<lparr>io := outb PIC1_CMD PIC_EOI (io s)\<rparr> else s)
      in (state, kwarn ''Spurious interrupt on IRQ %d!'' [KInt (int_no - IRQ_FIRST)] s))"

definition s_handle_irq :: "device \<Rightarrow> u64 \<Rightarrow> 'z machine_scheme \<Rightarrow> u64 \<times> 'z machine_scheme" where
  "s_handle_irq d state s =
     (let int_no = st_int_no (load_state (mem s) state);
          irq_no = (ucast (int_no - IRQ_FIRST) :: u32)
      in case s_pic_read_isr d (io s) of (isr, h) \<Rightarrow>
         let s = s\<lparr>io := h\<rparr>
         in if ucast isr AND PIC_IRQ_MASK (unat irq_no) = 0 then s_handle_spurious_interrupt state s
            else
              (let s = kdebug ''irq %d'' [KInt int_no] s;
                   s = (if PIC2_IRQ_START \<le> int_no then s\<lparr>io := outb PIC2_CMD PIC_EOI (io s)\<rparr> else s)
               in (state, s\<lparr>io := outb PIC1_CMD PIC_EOI (io s)\<rparr>)))"

text \<open>\<open>rbp\<close> is the base pointer of \<open>print_stacktrace\<close>, which the compiled code decides.\<close>

definition s_print_regs ::
    "symbols \<Rightarrow> boot_info \<Rightarrow> u64 \<Rightarrow> u64 \<Rightarrow> 'z trace_scheme \<Rightarrow> (unit, 'z trace_scheme) res" where
  "s_print_regs sy b rbp state s =
     (let r = load_state (mem s) state;
          s = kerror ''int/exception 0x%02llx, error code %#0p'' [KInt (st_int_no r), KInt (st_err_no r)] s;
          s = (if st_int_no r = 0x0e then kerror ''cr2: %0p'' [KInt (cr2 s)] s else s);
          s = kerror ''rax: %0p, rbx: %0p, rcx: %0p, rdx: %0p,''
                [KInt (st_rax r), KInt (st_rbx r), KInt (st_rcx r), KInt (st_rdx r)] s;
          s = kerror ''rdi: %0p, rsi: %0p, rsp: %0p, rbp: %0p,''
                [KInt (st_rdi r), KInt (st_rsi r), KInt (st_rsp r), KInt (st_rbp r)] s;
          s = kerror ''rip: %0p,    cs: 0x%02x, ss: 0x%02x,''
                [KInt (st_rip r), KInt (st_cs r), KInt (st_ss r)] s;
          s = kerror ''rflags: %0p'' [KInt (st_rflags r)] s;
          s = kerror ''cr0: %0p'' [KInt (cr0 s)] s
      in print_stacktrace sy b rbp s)"

definition idt_int_handler ::
    "symbols \<Rightarrow> boot_info \<Rightarrow> u64 \<Rightarrow> device \<Rightarrow> u64 \<Rightarrow> 'z trace_scheme \<Rightarrow> (u64, 'z trace_scheme) res" where
  "idt_int_handler sy b rbp d state s =
     (let int_no = st_int_no (load_state (mem s) state)
      in if IRQ_FIRST \<le> int_no \<and> int_no \<le> IRQ_LAST then Inr (s_handle_irq d state s)
         else bindk (s_print_regs sy b rbp state s) (\<lambda>_ s. hcf s))"

text \<open>The addresses of the stubs are a parameter; the table lies in the data section.\<close>

definition idt_init :: "(nat \<Rightarrow> u64) \<Rightarrow> gate list \<times> ports \<Rightarrow> gate list \<times> ports" where
  "idt_init handler_addr st = (case st of (idt, h) \<Rightarrow> (idt_load handler_addr idt, s_pic_init h))"

section \<open>The controllers as state machines\<close>

text \<open>
  What an 8259A makes of the writes it gets (its data sheet): a command with bit 4 starts the
  initialisation, after which the next three data bytes are the vector base, the cascade
  configuration and the mode; later data bytes set the interrupt mask.
\<close>

datatype pic_phase = Await2 | Await3 | Await4 | Ready

record pic =
  phase :: pic_phase
  vector_base :: u8
  cascade :: u8
  mode :: u8
  irq_mask :: u8

definition pic_command :: "u8 \<Rightarrow> pic \<Rightarrow> pic" where
  "pic_command v p = (if bit v 4 then p\<lparr>phase := Await2, irq_mask := 0\<rparr> else p)"

fun pic_data :: "pic_phase \<Rightarrow> u8 \<Rightarrow> pic \<Rightarrow> pic" where
  "pic_data Await2 v p = p\<lparr>phase := Await3, vector_base := v\<rparr>"
| "pic_data Await3 v p = p\<lparr>phase := Await4, cascade := v\<rparr>"
| "pic_data Await4 v p = p\<lparr>phase := Ready, mode := v\<rparr>"
| "pic_data Ready v p = p\<lparr>irq_mask := v\<rparr>"

fun pic_run :: "u16 \<Rightarrow> u16 \<Rightarrow> pic \<Rightarrow> ports \<Rightarrow> pic" where
  "pic_run cmd dat p [] = p"
| "pic_run cmd dat p (Outb q v # h) =
     pic_run cmd dat (if q = cmd then pic_command v p else if q = dat then pic_data (phase p) v p else p) h"
| "pic_run cmd dat p (e # h) = pic_run cmd dat p h"

lemma pic_run_append: "pic_run cmd dat p (h @ h') = pic_run cmd dat (pic_run cmd dat p h) h'"
  by (induction cmd dat p h rule: pic_run.induct) simp_all

lemma s_pic_init_eq:
  "s_pic_init h = h @ [Outb 0x20 0x11, Outb 0x21 0x20, Outb 0x21 4, Outb 0x21 1,
     Outb 0xa0 0x11, Outb 0xa1 0x20, Outb 0xa1 2, Outb 0xa1 1, Outb 0x21 0xff, Outb 0xa1 0xff]"
  by (simp add: s_pic_init_def outb_def kernel_defs PIC_IRQ_MASK_def)

lemma s_pic_read_isr_eq:
  "s_pic_read_isr d h =
     (let h2 = h @ [Outb PIC1_CMD PIC_READ_ISR, Outb PIC2_CMD PIC_READ_ISR];
          hi = answer8 d h2 PIC2_CMD; lo = answer8 d (h2 @ [Inb PIC2_CMD hi]) PIC1_CMD
      in (push_bit 8 (ucast hi) OR ucast lo, h2 @ [Inb PIC2_CMD hi, Inb PIC1_CMD lo]))"
  by (simp add: s_pic_read_isr_def s_pic_read_regs_def inb_def outb_def Let_def)

section \<open>Properties\<close>

lemma idt_init_state:
  assumes "n < 256"
  shows "let (idt, h') = idt_init handler_addr (idt_table, h); g = idt ! n;
             p = pic_run PIC1_CMD PIC1_DATA p1 h'; q = pic_run PIC2_CMD PIC2_DATA p2 h' in
           gate_target g = handler_addr n \<and> g_selector g = 8 \<and> bit (g_flags g) 7 \<and>
           g_flags g = (if n < 32 \<and> n \<noteq> 2 then 0x8f else 0x8e) \<and>
           phase p = Ready \<and> vector_base p = 0x20 \<and> cascade p = 4 \<and> mode p = 1 \<and> irq_mask p = 0xff \<and>
           phase q = Ready \<and> vector_base q = 0x20 \<and> cascade q = 2 \<and> mode q = 1 \<and> irq_mask q = 0xff"
proof -
  have "bit (0x11 :: u8) 4" by simp
  then show ?thesis
    using idt_load_gates [OF assms, of handler_addr]
    by (simp add: idt_init_def Let_def s_pic_init_eq pic_run_append kernel_defs pic_command_def)
qed

text \<open>C26: After \<open>idt_init\<close> each of the 256 gates leads to the stub of its vector, through the kernel code
  segment, present and for ring 0: a trap gate for the exceptions but the non-maskable interrupt, an
  interrupt gate for all others. Whatever state the controllers were in, both are initialised, in 8086
  mode, cascaded over line 2, with all lines masked and with vector base \<open>0x20\<close>: the second controller
  gets the same base as the first, not \<open>0x28\<close>.\<close>

theorem idt_init_correct:
  assumes "n < 256"
  shows "let (idt, h') = idt_init handler_addr (idt_table, h); g = idt ! n;
             p = pic_run PIC1_CMD PIC1_DATA p1 h'; q = pic_run PIC2_CMD PIC2_DATA p2 h' in
           gate_target g = handler_addr n \<and> g_selector g = 8 \<and> bit (g_flags g) 7 \<and>
           g_flags g = (if n < 32 \<and> n \<noteq> 2 then 0x8f else 0x8e) \<and>
           phase p = Ready \<and> vector_base p = 0x20 \<and> cascade p = 4 \<and> mode p = 1 \<and> irq_mask p = 0xff \<and>
           phase q = Ready \<and> vector_base q = 0x20 \<and> cascade q = 2 \<and> mode q = 1 \<and> irq_mask q = 0xff"
  by (rule idt_init_state [OF assms])

theorem idt_init_correct_witness:
  "gate_target (fst (idt_init (\<lambda>i. 0xffffffff80002000 + of_nat i * 16) (idt_table, [])) ! 14) = 0xffffffff800020e0"
  using idt_init_correct [of 14 "\<lambda>i. 0xffffffff80002000 + of_nat i * 16" "[]"] by (simp add: Let_def idt_init_def)

text \<open>C24: For a vector from \<open>0x20\<close> to \<open>0x2f\<close> the handler returns the saved state it was given, changes
  no memory, asks both controllers which interrupts are in service and acknowledges: an interrupt in
  service at the second controller too when the vector is from \<open>0x28\<close> on, a spurious one only at the
  first and only then. Each outcome is logged.\<close>

theorem idt_int_handler_irq:
  assumes "IRQ_FIRST \<le> st_int_no (load_state (mem s) state)" and "st_int_no (load_state (mem s) state) \<le> IRQ_LAST"
  shows "let n = st_int_no (load_state (mem s) state); (isr, h) = s_pic_read_isr d (io s);
             eoi2 = (if PIC2_IRQ_START \<le> n then [Outb PIC2_CMD PIC_EOI] else []) in
         \<exists>s'. idt_int_handler sy b rbp d state s = Inr (state, s') \<and> mem s' = mem s \<and> cr3 s' = cr3 s \<and>
           (if bit isr (unat (n - IRQ_FIRST))
            then io s' = h @ eoi2 @ [Outb PIC1_CMD PIC_EOI] \<and>
                 klogs s' = klogs s @ [Klog LL_DEBUG ''irq %d'' [KInt n]]
            else io s' = h @ (if PIC2_IRQ_START \<le> n then [Outb PIC1_CMD PIC_EOI] else []) \<and>
                 klogs s' = klogs s @ [Klog LL_WARN ''Spurious interrupt on IRQ %d!'' [KInt (n - IRQ_FIRST)]])"
proof -
  let ?n = "st_int_no (load_state (mem s) state)"
  obtain isr h where r: "s_pic_read_isr d (io s) = (isr, h)" by fastforce
  have "unat (?n - IRQ_FIRST) < 16"
    using assms by (simp add: kernel_defs unat_sub word_le_nat_alt)
  then have u: "unat (ucast (?n - IRQ_FIRST) :: u32) = unat (?n - IRQ_FIRST)" "unat (?n - IRQ_FIRST) < 16"
    by (simp_all add: unsigned_ucast_eq take_bit_nat_eq_self)
  have b: "ucast isr AND PIC_IRQ_MASK k = 0 \<longleftrightarrow> \<not> bit isr k" if "k < 16" for k
  proof -
    have "PIC_IRQ_MASK k = push_bit k 1" by (simp add: PIC_IRQ_MASK_def)
    then show ?thesis using that by (simp add: and_exp_eq_0_iff_not_bit bit_simps)
  qed
  show ?thesis
    using assms u b [OF u(2)]
    by (simp add: idt_int_handler_def s_handle_irq_def r Let_def s_handle_spurious_interrupt_def outb_def)
qed

definition demo_interrupt :: "u64 \<Rightarrow> trace" where
  "demo_interrupt n = \<lparr>mem = store64 (\<lambda>_. 0) 0x1078 n, cr0 = 0, cr2 = 0xdead, cr3 = 0, io = [],
     invlpgs = [], klogs = [], s_was_common_handler = False\<rparr>"

definition quiet_device :: "u8 \<Rightarrow> device" where
  "quiet_device v = \<lparr>answer8 = \<lambda>_ _. v, answer16 = \<lambda>_ _. 0, answer32 = \<lambda>_ _. 0\<rparr>"

lemma demo_int_no [simp]: "st_int_no (load_state (mem (demo_interrupt n)) 0x1000) = n"
  by (simp add: load_state_def demo_interrupt_def mem64.load_store_same)

theorem idt_int_handler_irq_witness:
  "\<forall>sy b rbp. \<exists>s'. idt_int_handler sy b rbp (quiet_device 2) 0x1000 (demo_interrupt 0x29) = Inr (0x1000, s') \<and>
     drop 4 (io s') = [Outb 0xa0 0x20, Outb 0x20 0x20]"
proof (intro allI)
  fix sy b rbp
  have "bit (push_bit 8 2 OR 2 :: u16) 9" by (simp add: bit_simps)
  then show "\<exists>s'. idt_int_handler sy b rbp (quiet_device 2) 0x1000 (demo_interrupt 0x29) = Inr (0x1000, s') \<and>
     drop 4 (io s') = [Outb 0xa0 0x20, Outb 0x20 0x20]"
    using idt_int_handler_irq [where s = "demo_interrupt 0x29" and state = "0x1000" and sy = sy and b = b
        and rbp = rbp and d = "quiet_device 2"]
    by (simp add: s_pic_read_isr_eq Let_def quiet_device_def kernel_defs) (auto simp: demo_interrupt_def)
qed

end
