(* ===== verification/Boot.thy ===== *)
theory Boot
  imports Acpi Gdt Idt
begin

text \<open>
  \<open>src/main.c\<close> and \<open>src/cpuid.h\<close>: the boot sequence, which puts the components together. The state of
  the kernel is the state of the memory manager and of the ACPI code, extended by the descriptor tables,
  the calls made to the terminal library, and whether the processor takes interrupts.
\<close>

section \<open>The processor's identification\<close>

text \<open>The instruction is a parameter: the four 64-bit registers it leaves for a leaf and a subleaf.\<close>

type_synonym cpuid_instr = "u32 \<Rightarrow> u32 \<Rightarrow> u64 \<times> u64 \<times> u64 \<times> u64"

definition CPUID_MAX_LEAF_AND_VENDOR_ID :: u32 where "CPUID_MAX_LEAF_AND_VENDOR_ID = 0x00"
definition CPUID_MAX_EXTENDED_LEAF :: u32 where "CPUID_MAX_EXTENDED_LEAF = 0x80000000"

definition CPUID_ADDRESS_SPACE_INFO :: u32 where "CPUID_ADDRESS_SPACE_INFO = 0x80000008"
definition CPUID_ASI_EAX_PHYS_ADDR_SIZE_OFFSET :: nat where "CPUID_ASI_EAX_PHYS_ADDR_SIZE_OFFSET = 0"
definition CPUID_ASI_EAX_LIN_ADDR_SIZE_OFFSET :: nat where "CPUID_ASI_EAX_LIN_ADDR_SIZE_OFFSET = 8"
definition CPUID_ASI_EAX_GUEST_PHYS_ADDR_SIZE_OFFSET :: nat where "CPUID_ASI_EAX_GUEST_PHYS_ADDR_SIZE_OFFSET = 16"
definition CPUID_ASI_EAX_PHYS_ADDR_SIZE_MASK :: u32 where "CPUID_ASI_EAX_PHYS_ADDR_SIZE_MASK = 0xff"
definition CPUID_ASI_EAX_LIN_ADDR_SIZE_MASK :: u32 where "CPUID_ASI_EAX_LIN_ADDR_SIZE_MASK = 0xff"
definition CPUID_ASI_EAX_GUEST_PHYS_ADDR_SIZE_MASK :: u32 where "CPUID_ASI_EAX_GUEST_PHYS_ADDR_SIZE_MASK = 0xff"
definition CPUID_ASI_EBX_WBNOINVD_SUPPORT_OFFSET :: nat where "CPUID_ASI_EBX_WBNOINVD_SUPPORT_OFFSET = 9"
definition CPUID_ASI_EBX_WBNOINVD_SUPPORT_MASK :: u32 where "CPUID_ASI_EBX_WBNOINVD_SUPPORT_MASK = 0x01"

definition cpuid :: "cpuid_instr \<Rightarrow> u32 \<Rightarrow> u32 \<Rightarrow> u32 \<times> u32 \<times> u32 \<times> u32" where
  "cpuid instr leaf subleaf =
     (case instr leaf subleaf of (rax, rbx, rcx, rdx) \<Rightarrow> (ucast rax, ucast rbx, ucast rcx, ucast rdx))"

definition cpuid_eax :: "cpuid_instr \<Rightarrow> u32 \<Rightarrow> u32 \<Rightarrow> u32" where
  "cpuid_eax instr leaf subleaf = (case cpuid instr leaf subleaf of (eax, ebx, ecx, edx) \<Rightarrow> eax)"
definition cpuid_ebx :: "cpuid_instr \<Rightarrow> u32 \<Rightarrow> u32 \<Rightarrow> u32" where
  "cpuid_ebx instr leaf subleaf = (case cpuid instr leaf subleaf of (eax, ebx, ecx, edx) \<Rightarrow> ebx)"
definition cpuid_ecx :: "cpuid_instr \<Rightarrow> u32 \<Rightarrow> u32 \<Rightarrow> u32" where
  "cpuid_ecx instr leaf subleaf = (case cpuid instr leaf subleaf of (eax, ebx, ecx, edx) \<Rightarrow> ecx)"
definition cpuid_edx :: "cpuid_instr \<Rightarrow> u32 \<Rightarrow> u32 \<Rightarrow> u32" where
  "cpuid_edx instr leaf subleaf = (case cpuid instr leaf subleaf of (eax, ebx, ecx, edx) \<Rightarrow> edx)"

section \<open>The kernel\<close>

record kernel = acpi +
  k_gdt :: gdt_state
  k_idt :: "gate list"
  k_flanterm :: "flanterm_call list"
  interrupts_enabled :: bool

text \<open>What the kernel finds around it: the boot loader's answers, the hardware, the libraries and the
  addresses the linker has chosen.\<close>

record environment =
  e_boot :: boot_info
  e_device :: device
  e_npf :: npf
  e_uacpi :: "kernel uacpi"
  e_madt_layout :: madt_layout
  e_msrs :: "u32 \<Rightarrow> u64"
  e_cpuid :: cpuid_instr
  e_gdt_addr :: u64
  e_handler_addr :: "nat \<Rightarrow> u64"
  e_kernel_start :: u64
  e_kernel_end :: u64

text \<open>The parts of the sequence that keep their state in a record of their own.\<close>

definition with_term :: "(term_state \<Rightarrow> term_state option) \<Rightarrow> kernel \<Rightarrow> (unit, kernel) res" where
  "with_term f s =
     (case f \<lparr>flanterm = k_flanterm s, com = io s\<rparr> of
        None \<Rightarrow> Inl Fault
      | Some t \<Rightarrow> Inr ((), s\<lparr>k_flanterm := flanterm t, io := com t\<rparr>))"

definition with_gdt :: "(gdt_state \<Rightarrow> gdt_state) \<Rightarrow> kernel \<Rightarrow> kernel" where
  "with_gdt f s = s\<lparr>k_gdt := f (k_gdt s)\<rparr>"

definition with_idt :: "(gate list \<times> ports \<Rightarrow> gate list \<times> ports) \<Rightarrow> kernel \<Rightarrow> kernel" where
  "with_idt f s = (case f (k_idt s, io s) of (idt, h) \<Rightarrow> s\<lparr>k_idt := idt, io := h\<rparr>)"

text \<open>From the set-up of paging to the idle loop \<open>while (1);\<close>, which the result \<open>Inr\<close> stands for.\<close>

definition kmain_paging :: "environment \<Rightarrow> kernel \<Rightarrow> (unit, kernel) res" where
  "kmain_paging e s =
     bindk (virt_init (e_kernel_start e) (e_kernel_end e) (e_boot e) s) (\<lambda>_ s.
     let s = kinfo ''virt inited'' [] s
     in bindk (acpi_init (e_uacpi e) (e_madt_layout e) s) (\<lambda>_ s.
     let s = kinfo ''acpi inited'' [] s
     in bindk (lapic_init (e_msrs e) s) (\<lambda>_ s.
     Inr ((), kinfo ''lapic inited'' [] s))))"

definition kmain :: "environment \<Rightarrow> kernel \<Rightarrow> (unit, kernel) res" where
  "kmain e s =
     (let b = e_boot e;
          s = s\<lparr>interrupts_enabled := False\<rparr>
      in if \<not> limine_data_bare_minimum_present b then hcf s else
         bindk (with_term (term_init (e_npf e) (e_device e) b) s) (\<lambda>_ s.
         case limine_data_wanted_responses_present b s of (present, s) \<Rightarrow>
         if \<not> present then hcf s else
         let s = kdebug ''hello rats :3'' [] s;
             s = with_gdt (gdt_init (e_gdt_addr e)) s;
             s = kinfo ''gdt inited'' [] s;
             s = with_idt (idt_init (e_handler_addr e)) s;
             s = kinfo ''idt inited'' [] s
         in bindk (phys_init b s) (\<lambda>_ s.
         let s = kinfo ''phys inited'' [] s;
             s = kdebug ''cpuid max leaf:          %08x''
                   [KInt (ucast (cpuid_eax (e_cpuid e) CPUID_MAX_LEAF_AND_VENDOR_ID 0))] s;
             s = kdebug ''cpuid max extended leaf: %08x''
                   [KInt (ucast (cpuid_eax (e_cpuid e) CPUID_MAX_EXTENDED_LEAF 0))] s
         in kmain_paging e s)))"

end
