(* ===== verification/PhysSpec.thy ===== *)
theory PhysSpec
  imports Phys
begin

text \<open>
  What the page allocator computes, stated over page frame numbers: \<open>frame_used s f\<close> is bit \<open>f\<close>
  of the bitmap in memory, and each operation changes exactly the bits it should and no memory
  outside the bitmap.
\<close>

section \<open>Frames and their bits\<close>

definition frame_of :: "u64 \<Rightarrow> nat" where
  "frame_of addr = unat addr div 4096"

definition frame_addr :: "nat \<Rightarrow> u64" where
  "frame_addr f = of_nat f * 4096"

definition frame_used :: "'z phys_scheme \<Rightarrow> nat \<Rightarrow> bool" where
  "frame_used s f = bit (rd64 s (bitmap_cell s (of_nat (f div 64)))) (f mod 64)"

text \<open>The frames that \<open>phys_alloc\<close> scans: it treats \<open>s_phys_bitmap_size\<close> as a number of entries.\<close>

definition covered :: "'z phys_scheme \<Rightarrow> nat" where
  "covered s = 64 * unat (s_phys_bitmap_size s)"

text \<open>
  Well-formedness: the bitmap is a \<open>uint64_t\<close> array, and the scanned frames lie within the
  architecture's 52-bit physical addresses.
\<close>

definition phys_wf :: "'z phys_scheme \<Rightarrow> bool" where
  "phys_wf s \<longleftrightarrow> aligned 8 (s_phys_bitmap s) \<and> covered s * 4096 \<le> 2 ^ 52"

definition in_bitmap :: "'z phys_scheme \<Rightarrow> u64 \<Rightarrow> bool" where
  "in_bitmap s x \<longleftrightarrow> unat (x - s_phys_bitmap s) < 8 * unat (s_phys_bitmap_size s)"

definition free_frames :: "'z phys_scheme \<Rightarrow> nat set" where
  "free_frames s = {f. f < covered s \<and> \<not> frame_used s f}"

lemma frame_of_lt: "frame_of a < 2 ^ 52"
  using unat_lt64 [of a] by (simp add: frame_of_def)

lemma unat_frame_addr: "f < 2 ^ 52 \<Longrightarrow> unat (frame_addr f) = f * 4096"
  by (simp add: frame_addr_def unat_word_ariths unat_of_nat)

lemma frame_of_addr [simp]: "f < 2 ^ 52 \<Longrightarrow> frame_of (frame_addr f) = f"
  by (simp add: frame_of_def unat_frame_addr)

lemma frame_addr_inj:
  assumes "f < 2 ^ 52" and "g < 2 ^ 52" and "frame_addr f = frame_addr g"
  shows "f = g"
proof -
  have "f = frame_of (frame_addr f)" by (rule frame_of_addr [OF assms(1), symmetric])
  also have "\<dots> = frame_of (frame_addr g)" by (rule arg_cong [OF assms(3)])
  also have "\<dots> = g" by (rule frame_of_addr [OF assms(2)])
  finally show ?thesis .
qed

lemma frame_addr_of: "aligned 4096 a \<Longrightarrow> frame_addr (frame_of a) = a"
  using unat_frame_addr [OF frame_of_lt [of a]]
  by (simp add: word_unat_eq_iff frame_of_def aligned_def)

lemma aligned_frame_addr: "f < 2 ^ 52 \<Longrightarrow> aligned 4096 (frame_addr f)"
  by (simp add: aligned_def unat_frame_addr)

lemma bitmap_index: "PHYS_BITMAP_INDEX addr = of_nat (frame_of addr div 64)"
proof -
  have "frame_of addr div 64 \<le> frame_of addr" by (rule div_le_dividend)
  then have "frame_of addr div 64 < 2 ^ 64" using frame_of_lt [of addr] by simp
  then show ?thesis
    by (simp add: PHYS_BITMAP_INDEX_def kernel_defs word_unat_eq_iff unat_div frame_of_def unat_of_nat)
qed

lemma bitmap_bit: "unat (PHYS_BITMAP_BIT_POS addr) = frame_of addr mod 64"
  by (simp add: PHYS_BITMAP_BIT_POS_def kernel_defs frame_of_def unat_div unat_mod)

lemma bit_bitmap_mask: "bit (PHYS_BITMAP_MASK addr) n \<longleftrightarrow> n = frame_of addr mod 64"
  by (auto simp: PHYS_BITMAP_MASK_def bitmap_bit bit_exp_iff)

section \<open>Cells\<close>

lemma aligned_cell: "aligned 8 (s_phys_bitmap s) \<Longrightarrow> aligned 8 (bitmap_cell s i)"
  by (auto simp: bitmap_cell_def aligned_def unat_word_ariths intro!: dvd_mod dvd_add)

lemma cell_inj:
  assumes "i < 2 ^ 61" and "j < 2 ^ 61"
  shows "bitmap_cell s (of_nat i) = bitmap_cell s (of_nat j) \<longleftrightarrow> i = j"
  using assms by (simp only: bitmap_cell_def add_left_cancel)
    (auto simp: word_unat_eq_iff unat_word_ariths unat_of_nat)

lemma frame_cell_inj:
  assumes "f < 2 ^ 52" and "g < 2 ^ 52"
  shows "bitmap_cell s (of_nat (f div 64)) = bitmap_cell s (of_nat (g div 64)) \<longleftrightarrow> f div 64 = g div 64"
  using assms by (intro cell_inj) simp_all

text \<open>A write to the cell of frame \<open>g\<close>, seen through \<open>frame_used\<close>.\<close>

lemma frame_used_write:
  assumes "aligned 8 (s_phys_bitmap s)" and "f < 2 ^ 52" and "g < 2 ^ 52"
  shows "frame_used (wr64 (bitmap_cell s (of_nat (g div 64))) v s) f \<longleftrightarrow>
           (if f div 64 = g div 64 then bit v (f mod 64) else frame_used s f)"
proof -
  let ?f = "bitmap_cell s (of_nat (f div 64))" and ?g = "bitmap_cell s (of_nat (g div 64))"
  have "load64 (store64 (mem s) ?g v) ?f = (if ?f = ?g then v else load64 (mem s) ?f)"
    by (rule mem64.load_store) (simp_all add: aligned_cell assms(1))
  then show ?thesis
    using frame_cell_inj [OF assms(2,3), of s] by (simp add: frame_used_def bitmap_cell_def)
qed

lemma frame_div_mod: "f div 64 = g div 64 \<Longrightarrow> f mod 64 = g mod 64 \<longleftrightarrow> f = (g :: nat)"
  by (metis div_mult_mod_eq)

lemma frame_used_mark_used:
  assumes "aligned 8 (s_phys_bitmap s)" and "f < 2 ^ 52"
  shows "frame_used (phys_mark_used addr s) f \<longleftrightarrow> f = frame_of addr \<or> frame_used s f"
  using frame_used_write [OF assms frame_of_lt [of addr]] frame_div_mod [of f "frame_of addr"]
  by (auto simp: phys_mark_used_def Let_def bitmap_index bit_or_iff bit_bitmap_mask frame_used_def)

lemma frame_used_mark_unused:
  assumes "aligned 8 (s_phys_bitmap s)" and "f < 2 ^ 52"
  shows "frame_used (phys_mark_unused addr s) f \<longleftrightarrow> f \<noteq> frame_of addr \<and> frame_used s f"
  using frame_used_write [OF assms frame_of_lt [of addr]] frame_div_mod [of f "frame_of addr"]
  by (auto simp: phys_mark_unused_def Let_def bitmap_index bit_and_iff bit_not_iff bit_bitmap_mask
      frame_used_def)

lemma phys_free_eq: "phys_free addr s = phys_mark_unused addr s"
  by (simp add: phys_free_def phys_mark_unused_def)

text \<open>Marking changes nothing but the memory, and the memory only inside the bitmap.\<close>

lemma mark_fields [simp]:
  "s_phys_bitmap (phys_mark_used a s) = s_phys_bitmap s"
  "s_phys_bitmap_size (phys_mark_used a s) = s_phys_bitmap_size s"
  "s_phys_hhdm_offset (phys_mark_used a s) = s_phys_hhdm_offset s"
  "s_phys_addr_space_size (phys_mark_used a s) = s_phys_addr_space_size s"
  "s_phys_bitmap (phys_mark_unused a s) = s_phys_bitmap s"
  "s_phys_bitmap_size (phys_mark_unused a s) = s_phys_bitmap_size s"
  "s_phys_hhdm_offset (phys_mark_unused a s) = s_phys_hhdm_offset s"
  "s_phys_addr_space_size (phys_mark_unused a s) = s_phys_addr_space_size s"
  by (simp_all add: phys_mark_used_def phys_mark_unused_def Let_def)

lemma covered_mark [simp]:
  "covered (phys_mark_used a s) = covered s" "covered (phys_mark_unused a s) = covered s"
  by (simp_all add: covered_def)

lemma phys_wf_mark [simp]:
  "phys_wf (phys_mark_used a s) = phys_wf s" "phys_wf (phys_mark_unused a s) = phys_wf s"
  by (simp_all add: phys_wf_def)

lemma cell_in_bitmap:
  assumes "phys_wf s" and "f < covered s" and "unat (x - bitmap_cell s (of_nat (f div 64))) < 8"
  shows "in_bitmap s x"
proof -
  let ?c = "bitmap_cell s (of_nat (f div 64))"
  have size: "unat (s_phys_bitmap_size s) \<le> 2 ^ 34"
    using assms(1) by (simp add: phys_wf_def covered_def)
  have f: "f div 64 < unat (s_phys_bitmap_size s)"
    using assms(2) by (simp add: covered_def less_mult_imp_div_less mult.commute)
  have "x - s_phys_bitmap s = 8 * of_nat (f div 64) + (x - ?c)"
    by (simp add: bitmap_cell_def)
  moreover have "unat (8 * of_nat (f div 64) :: u64) = 8 * (f div 64)"
    using f size by (simp add: unat_word_ariths unat_of_nat)
  ultimately have "unat (x - s_phys_bitmap s) = 8 * (f div 64) + unat (x - ?c)"
    using f size assms(3) by (simp only:) (subst unat_add_no_wrap, simp_all)
  with f assms(3) show ?thesis by (simp add: in_bitmap_def)
qed

lemma mark_used_mem:
  assumes "phys_wf s" and "frame_of addr < covered s" and "\<not> in_bitmap s x"
  shows "mem (phys_mark_used addr s) x = mem s x"
  using cell_in_bitmap [OF assms(1,2), of x] assms(3)
  by (auto simp: phys_mark_used_def Let_def bitmap_index store64_def)

lemma mark_unused_mem:
  assumes "phys_wf s" and "frame_of addr < covered s" and "\<not> in_bitmap s x"
  shows "mem (phys_mark_unused addr s) x = mem s x"
  using cell_in_bitmap [OF assms(1,2), of x] assms(3)
  by (auto simp: phys_mark_unused_def Let_def bitmap_index store64_def)

section \<open>One page\<close>

lemma first_clear_bit_spec:
  "(case first_clear_bit e b of
      Some k \<Rightarrow> b \<le> k \<and> k < 64 \<and> \<not> bit e k \<and> (\<forall>j. b \<le> j \<and> j < k \<longrightarrow> bit e j)
    | None \<Rightarrow> \<forall>j. b \<le> j \<and> j < 64 \<longrightarrow> bit e j)"
proof (induction e b rule: first_clear_bit.induct)
  case (1 e b)
  show ?case
  proof (cases "b < 64 \<and> bit e b")
    case True
    then have "first_clear_bit e b = first_clear_bit e (b + 1)"
      by (subst first_clear_bit.simps) (simp add: and_exp_eq_0_iff_not_bit)
    moreover have "bit e j" if "b \<le> j" "b + 1 \<le> j \<longrightarrow> bit e j" for j :: nat
      using that True by (cases "j = b") auto
    ultimately show ?thesis
      using "1.IH" True by (auto simp: and_exp_eq_0_iff_not_bit split: option.splits)
  next
    case False
    then show ?thesis
      by (subst first_clear_bit.simps) (auto simp: and_exp_eq_0_iff_not_bit split: option.splits)
  qed
qed

lemma first_clear_bit_full: "first_clear_bit e 0 = None \<longleftrightarrow> e = FULLY_USED"
proof
  assume "first_clear_bit e 0 = None"
  then have "bit e j" if "j < 64" for j
    using first_clear_bit_spec [where e = e and b = 0] that by simp
  then show "e = FULLY_USED" by (intro bit_word_eqI) (simp add: kernel_defs)
next
  assume "e = FULLY_USED"
  then show "first_clear_bit e 0 = None"
    using first_clear_bit_spec [where e = e and b = 0] by (auto simp: kernel_defs split: option.splits)
qed

lemma frame_used_entry: "b < 64 \<Longrightarrow> frame_used s (64 * unat i + b) \<longleftrightarrow> bit (rd64 s (bitmap_cell s i)) b"
  by (simp add: frame_used_def)

lemma frame_bound: "phys_wf s \<Longrightarrow> f < covered s \<Longrightarrow> f < 2 ^ 40"
  by (simp add: phys_wf_def)

lemma used_through_entry:
  assumes "i < s_phys_bitmap_size s" and "\<And>f. f < 64 * unat i \<Longrightarrow> frame_used s f"
    and "\<And>j. j < b \<Longrightarrow> bit (rd64 s (bitmap_cell s i)) j" and "b \<le> 64" and "g < 64 * unat i + b"
  shows "frame_used s g"
proof (cases "g < 64 * unat i")
  case False
  then have "g = 64 * unat i + (g - 64 * unat i)" "g - 64 * unat i < b" using assms(5) by auto
  then show ?thesis using frame_used_entry [of "g - 64 * unat i" s i] assms(3,4) by simp
qed (rule assms(2))

lemma phys_alloc_from_full:
  assumes "i < s_phys_bitmap_size s" and "rd64 s (bitmap_cell s i) = FULLY_USED"
  shows "phys_alloc_from i s = phys_alloc_from (i + 1) s"
  using assms by (subst phys_alloc_from.simps) simp

text \<open>The entry at which the search ends holds the frame that is handed out.\<close>

lemma phys_alloc_from_here:
  assumes "phys_wf s" and "i < s_phys_bitmap_size s" and b: "first_clear_bit (rd64 s (bitmap_cell s i)) 0 = Some b"
  defines "f \<equiv> 64 * unat i + b"
  shows "f < covered s" and "\<not> frame_used s f" and "\<And>j. j < b \<Longrightarrow> bit (rd64 s (bitmap_cell s i)) j" and "b \<le> 64"
    and "phys_alloc_from i s = (frame_addr f, phys_mark_used (frame_addr f) s)"
proof -
  let ?e = "rd64 s (bitmap_cell s i)"
  have e: "b < 64" "\<not> bit ?e b" "\<And>j. j < b \<Longrightarrow> bit ?e j"
    using first_clear_bit_spec [where e = ?e and b = 0] b by auto
  then show "\<And>j. j < b \<Longrightarrow> bit ?e j" "b \<le> 64" by simp_all
  show "\<not> frame_used s f" using frame_used_entry [of b s i] e by (simp add: f_def)
  show cov: "f < covered s" using assms(2) e(1) by (simp add: f_def covered_def word_less_nat_alt)
  then have lt: "f < 2 ^ 52" using frame_bound [OF assms(1)] by fastforce
  have "PHYS_BITMAP_MASK (frame_addr f) = push_bit b 1"
    using e(1) lt by (simp add: f_def PHYS_BITMAP_MASK_def bitmap_bit)
  moreover have "bitmap_cell s (PHYS_BITMAP_INDEX (frame_addr f)) = bitmap_cell s i"
    using e(1) lt by (simp add: f_def bitmap_index)
  moreover have "?e \<noteq> FULLY_USED" using b by (auto simp: first_clear_bit_full [symmetric])
  ultimately show "phys_alloc_from i s = (frame_addr f, phys_mark_used (frame_addr f) s)"
    using assms(2) b by (subst phys_alloc_from.simps)
      (simp add: f_def phys_mark_used_def Let_def frame_addr_def kernel_defs algebra_simps)
qed

lemma phys_alloc_from_cases:
  assumes "phys_wf s" and "i \<le> s_phys_bitmap_size s" and "\<And>f. f < 64 * unat i \<Longrightarrow> frame_used s f"
  shows "(\<exists>f. f < covered s \<and> \<not> frame_used s f \<and> (\<forall>g<f. frame_used s g) \<and>
              phys_alloc_from i s = (frame_addr f, phys_mark_used (frame_addr f) s)) \<or>
         ((\<forall>f<covered s. frame_used s f) \<and> phys_alloc_from i s = (0, s))"
  using assms
proof (induction i s rule: phys_alloc_from.induct)
  case (1 i s)
  let ?e = "rd64 s (bitmap_cell s i)"
  show ?case
  proof (cases "i < s_phys_bitmap_size s")
    case False
    with "1.prems"(2) have "i = s_phys_bitmap_size s" by simp
    with "1.prems"(3) False show ?thesis by (subst phys_alloc_from.simps) (simp add: covered_def)
  next
    case i: True
    show ?thesis
    proof (cases "first_clear_bit ?e 0")
      case None
      then have full: "?e = FULLY_USED" by (simp add: first_clear_bit_full)
      have i1: "unat (i + 1) = Suc (unat i)" by (rule word_Suc_less [OF i])
      have "frame_used s f" if "f < 64 * unat (i + 1)" for f
        by (rule used_through_entry [OF i "1.prems"(3), of 64]) (use that i1 full in \<open>simp_all add: kernel_defs\<close>)
      moreover have "i + 1 \<le> s_phys_bitmap_size s" using i i1 by (simp add: word_le_nat_alt word_less_nat_alt)
      ultimately show ?thesis
        using "1.IH"(1) [OF i refl full "1.prems"(1)] phys_alloc_from_full [OF i full] by simp
    next
      case (Some b)
      note h = phys_alloc_from_here [OF "1.prems"(1) i Some]
      have "\<forall>g<64 * unat i + b. frame_used s g" using used_through_entry [OF i "1.prems"(3) h(3,4)] by blast
      then show ?thesis using h(1,2,5) by blast
    qed
  qed
qed

text \<open>The two outcomes of \<open>phys_alloc\<close>.\<close>

lemma phys_alloc_cases:
  assumes "phys_wf s"
  obtains (frame) f where "f < covered s" "\<not> frame_used s f" "\<And>g. g < f \<Longrightarrow> frame_used s g"
      "phys_alloc s = (frame_addr f, phys_mark_used (frame_addr f) s)"
    | (full) "\<And>f. f < covered s \<Longrightarrow> frame_used s f" "phys_alloc s = (0, s)"
  using phys_alloc_from_cases [OF assms, of 0] unfolding phys_alloc_def by auto

section \<open>Only the memory changes\<close>

text \<open>\<open>only_mem s s'\<close>: \<open>s'\<close> differs from \<open>s\<close> at most in its memory.\<close>

definition only_mem :: "'z machine_scheme \<Rightarrow> 'z machine_scheme \<Rightarrow> bool" where
  "only_mem s s' \<longleftrightarrow> s' = s\<lparr>mem := mem s'\<rparr>"

lemma only_mem_refl [simp]: "only_mem s s"
  by (simp add: only_mem_def)

lemma only_mem_trans: "only_mem s t \<Longrightarrow> only_mem t u \<Longrightarrow> only_mem s u"
  by (simp add: only_mem_def) (metis machine.surjective machine.update_convs(1))

lemma only_mem_mark [simp]:
  "only_mem s (phys_mark_used a s)" "only_mem s (phys_mark_unused a s)"
  by (simp_all add: only_mem_def phys_mark_used_def phys_mark_unused_def Let_def)

lemma only_memE:
  assumes "only_mem s s'"
  obtains m where "s' = s\<lparr>mem := m\<rparr>"
  using assms unfolding only_mem_def by blast

lemma only_mem_fields:
  assumes "only_mem s s'"
  shows "s_phys_bitmap s' = s_phys_bitmap (s :: 'z phys_scheme)"
    and "s_phys_bitmap_size s' = s_phys_bitmap_size s"
    and "s_phys_hhdm_offset s' = s_phys_hhdm_offset s"
    and "s_phys_addr_space_size s' = s_phys_addr_space_size s"
    and "cr3 s' = cr3 s" and "klogs s' = klogs s" and "invlpgs s' = invlpgs s"
  using assms by (auto elim!: only_memE)

section \<open>Regions\<close>

text \<open>
  The pages the region loops visit, counted from the start address; the loops of regions that do
  not reach the end of the 64-bit space stay within it.
\<close>

definition region_frames :: "u64 \<Rightarrow> u64 \<Rightarrow> nat set" where
  "region_frames addr len = {frame_of addr ..< frame_of addr + iters PHYS_PAGE_SIZE len}"

definition region_ok :: "u64 \<Rightarrow> u64 \<Rightarrow> bool" where
  "region_ok addr len \<longleftrightarrow>
     iters PHYS_PAGE_SIZE len * 4096 < 2 ^ 64 \<and> unat addr + iters PHYS_PAGE_SIZE len * 4096 \<le> 2 ^ 64"

lemma frame_of_step:
  assumes "region_ok addr len" and "k < iters PHYS_PAGE_SIZE len"
  shows "frame_of (addr + of_nat k * PHYS_PAGE_SIZE) = frame_of addr + k"
proof -
  have "k * 4096 + 4096 \<le> iters PHYS_PAGE_SIZE len * 4096"
    using assms(2) by (simp add: Suc_le_eq [symmetric])
  then have "unat addr + k * 4096 < 2 ^ 64" "k * 4096 < 2 ^ 64"
    using assms(1) by (simp_all add: region_ok_def)
  then have "unat (addr + of_nat k * PHYS_PAGE_SIZE) = unat addr + k * 4096"
    by (simp add: kernel_defs unat_word_ariths unat_of_nat mod_mult_left_eq)
  then show ?thesis by (simp add: frame_of_def)
qed

lemma region_frames_0 [simp]: "iters PHYS_PAGE_SIZE len = 0 \<Longrightarrow> region_frames addr len = {}"
  by (simp add: region_frames_def)

lemma region_loop:
  assumes wf: "phys_wf s" and ok: "region_ok addr len"
    and step: "\<And>a s. phys_wf s \<Longrightarrow> only_mem s (g a s) \<and>
                 (\<forall>f<2 ^ 52. frame_used (g a s) f \<longleftrightarrow> (if f = frame_of a then v else frame_used s f)) \<and>
                 (frame_of a < covered s \<longrightarrow> (\<forall>x. \<not> in_bitmap s x \<longrightarrow> mem (g a s) x = mem s x))"
  shows "\<exists>s'. for_step PHYS_PAGE_SIZE 0 len (\<lambda>i s. Inr ((), g (addr + i) s)) s = Inr ((), s') \<and>
           only_mem s s' \<and>
           (\<forall>f<2 ^ 52. frame_used s' f \<longleftrightarrow> (if f \<in> region_frames addr len then v else frame_used s f)) \<and>
           (region_frames addr len \<subseteq> {..<covered s} \<longrightarrow>
              (\<forall>x. \<not> in_bitmap s x \<longrightarrow> mem s' x = mem s x))"
proof -
  let ?n = "iters PHYS_PAGE_SIZE len" and ?F = "\<lambda>k. {frame_of addr ..< frame_of addr + k}"
  define P where "P k s' \<longleftrightarrow> only_mem s s' \<and>
      (\<forall>f<2 ^ 52. frame_used s' f \<longleftrightarrow> (if f \<in> ?F k then v else frame_used s f)) \<and>
      (?F k \<subseteq> {..<covered s} \<longrightarrow> (\<forall>x. \<not> in_bitmap s x \<longrightarrow> mem s' x = mem s x))" for k s'
  have "\<exists>s'. for_step PHYS_PAGE_SIZE 0 len (\<lambda>i s. Inr ((), g (addr + i) s)) s = Inr ((), s') \<and> P ?n s'"
  proof (rule for_step_total)
    show "0 < unat PHYS_PAGE_SIZE" "?n * unat PHYS_PAGE_SIZE < 2 ^ 64"
      using ok by (simp_all add: region_ok_def kernel_defs)
    show "P 0 s" by (simp add: P_def)
  next
    fix k t assume k: "k < ?n" and P: "P k t"
    let ?a = "addr + of_nat k * PHYS_PAGE_SIZE"
    have a: "frame_of ?a = frame_of addr + k" by (rule frame_of_step [OF ok k])
    have om: "only_mem s t" using P by (simp add: P_def)
    have wft: "phys_wf t" and covt: "covered t = covered s" and inb: "in_bitmap t = in_bitmap s"
      using wf only_mem_fields [OF om] by (simp_all add: phys_wf_def covered_def in_bitmap_def fun_eq_iff)
    have "P (Suc k) (g ?a t)"
      unfolding P_def
    proof (intro conjI allI impI)
      show "only_mem s (g ?a t)" using step [OF wft, of ?a] only_mem_trans [OF om] by blast
    next
      fix f :: nat assume "f < 2 ^ 52"
      then show "frame_used (g ?a t) f \<longleftrightarrow> (if f \<in> ?F (Suc k) then v else frame_used s f)"
        using step [OF wft, of ?a] P a by (auto simp: P_def)
    next
      fix x assume sub: "?F (Suc k) \<subseteq> {..<covered s}" and x: "\<not> in_bitmap s x"
      have "frame_of addr + k \<in> ?F (Suc k)" by simp
      then have "frame_of ?a < covered t" using subsetD [OF sub] a covt by simp
      moreover have "?F k \<subseteq> ?F (Suc k)" by auto
      then have "?F k \<subseteq> {..<covered s}" using sub by (rule subset_trans)
      ultimately show "mem (g ?a t) x = mem s x"
        using step [OF wft, of ?a] P x inb by (simp add: P_def)
    qed
    then show "\<exists>s'. Inr ((), g ?a t) = Inr ((), s') \<and> P (Suc k) s'" by blast
  qed
  then show ?thesis by (auto simp: P_def region_frames_def)
qed

lemma phys_mark_region_used_spec:
  assumes "phys_wf s" and "region_ok addr len"
  shows "\<exists>s'. phys_mark_region_used addr len s = Inr ((), s') \<and> only_mem s s' \<and>
           (\<forall>f<2 ^ 52. frame_used s' f \<longleftrightarrow> (if f \<in> region_frames addr len then True else frame_used s f)) \<and>
           (region_frames addr len \<subseteq> {..<covered s} \<longrightarrow>
              (\<forall>x. \<not> in_bitmap s x \<longrightarrow> mem s' x = mem s x))"
  unfolding phys_mark_region_used_def
  by (rule region_loop [OF assms])
    (auto simp: frame_used_mark_used mark_used_mem phys_wf_def)

lemma phys_mark_region_unused_spec:
  assumes "phys_wf s" and "region_ok addr len"
  shows "\<exists>s'. phys_mark_region_unused addr len s = Inr ((), s') \<and> only_mem s s' \<and>
           (\<forall>f<2 ^ 52. frame_used s' f \<longleftrightarrow> (if f \<in> region_frames addr len then False else frame_used s f)) \<and>
           (region_frames addr len \<subseteq> {..<covered s} \<longrightarrow>
              (\<forall>x. \<not> in_bitmap s x \<longrightarrow> mem s' x = mem s x))"
  unfolding phys_mark_region_unused_def
  by (rule region_loop [OF assms])
    (auto simp: frame_used_mark_unused mark_unused_mem phys_wf_def)

lemma phys_free_region_eq: "phys_free_region addr len s = phys_mark_region_unused addr len s"
  by (simp add: phys_free_region_def phys_mark_region_unused_def phys_free_eq)

section \<open>The region allocator\<close>

text \<open>\<open>free_run s n g\<close>: the \<open>n\<close> frames from \<open>g\<close> on are all free.\<close>

definition free_run :: "'z phys_scheme \<Rightarrow> nat \<Rightarrow> nat \<Rightarrow> bool" where
  "free_run s n g \<longleftrightarrow> (\<forall>k<n. \<not> frame_used s (g + k))"

lemma region_page_used_eq: "region_page_used addr i s = Inr (frame_used s (frame_of (addr + i)), s)"
  by (simp add: region_page_used_def frame_used_def bitmap_index PHYS_BITMAP_MASK_def bitmap_bit
      and_exp_eq_0_iff_not_bit)

lemma page_size_facts: "0 < unat PHYS_PAGE_SIZE" "unat PHYS_PAGE_SIZE = 4096"
  by (simp_all add: kernel_defs)

lemma frame_addr_step:
  "frame_addr a + (of_nat j * PHYS_PAGE_SIZE + PHYS_PAGE_SIZE) = frame_addr (a + j + 1)"
  by (simp add: frame_addr_def kernel_defs algebra_simps)

text \<open>The search at one start address.\<close>

lemma region_search:
  assumes ok: "region_ok (frame_addr a) len" and a: "a < 2 ^ 52"
  shows "search_step PHYS_PAGE_SIZE 0 len (region_page_used (frame_addr a)) s =
           Inr (if free_run s (iters PHYS_PAGE_SIZE len) a then None
                else Some (of_nat (LEAST j. j < iters PHYS_PAGE_SIZE len \<and> frame_used s (a + j)) *
                             PHYS_PAGE_SIZE), s)"
proof -
  have "search_step PHYS_PAGE_SIZE 0 len (region_page_used (frame_addr a)) s =
      Inr (if \<exists>j<iters PHYS_PAGE_SIZE len. frame_used s (a + j)
           then Some (of_nat (LEAST j. j < iters PHYS_PAGE_SIZE len \<and> frame_used s (a + j)) *
                        PHYS_PAGE_SIZE) else None, s)"
    using ok frame_of_step [OF ok] a
    by (intro search_step_pure) (simp_all add: page_size_facts region_ok_def region_page_used_eq)
  then show ?thesis by (auto simp: free_run_def)
qed

lemma phys_alloc_region_from_spec:
  assumes bound: "unat (s_phys_addr_space_size s) + iters PHYS_PAGE_SIZE len * 4096 \<le> 2 ^ 64"
    and small: "iters PHYS_PAGE_SIZE len * 4096 < 2 ^ 64"
    and "a < 2 ^ 52" and "\<And>g. g < a \<Longrightarrow> \<not> free_run s (iters PHYS_PAGE_SIZE len) g"
  shows "(\<exists>g. g < 2 ^ 52 \<and> unat (frame_addr g) < unat (s_phys_addr_space_size s) \<and>
            free_run s (iters PHYS_PAGE_SIZE len) g \<and>
            (\<forall>h<g. \<not> free_run s (iters PHYS_PAGE_SIZE len) h) \<and>
            phys_alloc_region_from (frame_addr a) len s =
              Some (bindk (phys_mark_region_used (frame_addr g) len s) (\<lambda>_ s'. Inr (frame_addr g, s')))) \<or>
         ((\<forall>g. g * 4096 < unat (s_phys_addr_space_size s) \<longrightarrow> \<not> free_run s (iters PHYS_PAGE_SIZE len) g) \<and>
          phys_alloc_region_from (frame_addr a) len s = Some (Inr (0, s)))"
  using assms(3,4)
proof (induction "2 ^ 52 - a" arbitrary: a rule: less_induct)
  case less
  let ?n = "iters PHYS_PAGE_SIZE len" and ?space = "unat (s_phys_addr_space_size s)"
  have ua: "unat (frame_addr a) = a * 4096" by (rule unat_frame_addr [OF less.prems(1)])
  show ?case
  proof (cases "a * 4096 < ?space")
    case False
    have "\<not> free_run s ?n g" if "g * 4096 < ?space" for g
      using less.prems(2) [of g] that False by linarith
    moreover have "phys_alloc_region_from (frame_addr a) len s = Some (Inr (0, s))"
      using False ua by (subst phys_alloc_region_from.simps) (simp add: word_less_nat_alt)
    ultimately show ?thesis by blast
  next
    case True
    have ok: "region_ok (frame_addr a) len"
      using bound small True ua by (simp add: region_ok_def)
    have lt: "frame_addr a < s_phys_addr_space_size s" using True ua by (simp add: word_less_nat_alt)
    show ?thesis
    proof (cases "free_run s ?n a")
      case run: True
      then have "phys_alloc_region_from (frame_addr a) len s =
          Some (bindk (phys_mark_region_used (frame_addr a) len s) (\<lambda>_ s'. Inr (frame_addr a, s')))"
        using lt region_search [OF ok less.prems(1), of s]
        by (subst phys_alloc_region_from.simps) simp
      with run True ua less.prems show ?thesis by auto
    next
      case False
      define j where "j = (LEAST j. j < ?n \<and> frame_used s (a + j))"
      have j: "j < ?n" "frame_used s (a + j)"
        using False LeastI_ex [of "\<lambda>j. j < ?n \<and> frame_used s (a + j)"]
        by (auto simp: j_def free_run_def)
      have "(a + j + 1) * 4096 \<le> a * 4096 + ?n * 4096" using j(1) by simp
      then have "(a + j + 1) * 4096 < 2 ^ 64" using bound True by linarith
      then have next_lt: "a + j + 1 < 2 ^ 52" by simp
      have norun: "\<not> free_run s ?n g" if "g < a + j + 1" for g
      proof (cases "g < a")
        case False
        then have "a + j - g < ?n" "g + (a + j - g) = a + j" using j(1) that by auto
        with j(2) show ?thesis by (metis free_run_def)
      qed (rule less.prems(2))
      have "phys_alloc_region_from (frame_addr a) len s = phys_alloc_region_from (frame_addr (a + j + 1)) len s"
        using lt region_search [OF ok less.prems(1), of s] False frame_addr_step [of a j]
        by (subst phys_alloc_region_from.simps) (simp add: j_def)
      then show ?thesis
        using less.hyps [of "a + j + 1"] next_lt norun by simp
    qed
  qed
qed

end
