(* ===== verification/PhysInit.thy ===== *)
theory PhysInit
  imports PhysSpec
begin

text \<open>
  What \<open>phys_init\<close> leaves behind: the bitmap says used for every frame of the address space but
  those of the usable memory map entries, less the frames that hold the bitmap and frame 0.
\<close>

section \<open>The memory map\<close>

text \<open>
  What the boot protocol documents of the memory map (usable entries are page aligned and do not
  reach the end of the 64-bit space), and a bound on the top address that keeps the bitmap
  arithmetic within 64 bits.
\<close>

definition usable :: "memmap_entry list \<Rightarrow> memmap_entry \<Rightarrow> bool" where
  "usable es e \<longleftrightarrow> e \<in> set es \<and> me_type e = LIMINE_MEMMAP_USABLE"

definition memmap_ok :: "memmap_entry list \<Rightarrow> bool" where
  "memmap_ok es \<longleftrightarrow> es \<noteq> [] \<and>
     unat (me_base (last es)) + unat (me_length (last es)) \<le> 2 ^ 48 \<and>
     (\<forall>e. usable es e \<longrightarrow> aligned 4096 (me_base e) \<and> unat (me_base e) + unat (me_length e) \<le> 2 ^ 48)"

definition memmap_top :: "memmap_entry list \<Rightarrow> u64" where
  "memmap_top es = me_base (last es) + me_length (last es)"

definition memmap_bitmap_size :: "memmap_entry list \<Rightarrow> u64" where
  "memmap_bitmap_size es = ceildivu64 (memmap_top es) (PHYS_PAGE_SIZE * BITS_PER_BYTE)"

definition usable_frames :: "memmap_entry list \<Rightarrow> nat set" where
  "usable_frames es = {f. \<exists>e. usable es e \<and> f \<in> region_frames (me_base e) (me_length e)}"

lemma iters_page: "iters PHYS_PAGE_SIZE len = (unat len + 4095) div 4096"
  by (simp add: iters_def kernel_defs)

lemma region_ok_small: "unat addr + unat len \<le> 2 ^ 63 \<Longrightarrow> region_ok addr len"
  unfolding region_ok_def iters_page by (simp, linarith)

lemma unat_bitmap_size:
  assumes "memmap_ok es"
  shows "unat (memmap_bitmap_size es) = (unat (memmap_top es) + 32767) div 32768"
    and "unat (memmap_top es) \<le> 2 ^ 48"
proof -
  show top: "unat (memmap_top es) \<le> 2 ^ 48"
    using assms by (simp add: memmap_ok_def memmap_top_def unat_word_ariths)
  have "unat (PHYS_PAGE_SIZE * BITS_PER_BYTE) = 32768" by (simp add: kernel_defs)
  then show "unat (memmap_bitmap_size es) = (unat (memmap_top es) + 32767) div 32768"
    using unat_ceildiv [of "PHYS_PAGE_SIZE * BITS_PER_BYTE"] by (simp add: memmap_bitmap_size_def)
qed

text \<open>The bitmap that is initialised reaches to the end of the address space.\<close>

lemma bitmap_reaches_top:
  assumes "memmap_ok es" and "f * 4096 < unat (memmap_top es)"
  shows "f < 8 * unat (memmap_bitmap_size es)"
  using unat_bitmap_size [OF assms(1)] assms(2) by linarith

lemma find_bitmap_base_usable:
  "find_bitmap_base es n = Some base \<Longrightarrow>
     \<exists>e. usable es e \<and> (me_base e = 0 \<and> base = PHYS_PAGE_SIZE \<or> me_base e \<noteq> 0 \<and> base = me_base e \<and> n < me_length e)"
  by (induction es) (auto simp: usable_def Let_def split: if_splits)

section \<open>The steps of the initialisation\<close>

lemma mark_usable_entries_spec:
  assumes "phys_wf s" and "\<And>e. usable es e \<Longrightarrow> region_ok (me_base e) (me_length e)"
  shows "\<exists>s'. mark_usable_entries es s = Inr ((), s') \<and> only_mem s s' \<and>
           (\<forall>f<2 ^ 52. frame_used s' f \<longleftrightarrow> frame_used s f \<and> f \<notin> usable_frames es) \<and>
           (usable_frames es \<subseteq> {..<covered s} \<longrightarrow> (\<forall>x. \<not> in_bitmap s x \<longrightarrow> mem s' x = mem s x))"
  using assms
proof (induction es arbitrary: s)
  case Nil
  then show ?case by (simp add: usable_frames_def usable_def)
next
  case (Cons e es)
  have ok: "region_ok (me_base e') (me_length e')" if "usable es e'" for e'
    using Cons.prems(2) [of e'] that by (simp add: usable_def)
  show ?case
  proof (cases "me_type e = LIMINE_MEMMAP_USABLE")
    case True
    then have u: "usable (e # es) e" by (simp add: usable_def)
    obtain t where t: "phys_mark_region_unused (me_base e) (me_length e) s = Inr ((), t)"
      "only_mem s t"
      "\<forall>f<2 ^ 52. frame_used t f \<longleftrightarrow>
         (if f \<in> region_frames (me_base e) (me_length e) then False else frame_used s f)"
      "region_frames (me_base e) (me_length e) \<subseteq> {..<covered s} \<longrightarrow> (\<forall>x. \<not> in_bitmap s x \<longrightarrow> mem t x = mem s x)"
      using phys_mark_region_unused_spec [OF Cons.prems(1) Cons.prems(2) [OF u]] by blast
    have same: "phys_wf t" "covered t = covered s" "in_bitmap t = in_bitmap s"
      using Cons.prems(1) only_mem_fields [OF t(2)] by (simp_all add: phys_wf_def covered_def in_bitmap_def fun_eq_iff)
    then obtain s' where s': "mark_usable_entries es t = Inr ((), s')" "only_mem t s'"
      "\<And>f. f < 2 ^ 52 \<Longrightarrow> frame_used s' f \<longleftrightarrow> frame_used t f \<and> f \<notin> usable_frames es"
      "usable_frames es \<subseteq> {..<covered s} \<longrightarrow> (\<forall>x. \<not> in_bitmap s x \<longrightarrow> mem s' x = mem t x)"
      using Cons.IH [OF _ ok] by force
    have "usable_frames (e # es) = region_frames (me_base e) (me_length e) \<union> usable_frames es"
      using True by (auto simp: usable_frames_def usable_def)
    then show ?thesis
      using True t s' only_mem_trans [OF t(2) s'(2)] by auto
  next
    case False
    have "usable_frames (e # es) = usable_frames es"
      using False by (auto simp: usable_frames_def usable_def)
    then show ?thesis using Cons.IH [OF Cons.prems(1) ok] False by simp
  qed
qed

lemma div8_split: "f div 8 = 8 * (f div 64) + f mod 64 div (8 :: nat)"
proof -
  have "f mod 64 = 8 * (f div 8 mod 8) + f mod 8" using mod_mult2_eq [of f 8 8] by simp
  then have "f mod 64 div 8 = f div 8 mod 8" by simp
  moreover have "f div 64 = f div 8 div 8" using div_mult2_eq [of f 8 8] by simp
  ultimately show ?thesis by simp
qed

lemma bit_all_ones_byte: "k < 8 \<Longrightarrow> bit (255 :: u8) k"
proof -
  have m: "(255 :: u8) = mask 8" by (simp add: mask_eq_exp_minus_1)
  show "k < 8 \<Longrightarrow> bit (255 :: u8) k" unfolding m by (simp only: bit_mask_iff) simp
qed

lemma frame_used_memset:
  assumes "f < 8 * unat (s_phys_bitmap_size s)" and "f < 2 ^ 52"
  shows "frame_used (s\<lparr>mem := memset (s_phys_bitmap s) 0xff (s_phys_bitmap_size s) (mem s)\<rparr>) f"
proof -
  let ?o = "8 * of_nat (f div 64) + of_nat (f mod 64 div 8) :: u64"
  let ?m = "memset (s_phys_bitmap s) 0xff (s_phys_bitmap_size s) (mem s)"
  have o: "?o = of_nat (f div 8)" using div8_split [of f] by (metis of_nat_add of_nat_mult of_nat_numeral)
  have "f div 8 < 2 ^ 64" using assms(2) by simp
  then have "unat ?o = f div 8" unfolding o by (simp add: unat_of_nat)
  then have "?o < s_phys_bitmap_size s" using assms(1) by (simp add: word_less_nat_alt)
  then have "?m (s_phys_bitmap s + ?o) = 255" by (simp add: memset_eq)
  moreover have "bit (255 :: u8) (f mod 64 mod 8)" by (rule bit_all_ones_byte) simp
  ultimately have "bit (?m (s_phys_bitmap s + ?o)) (f mod 64 mod 8)" by (simp only:)
  then have "bit (load64 ?m (s_phys_bitmap s + 8 * of_nat (f div 64))) (f mod 64)"
    unfolding bit_load64 add.assoc by simp
  then show ?thesis by (simp add: frame_used_def bitmap_cell_def)
qed

section \<open>The whole initialisation\<close>

lemma bitmap_base_bounds:
  assumes "memmap_ok es" and "find_bitmap_base es n = Some base"
  shows "aligned 4096 base" and "unat base \<le> 2 ^ 48"
proof -
  obtain e where e: "usable es e"
    "me_base e = 0 \<and> base = PHYS_PAGE_SIZE \<or> me_base e \<noteq> 0 \<and> base = me_base e"
    using find_bitmap_base_usable [OF assms(2)] by blast
  moreover have "aligned 4096 (me_base e)" "unat (me_base e) \<le> 2 ^ 48"
    using assms(1) e(1) unfolding memmap_ok_def by fastforce+
  ultimately show "aligned 4096 base" "unat base \<le> 2 ^ 48"
    by (auto simp: kernel_defs aligned_def)
qed

text \<open>The frames reserved for the bitmap are frames that the bitmap covers.\<close>

lemma bitmap_frames_covered:
  assumes "memmap_ok es" and "find_bitmap_base es (memmap_bitmap_size es) = Some base"
    and "usable_frames es \<subseteq> {..<8 * unat (memmap_bitmap_size es)}" and "memmap_bitmap_size es \<noteq> 0"
  shows "region_frames base (memmap_bitmap_size es * 8) \<subseteq> {..<64 * unat (memmap_bitmap_size es)}"
proof -
  let ?size = "memmap_bitmap_size es"
  have size: "unat ?size \<le> 2 ^ 34" using unat_bitmap_size [OF assms(1)] by simp
  have pos: "0 < unat ?size" using assms(4) by (simp add: unat_gt_0)
  obtain e where e: "usable es e"
    "me_base e = 0 \<and> base = PHYS_PAGE_SIZE \<or> me_base e \<noteq> 0 \<and> base = me_base e \<and> ?size < me_length e"
    using find_bitmap_base_usable [OF assms(2)] by blast
  have "frame_of base < 8 * unat ?size" using e(2)
  proof
    assume "me_base e = 0 \<and> base = PHYS_PAGE_SIZE"
    then show ?thesis using pos by (simp add: frame_of_def kernel_defs)
  next
    assume b: "me_base e \<noteq> 0 \<and> base = me_base e \<and> ?size < me_length e"
    then have "0 < unat (me_length e)" by (simp add: word_less_nat_alt)
    then have "frame_of base \<in> region_frames (me_base e) (me_length e)"
      using b by (simp add: region_frames_def iters_page)
    then show ?thesis using e(1) assms(3) by (auto simp: usable_frames_def)
  qed
  moreover have "unat (?size * 8) = unat ?size * 8" using size by (simp add: unat_word_ariths)
  ultimately show ?thesis using pos by (auto simp: region_frames_def iters_page)
qed

text \<open>The two passes over the bitmap: freeing the usable frames, then taking back those of the bitmap.\<close>

lemma phys_init_passes:
  fixes s :: "'z phys_scheme"
  assumes resp: "limine_data_hhdm_get_offset b = Some off" "limine_data_get_memmap_response b = Some es"
    and map: "memmap_ok es" and off: "aligned 4096 off"
    and base: "find_bitmap_base es (memmap_bitmap_size es) = Some base" "base + off \<noteq> 0"
  defines "t \<equiv> s\<lparr>s_phys_hhdm_offset := off, s_phys_addr_space_size := memmap_top es,
                 s_phys_bitmap_size := memmap_bitmap_size es, s_phys_bitmap := base + off,
                 mem := memset (base + off) 0xff (memmap_bitmap_size es) (mem s)\<rparr>"
  obtains u v where "phys_init b s = Inr ((), phys_mark_used 0 v)" and "phys_wf v" and "only_mem t u" and "only_mem u v"
    and "\<forall>f<2 ^ 52. frame_used u f \<longleftrightarrow> frame_used t f \<and> f \<notin> usable_frames es"
    and "usable_frames es \<subseteq> {..<covered t} \<longrightarrow> (\<forall>x. \<not> in_bitmap t x \<longrightarrow> mem u x = mem t x)"
    and "\<forall>f<2 ^ 52. frame_used v f \<longleftrightarrow> f \<in> region_frames base (memmap_bitmap_size es * 8) \<or> frame_used u f"
    and "region_frames base (memmap_bitmap_size es * 8) \<subseteq> {..<covered u} \<longrightarrow> (\<forall>x. \<not> in_bitmap u x \<longrightarrow> mem v x = mem u x)"
proof -
  let ?size = "memmap_bitmap_size es"
  have size: "unat ?size \<le> 2 ^ 34" using unat_bitmap_size [OF map] by simp
  obtain x y where "unat base = 4096 * x" "unat off = 4096 * y"
    using bitmap_base_bounds(1) [OF map base(1)] off by (auto elim!: aligned_cases)
  then have "aligned 8 (base + off)" by (simp add: aligned_def unat_word_ariths dvd_mod)
  then have wft: "phys_wf t"
    using size unat_bitmap_size [OF map] by (simp add: t_def phys_wf_def covered_def)
  have ok: "region_ok (me_base e) (me_length e)" if "usable es e" for e
    using map that by (intro region_ok_small) (fastforce simp: memmap_ok_def)
  obtain u where u: "mark_usable_entries es t = Inr ((), u)" "only_mem t u"
    "\<forall>f<2 ^ 52. frame_used u f \<longleftrightarrow> frame_used t f \<and> f \<notin> usable_frames es"
    "usable_frames es \<subseteq> {..<covered t} \<longrightarrow> (\<forall>x. \<not> in_bitmap t x \<longrightarrow> mem u x = mem t x)"
    using mark_usable_entries_spec [OF wft ok] by blast
  have fields: "s_phys_bitmap u = base + off" "s_phys_bitmap_size u = ?size" "s_phys_hhdm_offset u = off"
    using only_mem_fields [OF u(2)] by (simp_all add: t_def)
  then have wfu: "phys_wf u" using wft by (simp add: t_def phys_wf_def covered_def)
  have "unat (?size * 8) = unat ?size * 8" using size by (simp add: unat_word_ariths)
  then have "region_ok base (?size * 8)"
    using bitmap_base_bounds(2) [OF map base(1)] size by (intro region_ok_small) simp
  then obtain v where v: "phys_mark_region_used base (?size * 8) u = Inr ((), v)" "only_mem u v"
    "\<forall>f<2 ^ 52. frame_used v f \<longleftrightarrow> (if f \<in> region_frames base (?size * 8) then True else frame_used u f)"
    "region_frames base (?size * 8) \<subseteq> {..<covered u} \<longrightarrow> (\<forall>x. \<not> in_bitmap u x \<longrightarrow> mem v x = mem u x)"
    using phys_mark_region_used_spec [OF wfu] by blast
  have "phys_wf v" using wfu only_mem_fields [OF v(2)] by (simp add: phys_wf_def covered_def)
  moreover have "es \<noteq> []" using map by (simp add: memmap_ok_def)
  then have "phys_init b s = Inr ((), phys_mark_used 0 v)"
    using resp base u(1) v(1) fields
    by (simp add: phys_init_def Let_def t_def memmap_top_def [symmetric] memmap_bitmap_size_def [symmetric])
  ultimately show thesis using that u(2-4) v(2-4) by simp
qed

lemma phys_init_spec:
  assumes resp: "limine_data_hhdm_get_offset b = Some off" "limine_data_get_memmap_response b = Some es"
    and map: "memmap_ok es" and off: "aligned 4096 off"
    and base: "find_bitmap_base es (memmap_bitmap_size es) = Some base" "base + off \<noteq> 0"
  shows "\<exists>s'. phys_init b s = Inr ((), s') \<and> phys_wf s' \<and>
           only_mem (s\<lparr>s_phys_hhdm_offset := off, s_phys_addr_space_size := memmap_top es,
                      s_phys_bitmap_size := memmap_bitmap_size es, s_phys_bitmap := base + off\<rparr>) s' \<and>
           (\<forall>f < 8 * unat (memmap_bitmap_size es). frame_used s' f \<longleftrightarrow>
              f = 0 \<or> f \<in> region_frames base (memmap_bitmap_size es * 8) \<or> f \<notin> usable_frames es) \<and>
           (\<forall>f<2 ^ 52. f = 0 \<or> f \<in> region_frames base (memmap_bitmap_size es * 8) \<longrightarrow> frame_used s' f) \<and>
           (usable_frames es \<subseteq> {..<8 * unat (memmap_bitmap_size es)} \<longrightarrow> memmap_bitmap_size es \<noteq> 0 \<longrightarrow>
              region_frames base (memmap_bitmap_size es * 8) \<subseteq> {..<covered s'} \<and>
              (\<forall>x. \<not> in_bitmap s' x \<longrightarrow> mem s' x = mem s x))"
proof -
  let ?size = "memmap_bitmap_size es"
  let ?s = "s\<lparr>s_phys_hhdm_offset := off, s_phys_addr_space_size := memmap_top es,
              s_phys_bitmap_size := ?size, s_phys_bitmap := base + off\<rparr>"
  let ?t = "?s\<lparr>mem := memset (base + off) 0xff ?size (mem s)\<rparr>"
  have size: "unat ?size \<le> 2 ^ 34" using unat_bitmap_size [OF map] by simp
  obtain u v where run: "phys_init b s = Inr ((), phys_mark_used 0 v)" "phys_wf v" "only_mem ?t u" "only_mem u v"
    and u: "\<forall>f<2 ^ 52. frame_used u f \<longleftrightarrow> frame_used ?t f \<and> f \<notin> usable_frames es"
      "usable_frames es \<subseteq> {..<covered ?t} \<longrightarrow> (\<forall>x. \<not> in_bitmap ?t x \<longrightarrow> mem u x = mem ?t x)"
    and v: "\<forall>f<2 ^ 52. frame_used v f \<longleftrightarrow> f \<in> region_frames base (?size * 8) \<or> frame_used u f"
      "region_frames base (?size * 8) \<subseteq> {..<covered u} \<longrightarrow> (\<forall>x. \<not> in_bitmap u x \<longrightarrow> mem v x = mem u x)"
    by (rule phys_init_passes [OF assms]) (rule that; assumption)
  have al: "aligned 8 (s_phys_bitmap v)" using run(2) by (simp add: phys_wf_def)
  have "only_mem ?s (phys_mark_used 0 v)"
    by (rule only_mem_trans [OF only_mem_trans [OF only_mem_trans [OF _ run(3)] run(4)] only_mem_mark(1)])
      (simp add: only_mem_def)
  moreover have "frame_used (phys_mark_used 0 v) f \<longleftrightarrow>
      f = 0 \<or> f \<in> region_frames base (?size * 8) \<or> f \<notin> usable_frames es"
    if f: "f < 8 * unat ?size" for f
  proof -
    have lt: "f < 2 ^ 52" using f size by simp
    then have "frame_used ?t f" using frame_used_memset [of f ?s] f by simp
    then show ?thesis using frame_used_mark_used [of v f 0] al lt u(1) v(1) by (auto simp: frame_of_def)
  qed
  moreover have "frame_used (phys_mark_used 0 v) f"
    if "f < 2 ^ 52" "f = 0 \<or> f \<in> region_frames base (?size * 8)" for f
    using frame_used_mark_used [of v f 0] that v(1) al by (auto simp: frame_of_def)
  moreover have "region_frames base (?size * 8) \<subseteq> {..<covered (phys_mark_used 0 v)} \<and>
      (\<forall>x. \<not> in_bitmap (phys_mark_used 0 v) x \<longrightarrow> mem (phys_mark_used 0 v) x = mem s x)"
    if us: "usable_frames es \<subseteq> {..<8 * unat ?size}" and pos: "?size \<noteq> 0"
  proof -
    have same: "covered u = 64 * unat ?size" "covered v = 64 * unat ?size" "in_bitmap u = in_bitmap ?t" "in_bitmap v = in_bitmap ?t"
        "in_bitmap (phys_mark_used 0 v) = in_bitmap ?t" "covered ?t = 64 * unat ?size"
      using only_mem_fields [OF run(3)] only_mem_fields [OF run(4)] by (simp_all add: covered_def in_bitmap_def fun_eq_iff)
    have reg: "region_frames base (?size * 8) \<subseteq> {..<64 * unat ?size}"
      by (rule bitmap_frames_covered [OF map base(1) us pos])
    have "usable_frames es \<subseteq> {..<covered ?t}" using us same(6) by auto
    moreover have "frame_of 0 < covered v" using pos same(2) by (simp add: frame_of_def unat_gt_0)
    moreover have "mem ?t x = mem s x" if "\<not> in_bitmap ?t x" for x
      using that by (simp add: in_bitmap_def memset_eq word_less_nat_alt)
    ultimately show ?thesis
      using u(2) v(2) reg mark_used_mem [OF run(2), of 0] unfolding same covered_mark by simp
  qed
  ultimately show ?thesis using run(1,2) by (intro exI [of _ "phys_mark_used 0 v"]) simp
qed

text \<open>The bytes of the scanned bitmap lie in the frames that are reserved for it.\<close>

lemma bitmap_bytes_reserved:
  assumes "memmap_ok es" and "find_bitmap_base es (memmap_bitmap_size es) = Some base"
    and "unat (x - (base + off)) < 8 * unat (memmap_bitmap_size es)"
  shows "frame_of (x - off) \<in> region_frames base (memmap_bitmap_size es * 8)"
proof -
  let ?o = "x - (base + off)" and ?size = "memmap_bitmap_size es"
  have size: "unat ?size \<le> 2 ^ 34" using unat_bitmap_size [OF assms(1)] by simp
  have "x - off = base + ?o" by simp
  then have u: "unat (x - off) = unat base + unat ?o"
    using bitmap_base_bounds(2) [OF assms(1,2)] size assms(3) by (simp only:) (subst unat_add_no_wrap, simp_all)
  obtain b where b: "unat base = 4096 * b"
    using bitmap_base_bounds(1) [OF assms(1,2)] by (rule aligned_cases)
  have "unat (?size * 8) = 8 * unat ?size" using size by (simp add: unat_word_ariths)
  then have "unat ?o div 4096 < iters PHYS_PAGE_SIZE (?size * 8)"
    using assms(3) unfolding iters_page by (simp add: less_eq_div_iff_mult_less_eq Suc_le_eq [symmetric])
  then show ?thesis using u b by (simp add: region_frames_def frame_of_def)
qed

end
