(* ===== verification/Allocator.thy ===== *)
theory Allocator
  imports Prelude
begin

text \<open>
  The contract between the page allocator and its clients (\<open>mem/virt.c\<close> above all): allocation
  takes the least free frame, failure means that no frame is free and changes nothing, and
  giving a frame back restores the state.
\<close>

text \<open>Allocating again and again, until \<open>n\<close> frames are taken or none is left.\<close>

fun alloc_many :: "('s \<Rightarrow> nat option \<times> 's) \<Rightarrow> nat \<Rightarrow> 's \<Rightarrow> nat list \<times> 's" where
  "alloc_many alloc 0 s = ([], s)"
| "alloc_many alloc (Suc n) s =
     (case alloc s of
        (None, s') \<Rightarrow> ([], s')
      | (Some f, s') \<Rightarrow> (case alloc_many alloc n s' of (fs, s'') \<Rightarrow> (f # fs, s'')))"

text \<open>The abstract allocator: a set of free frames.\<close>

definition abs_alloc :: "nat set \<Rightarrow> nat option \<times> nat set" where
  "abs_alloc A = (if A = {} then (None, A) else (Some (Min A), A - {Min A}))"

locale page_allocator =
  fixes wf :: "'s \<Rightarrow> bool"
    and free :: "'s \<Rightarrow> nat set"
    and alloc :: "'s \<Rightarrow> nat option \<times> 's"
    and release :: "nat \<Rightarrow> 's \<Rightarrow> 's"
  assumes finite_free: "wf s \<Longrightarrow> finite (free s)"
    and alloc_least: "wf s \<Longrightarrow> free s \<noteq> {} \<Longrightarrow>
          \<exists>s'. alloc s = (Some (Min (free s)), s') \<and> wf s' \<and> free s' = free s - {Min (free s)}"
    and alloc_full: "wf s \<Longrightarrow> free s = {} \<Longrightarrow> alloc s = (None, s)"
    and alloc_release: "wf s \<Longrightarrow> alloc s = (Some f, s') \<Longrightarrow> release f s' = s"
begin

lemma alloc_Some:
  assumes "wf s" and "alloc s = (Some f, s')"
  shows "f \<in> free s" and "f = Min (free s)" and "wf s'" and "free s' = free s - {f}"
proof -
  have ne: "free s \<noteq> {}" using alloc_full [OF assms(1)] assms(2) by force
  obtain t where t: "alloc s = (Some (Min (free s)), t)" "wf t" "free t = free s - {Min (free s)}"
    using alloc_least [OF assms(1) ne] by blast
  show f: "f = Min (free s)" using t(1) assms(2) by simp
  have s': "s' = t" using t(1) assms(2) by simp
  show "wf s'" using t(2) s' by simp
  show "free s' = free s - {f}" unfolding s' f by (rule t(3))
  from f show "f \<in> free s" using Min_in [OF finite_free [OF assms(1)] ne] by simp
qed

lemma alloc_None:
  assumes "wf s" and "alloc s = (None, s')"
  shows "free s = {}" and "s' = s"
proof -
  show "free s = {}"
  proof (rule ccontr)
    assume "free s \<noteq> {}"
    from alloc_least [OF assms(1) this] assms(2) show False by (elim exE conjE) simp
  qed
  then show "s' = s" using alloc_full [OF assms(1)] assms(2) by simp
qed

lemma refines: "wf s \<Longrightarrow> abs_alloc (free s) = (fst (alloc s), free (snd (alloc s)))"
proof (cases "free s = {}")
  case True
  assume "wf s"
  then show ?thesis using alloc_full [OF _ True] True by (simp add: abs_alloc_def)
next
  case False
  assume "wf s"
  from alloc_least [OF this False] obtain s' where
    "alloc s = (Some (Min (free s)), s')" "free s' = free s - {Min (free s)}" by blast
  then show ?thesis using False by (simp only: abs_alloc_def fst_conv snd_conv if_False)
qed

lemma alloc_many_spec:
  assumes "wf s" and "alloc_many alloc n s = (fs, s')"
  shows "distinct fs \<and> set fs \<subseteq> free s \<and> free s' = free s - set fs \<and> wf s' \<and>
         length fs = min n (card (free s))"
  using assms
proof (induction n arbitrary: s fs s')
  case 0
  then show ?case by simp
next
  case (Suc n)
  obtain r t where r: "alloc s = (r, t)" by fastforce
  show ?case
  proof (cases r)
    case None
    have "free s = {}" "t = s" using alloc_None [OF Suc.prems(1)] r None by simp_all
    moreover have "fs = []" "s' = t" using Suc.prems(2) r None by simp_all
    ultimately show ?thesis using Suc.prems(1) by simp
  next
    case (Some f)
    have f: "f \<in> free s" "wf t" "free t = free s - {f}"
      using alloc_Some [OF Suc.prems(1)] r Some by simp_all
    obtain gs u where gs: "alloc_many alloc n t = (gs, u)" by fastforce
    then have fs: "fs = f # gs" "s' = u" using Suc.prems(2) r Some by simp_all
    have IH: "distinct gs \<and> set gs \<subseteq> free t \<and> free u = free t - set gs \<and> wf u \<and>
        length gs = min n (card (free t))"
      by (rule Suc.IH [OF f(2) gs])
    have "card (free s) = Suc (card (free t))"
      unfolding f(3) by (rule card.remove [OF finite_free [OF Suc.prems(1)] f(1)])
    moreover have "f \<notin> set gs" "set gs \<subseteq> free s" using IH unfolding f(3) by blast+
    moreover have "free s - {f} - set gs = free s - set (f # gs)" by auto
    then have "free u = free s - set (f # gs)" using IH f(3) by simp
    ultimately show ?thesis unfolding fs using IH f(1) by simp
  qed
qed

end

end
