(* ===== verification/PhysProps.thy ===== *)
theory PhysProps
  imports PhysInit Allocator
begin

text \<open>
  The contract of the page allocator (\<open>page_allocator\<close>) is met by the model of
  \<open>src/mem/phys.c\<close>, and the properties of the component.
\<close>

section \<open>The allocator meets its contract\<close>

definition alloc_frame :: "'z phys_scheme \<Rightarrow> nat option \<times> 'z phys_scheme" where
  "alloc_frame s = (case phys_alloc s of (a, s') \<Rightarrow> (if a = 0 then None else Some (frame_of a), s'))"

text \<open>Frame 0 is in use from \<open>phys_init\<close> on, which is why a result of 0 can mean failure.\<close>

definition alloc_wf :: "'z phys_scheme \<Rightarrow> bool" where
  "alloc_wf s \<longleftrightarrow> phys_wf s \<and> frame_used s 0"

lemma frame_addr_eq_0: "f < 2 ^ 52 \<Longrightarrow> frame_addr f = 0 \<longleftrightarrow> f = 0"
  using unat_frame_addr [of f] by (auto simp: unat_eq_zero [symmetric])

lemma free_frames_mark:
  assumes "phys_wf s" and "f < 2 ^ 52"
  shows "free_frames (phys_mark_used (frame_addr f) s) = free_frames s - {f}"
  using assms frame_bound [OF assms(1)]
  by (fastforce simp: free_frames_def frame_used_mark_used phys_wf_def)

lemma mark_used_unused:
  assumes "\<not> frame_used s (frame_of a)"
  shows "phys_mark_unused a (phys_mark_used a s) = s"
proof -
  let ?p = "bitmap_cell s (PHYS_BITMAP_INDEX a)" and ?m = "PHYS_BITMAP_MASK a"
  have "\<not> bit (load64 (mem s) ?p) (frame_of a mod 64)"
    using assms by (simp add: frame_used_def bitmap_index)
  then have "(load64 (mem s) ?p OR ?m) AND NOT ?m = load64 (mem s) ?p"
    by (intro bit_word_eqI) (auto simp: bit_simps bit_bitmap_mask)
  then have "store64 (store64 (mem s) ?p (load64 (mem s) ?p OR ?m)) ?p
      (load64 (store64 (mem s) ?p (load64 (mem s) ?p OR ?m)) ?p AND NOT ?m) = mem s"
    by (simp add: mem64.load_store_same mem64.undo)
  then show ?thesis
    by (simp add: phys_mark_unused_def phys_mark_used_def Let_def bitmap_cell_def)
qed

interpretation pa: page_allocator alloc_wf free_frames alloc_frame "\<lambda>f. phys_free (frame_addr f)"
proof (unfold_locales, goal_cases)
  case (1 s)
  show ?case by (simp add: free_frames_def)
next
  case (2 s)
  from 2(1) have wf: "phys_wf s" and z: "frame_used s 0" by (simp_all add: alloc_wf_def)
  from wf show ?case
  proof (cases rule: phys_alloc_cases)
    case (frame f)
    have f: "f < 2 ^ 52" using frame_bound [OF wf frame(1)] by simp
    have "Min (free_frames s) = f"
      using frame by (intro Min_eqI) (auto simp: free_frames_def not_less [symmetric])
    moreover have "f \<noteq> 0" using z frame(2) by metis
    ultimately show ?thesis
      using frame f wf z free_frames_mark [OF wf f]
      by (simp add: alloc_frame_def alloc_wf_def frame_addr_eq_0 frame_used_mark_used phys_wf_def)
  next
    case full
    with 2(2) show ?thesis by (auto simp: free_frames_def)
  qed
next
  case (3 s)
  then have wf: "phys_wf s" by (simp add: alloc_wf_def)
  from wf show ?case
  proof (cases rule: phys_alloc_cases)
    case (frame f)
    with 3(2) show ?thesis by (auto simp: free_frames_def)
  next
    case full
    then show ?thesis by (simp add: alloc_frame_def)
  qed
next
  case (4 s f s')
  then have wf: "phys_wf s" by (simp add: alloc_wf_def)
  from wf show ?case
  proof (cases rule: phys_alloc_cases)
    case (frame g)
    then have "g < 2 ^ 52" using frame_bound [OF wf] by fastforce
    with frame 4(2) show ?thesis
      by (auto simp: alloc_frame_def phys_free_eq mark_used_unused split: if_splits)
  next
    case full
    with 4(2) show ?thesis by (simp add: alloc_frame_def)
  qed
qed

section \<open>A concrete machine for the witnesses\<close>

text \<open>
  64 frames; the bitmap is in frame 1, and frames 0 to 2 are in use. The direct map starts at
  \<open>0xffff800000000000\<close>.
\<close>

definition demo_hhdm :: u64 where
  "demo_hhdm = 0xffff800000000000"

definition demo_phys :: phys where
  "demo_phys = \<lparr>mem = (\<lambda>a. if a = 0xffff800000001000 then 7 else 0), cr0 = 0, cr2 = 0, cr3 = 0x2000, io = [],
     invlpgs = [],
     klogs = [], s_phys_hhdm_offset = demo_hhdm, s_phys_bitmap = 0xffff800000001000,
     s_phys_bitmap_size = 1, s_phys_addr_space_size = 0x40000\<rparr>"

lemma bit_7: "bit (7 :: int) n \<longleftrightarrow> n < 3"
proof -
  have m: "(7 :: int) = mask 3" by (simp add: mask_eq_exp_minus_1)
  show ?thesis unfolding m by (simp only: bit_mask_iff) simp
qed

lemma demo_used: "f < 64 \<Longrightarrow> frame_used demo_phys f \<longleftrightarrow> f < 3"
proof -
  assume f: "f < 64"
  have "f div 8 = 0 \<or> 0xffff800000001000 + of_nat (f div 8) \<noteq> (0xffff800000001000 :: u64)"
    using f by (simp only: add_cancel_left_right) (auto simp: word_unat_eq_iff unat_of_nat)
  then show ?thesis
    using f by (auto simp: frame_used_def bitmap_cell_def demo_phys_def bit_load64 bit_7 div_eq_0_iff)
qed

lemma demo_alloc_wf: "alloc_wf demo_phys" and demo_phys_wf: "phys_wf demo_phys"
  using demo_used [of 0]
  by (simp_all add: alloc_wf_def phys_wf_def covered_def demo_phys_def aligned_def)

lemma demo_covered [simp]: "covered demo_phys = 64"
  by (simp add: covered_def demo_phys_def)

section \<open>Properties\<close>

text \<open>C1: \<open>phys_alloc\<close> returns the lowest free page frame and marks exactly that frame as used,
  writing no byte outside the bitmap; when no scanned frame is free it returns 0 and leaves the state as
  it was.\<close>

theorem phys_alloc_correct:
  assumes "phys_wf s" and "frame_used s 0"
  shows "case phys_alloc s of (a, s') \<Rightarrow>
           if \<forall>f<covered s. frame_used s f then a = 0 \<and> s' = s
           else a \<noteq> 0 \<and> aligned 4096 a \<and> frame_of a < covered s \<and> \<not> frame_used s (frame_of a) \<and>
                (\<forall>g<frame_of a. frame_used s g) \<and> only_mem s s' \<and>
                (\<forall>x. \<not> in_bitmap s x \<longrightarrow> mem s' x = mem s x) \<and>
                (\<forall>f<2 ^ 52. frame_used s' f \<longleftrightarrow> f = frame_of a \<or> frame_used s f)"
  using assms(1)
proof (cases rule: phys_alloc_cases)
  case (frame f)
  have "f < 2 ^ 52" using frame_bound [OF assms(1) frame(1)] by simp
  moreover have "f \<noteq> 0" using assms(2) frame(2) by metis
  ultimately show ?thesis
    using frame assms mark_used_mem [OF assms(1), of "frame_addr f"]
    by (auto simp: frame_addr_eq_0 aligned_frame_addr frame_used_mark_used phys_wf_def)
qed simp

theorem phys_alloc_correct_witness:
  "phys_wf demo_phys \<and> frame_used demo_phys 0 \<and>
   (case phys_alloc demo_phys of (a, s') \<Rightarrow>
      if \<forall>f<covered demo_phys. frame_used demo_phys f then a = 0 \<and> s' = demo_phys
      else a \<noteq> 0 \<and> aligned 4096 a \<and> frame_of a < covered demo_phys \<and>
           \<not> frame_used demo_phys (frame_of a) \<and> (\<forall>g<frame_of a. frame_used demo_phys g) \<and>
           only_mem demo_phys s' \<and> (\<forall>x. \<not> in_bitmap demo_phys x \<longrightarrow> mem s' x = mem demo_phys x) \<and>
           (\<forall>f<2 ^ 52. frame_used s' f \<longleftrightarrow> f = frame_of a \<or> frame_used demo_phys f))"
proof -
  have z: "frame_used demo_phys 0" using demo_used [of 0] by simp
  show ?thesis using phys_alloc_correct [OF demo_phys_wf z] demo_phys_wf z by blast
qed



text \<open>C16: Repeated allocations hand out different frames, all free before, as many as were asked for
  while free frames last.\<close>

theorem phys_alloc_distinct:
  assumes "alloc_wf s"
  shows "case alloc_many alloc_frame n s of (fs, s') \<Rightarrow>
           distinct fs \<and> set fs \<subseteq> free_frames s \<and> free_frames s' = free_frames s - set fs \<and>
           length fs = min n (card (free_frames s))"
  using pa.alloc_many_spec [OF assms, of n] by (auto split: prod.split)

theorem phys_alloc_distinct_witness:
  "alloc_wf demo_phys \<and> (case alloc_many alloc_frame 2 demo_phys of (fs, s') \<Rightarrow>
     distinct fs \<and> set fs \<subseteq> free_frames demo_phys \<and>
     free_frames s' = free_frames demo_phys - set fs \<and>
     length fs = min 2 (card (free_frames demo_phys)))"
  using phys_alloc_distinct [OF demo_alloc_wf, of 2] demo_alloc_wf by simp

text \<open>C17: Freeing a page right after it was allocated restores the whole state, bit for bit.\<close>

theorem phys_alloc_free_roundtrip:
  assumes "phys_wf s" and "fst (phys_alloc s) \<noteq> 0"
  shows "phys_free (fst (phys_alloc s)) (snd (phys_alloc s)) = s"
  using assms(1)
proof (cases rule: phys_alloc_cases)
  case (frame f)
  then have "f < 2 ^ 52" using frame_bound [OF assms(1)] by fastforce
  with frame show ?thesis by (simp add: phys_free_eq mark_used_unused)
next
  case full
  with assms(2) show ?thesis by simp
qed

theorem phys_alloc_free_roundtrip_witness:
  "phys_wf demo_phys \<and> fst (phys_alloc demo_phys) \<noteq> 0 \<and>
   phys_free (fst (phys_alloc demo_phys)) (snd (phys_alloc demo_phys)) = demo_phys"
proof -
  have "fst (phys_alloc demo_phys) \<noteq> 0"
    using demo_phys_wf
  proof (cases rule: phys_alloc_cases)
    case (frame f)
    then have "f \<noteq> 0" using demo_used [of 0] by (cases "f = 0") auto
    with frame show ?thesis by (simp add: frame_addr_eq_0)
  next
    case full
    then show ?thesis using full(1) [of 5] demo_used [of 5] by simp
  qed
  with phys_alloc_free_roundtrip [OF demo_phys_wf this] demo_phys_wf show ?thesis by simp
qed

text \<open>C18: \<open>phys_alloc_region\<close> returns, and its result is the first run of free pages that starts in
  the address space, now marked used and nothing else; 0 with an unchanged state means that
  there is no such run.\<close>

theorem phys_alloc_region_correct:
  assumes "phys_wf s" and "iters PHYS_PAGE_SIZE len * 4096 < 2 ^ 64"
    and "unat (s_phys_addr_space_size s) + iters PHYS_PAGE_SIZE len * 4096 \<le> 2 ^ 64"
  shows "\<exists>a s'. phys_alloc_region len s = Inr (a, s') \<and>
    ((aligned 4096 a \<and> a < s_phys_addr_space_size s \<and>
      (\<forall>f\<in>region_frames a len. \<not> frame_used s f) \<and>
      (\<forall>h<frame_of a. \<not> free_run s (iters PHYS_PAGE_SIZE len) h) \<and> only_mem s s' \<and>
      (\<forall>f<2 ^ 52. frame_used s' f \<longleftrightarrow> f \<in> region_frames a len \<or> frame_used s f)) \<or>
     (a = 0 \<and> s' = s \<and>
      (\<forall>g. g * 4096 < unat (s_phys_addr_space_size s) \<longrightarrow> \<not> free_run s (iters PHYS_PAGE_SIZE len) g)))"
proof -
  have z: "frame_addr 0 = 0" by (simp add: frame_addr_def)
  consider (found) g where "g < 2 ^ 52" "unat (frame_addr g) < unat (s_phys_addr_space_size s)"
      "free_run s (iters PHYS_PAGE_SIZE len) g" "\<forall>h<g. \<not> free_run s (iters PHYS_PAGE_SIZE len) h"
      "phys_alloc_region_from 0 len s =
         Some (bindk (phys_mark_region_used (frame_addr g) len s) (\<lambda>_ s'. Inr (frame_addr g, s')))"
    | (none) "\<forall>g. g * 4096 < unat (s_phys_addr_space_size s) \<longrightarrow> \<not> free_run s (iters PHYS_PAGE_SIZE len) g"
      "phys_alloc_region_from 0 len s = Some (Inr (0, s))"
    using phys_alloc_region_from_spec [OF assms(3,2), of 0] unfolding z by auto
  then show ?thesis
  proof cases
    case found
    have ok: "region_ok (frame_addr g) len" using assms(2,3) found(2) by (simp add: region_ok_def)
    obtain s' where s': "phys_mark_region_used (frame_addr g) len s = Inr ((), s')" "only_mem s s'"
      "\<forall>f<2 ^ 52. frame_used s' f \<longleftrightarrow> (if f \<in> region_frames (frame_addr g) len then True else frame_used s f)"
      using phys_mark_region_used_spec [OF assms(1) ok] by blast
    have "\<not> frame_used s f" if "f \<in> region_frames (frame_addr g) len" for f
      using found(1,3) that by (auto simp: region_frames_def free_run_def)
        (metis add_diff_inverse_nat less_diff_conv2 linorder_not_le add.commute)
    then show ?thesis
      using found s' by (intro exI [of _ "frame_addr g"] exI [of _ s'])
        (simp add: phys_alloc_region_def aligned_frame_addr word_less_nat_alt)
  next
    case none
    then show ?thesis by (simp add: phys_alloc_region_def)
  qed
qed

theorem phys_alloc_region_correct_witness:
  "phys_wf demo_phys \<and>
   (\<exists>a s'. phys_alloc_region 0x3000 demo_phys = Inr (a, s') \<and>
     ((aligned 4096 a \<and> a < s_phys_addr_space_size demo_phys \<and>
       (\<forall>f\<in>region_frames a 0x3000. \<not> frame_used demo_phys f) \<and>
       (\<forall>h<frame_of a. \<not> free_run demo_phys (iters PHYS_PAGE_SIZE 0x3000) h) \<and> only_mem demo_phys s' \<and>
       (\<forall>f<2 ^ 52. frame_used s' f \<longleftrightarrow> f \<in> region_frames a 0x3000 \<or> frame_used demo_phys f)) \<or>
      (a = 0 \<and> s' = demo_phys \<and>
       (\<forall>g. g * 4096 < unat (s_phys_addr_space_size demo_phys) \<longrightarrow>
            \<not> free_run demo_phys (iters PHYS_PAGE_SIZE 0x3000) g))))"
proof -
  have "iters PHYS_PAGE_SIZE 0x3000 * 4096 < 2 ^ 64"
    "unat (s_phys_addr_space_size demo_phys) + iters PHYS_PAGE_SIZE 0x3000 * 4096 \<le> 2 ^ 64"
    by (simp_all add: iters_page demo_phys_def)
  with phys_alloc_region_correct [OF demo_phys_wf this] demo_phys_wf show ?thesis by blast
qed

text \<open>Freeing a region clears exactly the bits of its pages, so freeing what
  \<open>phys_alloc_region\<close> marked gives every frame its former state back.\<close>

lemma phys_region_undo:
  assumes "phys_wf s" and "region_ok addr len" and "\<forall>f\<in>region_frames addr len. \<not> frame_used s f"
  shows "\<exists>t u. phys_mark_region_used addr len s = Inr ((), t) \<and> phys_free_region addr len t = Inr ((), u) \<and>
           (\<forall>f<2 ^ 52. frame_used u f \<longleftrightarrow> frame_used s f) \<and> only_mem s u"
proof -
  obtain t where t: "phys_mark_region_used addr len s = Inr ((), t)" "only_mem s t"
    "\<forall>f<2 ^ 52. frame_used t f \<longleftrightarrow> (if f \<in> region_frames addr len then True else frame_used s f)"
    using phys_mark_region_used_spec [OF assms(1,2)] by blast
  have "phys_wf t" using assms(1) only_mem_fields [OF t(2)] by (simp add: phys_wf_def covered_def)
  then obtain u where u: "phys_free_region addr len t = Inr ((), u)" "only_mem t u"
    "\<forall>f<2 ^ 52. frame_used u f \<longleftrightarrow> (if f \<in> region_frames addr len then False else frame_used t f)"
    using phys_mark_region_unused_spec [OF _ assms(2)] unfolding phys_free_region_eq by blast
  show ?thesis
    using t u assms(3) only_mem_trans [OF t(2) u(2)] by (intro exI [of _ t] exI [of _ u]) auto
qed

text \<open>C8: \<open>phys_init\<close> returns with a bitmap in which a page frame of the address space is used exactly
  when it is frame 0, holds the bitmap, or lies in no usable entry of the memory map; every byte of the
  bitmap that the allocator scans lies in a frame in use, so no page it hands out overlaps the bitmap.\<close>

theorem phys_init_correct:
  assumes "limine_data_hhdm_get_offset b = Some off" and "limine_data_get_memmap_response b = Some es"
    and "memmap_ok es" and "aligned 4096 off"
    and "find_bitmap_base es (memmap_bitmap_size es) = Some base" and "base + off \<noteq> 0"
  shows "\<exists>s'. phys_init b s = Inr ((), s') \<and> alloc_wf s' \<and>
           s_phys_addr_space_size s' = memmap_top es \<and> s_phys_bitmap s' = base + off \<and>
           (\<forall>f. f * 4096 < unat (memmap_top es) \<longrightarrow>
              (frame_used s' f \<longleftrightarrow>
                 f = 0 \<or> f \<in> region_frames base (memmap_bitmap_size es * 8) \<or> f \<notin> usable_frames es)) \<and>
           (\<forall>x. in_bitmap s' x \<longrightarrow> frame_used s' (frame_of (x - s_phys_hhdm_offset s')))"
proof -
  obtain s' where s': "phys_init b s = Inr ((), s')" "phys_wf s'"
    "only_mem (s\<lparr>s_phys_hhdm_offset := off, s_phys_addr_space_size := memmap_top es,
               s_phys_bitmap_size := memmap_bitmap_size es, s_phys_bitmap := base + off\<rparr>) s'"
    "\<forall>f < 8 * unat (memmap_bitmap_size es). frame_used s' f \<longleftrightarrow>
       f = 0 \<or> f \<in> region_frames base (memmap_bitmap_size es * 8) \<or> f \<notin> usable_frames es"
    "\<forall>f<2 ^ 52. f = 0 \<or> f \<in> region_frames base (memmap_bitmap_size es * 8) \<longrightarrow> frame_used s' f"
    using phys_init_spec [OF assms] by blast
  moreover have "frame_used s' 0" using s'(5) [rule_format, of 0] by simp
  moreover have "frame_used s' (frame_of (x - s_phys_hhdm_offset s'))" if "in_bitmap s' x" for x
    using that bitmap_bytes_reserved [OF assms(3,5)] only_mem_fields [OF s'(3)] s'(5) frame_of_lt
    by (simp add: in_bitmap_def)
  ultimately show ?thesis
    using only_mem_fields [OF s'(3)] bitmap_reaches_top [OF assms(3)]
    by (intro exI [of _ s']) (simp add: alloc_wf_def)
qed

definition demo_params :: flanterm_params where
  "demo_params = \<lparr>fp_canvas = 0, fp_ansi_colours = 0, fp_ansi_bright_colours = 0, fp_default_bg_bright = 0,
     fp_default_fg_bright = 0, fp_font = 0, fp_font_width = 8, fp_font_height = 16, fp_font_spacing = 1,
     fp_font_scale_x = 1, fp_font_scale_y = 1, fp_margin = 0, fp_rotation = 0\<rparr>"

definition demo_boot :: boot_info where
  "demo_boot = \<lparr>base_revision_supported = True, framebuffer_response = Some [],
     flanterm_response = Some [demo_params], hhdm_response = Some demo_hhdm,
     memmap_response = Some [\<lparr>me_base = 0, me_length = 0x40000, me_type = LIMINE_MEMMAP_USABLE\<rparr>],
     paging_mode_response = Some 0, module_response = Some [], executable_address_response = None,
     rsdp_response = None\<rparr>"

definition demo_map :: "memmap_entry list" where
  "demo_map = [\<lparr>me_base = 0, me_length = 0x40000, me_type = LIMINE_MEMMAP_USABLE\<rparr>]"

lemma demo_map_ok:
  "limine_data_hhdm_get_offset demo_boot = Some demo_hhdm"
  "limine_data_get_memmap_response demo_boot = Some demo_map"
  "memmap_ok demo_map" "aligned 4096 demo_hhdm"
  "find_bitmap_base demo_map (memmap_bitmap_size demo_map) = Some 0x1000"
  "0x1000 + demo_hhdm \<noteq> 0"
  by (simp_all add: demo_boot_def demo_map_def limine_data_hhdm_get_offset_def
      limine_data_get_memmap_response_def memmap_ok_def usable_def demo_hhdm_def aligned_def
      memmap_bitmap_size_def memmap_top_def ceildivu64_def kernel_defs)

theorem phys_init_correct_witness:
  "\<exists>s'. phys_init demo_boot demo_phys = Inr ((), s') \<and> alloc_wf s' \<and>
     s_phys_addr_space_size s' = memmap_top demo_map \<and> s_phys_bitmap s' = 0x1000 + demo_hhdm \<and>
     (\<forall>f. f * 4096 < unat (memmap_top demo_map) \<longrightarrow>
        (frame_used s' f \<longleftrightarrow>
           f = 0 \<or> f \<in> region_frames 0x1000 (memmap_bitmap_size demo_map * 8) \<or> f \<notin> usable_frames demo_map)) \<and>
     (\<forall>x. in_bitmap s' x \<longrightarrow> frame_used s' (frame_of (x - s_phys_hhdm_offset s')))"
  by (rule phys_init_correct [OF demo_map_ok])

text \<open>When no usable region is big enough for the bitmap, \<open>phys_init\<close> logs the error and halts.\<close>

theorem phys_init_no_room:
  assumes "limine_data_hhdm_get_offset b = Some off" and "limine_data_get_memmap_response b = Some es"
    and "es \<noteq> []" and "find_bitmap_base es (memmap_bitmap_size es) = None" and "s_phys_bitmap s = 0"
  shows "\<exists>s'. phys_init b s = Inl (Hcf s') \<and> mem s' = mem s \<and>
           klogs s' = klogs s @ [Klog LL_ERROR
             ''Failed to find a memory region big enough to hold the physical memory map!'' []]"
  using assms
  by (simp add: phys_init_def Let_def hcf_def memmap_top_def [symmetric]
      memmap_bitmap_size_def [symmetric])

theorem phys_init_no_room_witness:
  "\<exists>s'. phys_init (demo_boot\<lparr>memmap_response :=
        Some [\<lparr>me_base = 0, me_length = 0x40000, me_type = LIMINE_MEMMAP_RESERVED\<rparr>]\<rparr>)
      (demo_phys\<lparr>s_phys_bitmap := 0\<rparr>) = Inl (Hcf s') \<and>
     mem s' = mem (demo_phys\<lparr>s_phys_bitmap := 0\<rparr>) \<and>
     klogs s' = klogs (demo_phys\<lparr>s_phys_bitmap := 0\<rparr>) @ [Klog LL_ERROR
       ''Failed to find a memory region big enough to hold the physical memory map!'' []]"
  by (rule phys_init_no_room [of _ demo_hhdm
        "[\<lparr>me_base = 0, me_length = 0x40000, me_type = LIMINE_MEMMAP_RESERVED\<rparr>]"])
    (simp_all add: limine_data_hhdm_get_offset_def limine_data_get_memmap_response_def demo_boot_def)

text \<open>C19: The allocator scans eight times as many frames as the address space has, because it takes
  the bitmap's size in bytes for its number of 64-bit entries: once every frame of the address
  space is used, a clear bit in the part of memory behind the bitmap is handed out as an
  address beyond the end of the address space.\<close>

theorem phys_alloc_beyond_address_space:
  assumes "phys_wf s"
    and "s_phys_bitmap_size s = ceildivu64 (s_phys_addr_space_size s) (PHYS_PAGE_SIZE * BITS_PER_BYTE)"
    and "\<forall>f. f * 4096 < unat (s_phys_addr_space_size s) \<longrightarrow> frame_used s f"
    and "g < covered s" and "\<not> frame_used s g"
  shows "8 * unat (s_phys_addr_space_size s) \<le> covered s * 4096 \<and>
         unat (s_phys_addr_space_size s) \<le> unat (fst (phys_alloc s))"
proof
  have "unat (PHYS_PAGE_SIZE * BITS_PER_BYTE) = 32768" by (simp add: kernel_defs)
  then have "unat (s_phys_bitmap_size s) = (unat (s_phys_addr_space_size s) + 32767) div 32768"
    using unat_ceildiv [of "PHYS_PAGE_SIZE * BITS_PER_BYTE"] assms(2) by simp
  then show "8 * unat (s_phys_addr_space_size s) \<le> covered s * 4096"
    unfolding covered_def by linarith
  show "unat (s_phys_addr_space_size s) \<le> unat (fst (phys_alloc s))"
    using assms(1)
  proof (cases rule: phys_alloc_cases)
    case (frame f)
    then have "f < 2 ^ 52" using frame_bound [OF assms(1)] by fastforce
    moreover have "\<not> f * 4096 < unat (s_phys_addr_space_size s)" using assms(3) frame(2) by blast
    ultimately show ?thesis using frame by (simp add: unat_frame_addr)
  next
    case full
    then show ?thesis using assms(4,5) by blast
  qed
qed

definition demo_full :: phys where
  "demo_full = demo_phys\<lparr>mem := (\<lambda>a. if unat (a - 0xffff800000001000) < 8 then 255 else 0),
     s_phys_bitmap_size := 8\<rparr>"

lemma demo_full_used: "f < 64 \<Longrightarrow> frame_used demo_full f" "\<not> frame_used demo_full 64"
proof -
  have bm: "s_phys_bitmap demo_full = 0xffff800000001000"
    and m: "mem demo_full = (\<lambda>a. if unat (a - 0xffff800000001000) < 8 then 255 else 0)"
    by (simp_all add: demo_full_def demo_phys_def)
  show "frame_used demo_full f" if f: "f < 64"
  proof -
    have "mem demo_full (0xffff800000001000 + of_nat (f div 8)) = 255"
      using f by (simp add: m unat_of_nat)
    moreover have "bit (255 :: u8) (f mod 8)" by (rule bit_all_ones_byte) simp
    ultimately have "bit (mem demo_full (0xffff800000001000 + of_nat (f div 8))) (f mod 8)"
      by (simp only:)
    then show ?thesis using f by (simp add: frame_used_def bitmap_cell_def bm bit_load64)
  qed
  show "\<not> frame_used demo_full 64"
    by (simp add: frame_used_def bitmap_cell_def bm bit_load64 m)
qed

theorem phys_alloc_beyond_address_space_witness:
  "8 * unat (s_phys_addr_space_size demo_full) \<le> covered demo_full * 4096 \<and>
   unat (s_phys_addr_space_size demo_full) \<le> unat (fst (phys_alloc demo_full))"
proof (rule phys_alloc_beyond_address_space [where g = 64])
  have space: "s_phys_addr_space_size demo_full = 0x40000" "s_phys_bitmap_size demo_full = 8"
    "s_phys_bitmap demo_full = 0xffff800000001000"
    by (simp_all add: demo_full_def demo_phys_def)
  show "phys_wf demo_full" by (simp add: phys_wf_def covered_def space aligned_def)
  show "s_phys_bitmap_size demo_full =
      ceildivu64 (s_phys_addr_space_size demo_full) (PHYS_PAGE_SIZE * BITS_PER_BYTE)"
    by (simp add: space ceildivu64_def kernel_defs)
  show "\<forall>f. f * 4096 < unat (s_phys_addr_space_size demo_full) \<longrightarrow> frame_used demo_full f"
    using demo_full_used(1) by (simp add: space)
  show "64 < covered demo_full" by (simp add: covered_def space)
  show "\<not> frame_used demo_full 64" by (rule demo_full_used(2))
qed

end
