(* ===== verification/VirtSpec.thy ===== *)
theory VirtSpec
  imports Virt PhysProps
begin

text \<open>
  The page tables as a tree. A path is the list of table indices from the top level down, the last
  one first; \<open>tbl\<close> follows it through memory. The invariant says that the tables are distinct
  pages, in use according to the page allocator, apart from its bitmap; the lemmas say what adding
  a table and writing an entry do to the tree.
\<close>

section \<open>Following a path\<close>

definition next_table :: "u64 \<Rightarrow> u64 \<Rightarrow> u64" where
  "next_table h e = (e AND ENTRY_PHYS_ADDR_MASK) + h"

fun tbl :: "mem \<Rightarrow> u64 \<Rightarrow> u64 \<Rightarrow> u64 list \<Rightarrow> u64 option" where
  "tbl m h root [] = Some root"
| "tbl m h root (i # p) =
     (case tbl m h root p of
        None \<Rightarrow> None
      | Some t \<Rightarrow> let e = load64 m (t + 8 * i) in if e = 0 then None else Some (next_table h e))"

definition valid_path :: "u64 list \<Rightarrow> bool" where
  "valid_path p \<longleftrightarrow> length p \<le> 3 \<and> (\<forall>i\<in>set p. i < 512)"

lemma valid_path_simps [simp]:
  "valid_path []"
  "valid_path (i # p) \<longleftrightarrow> i < 512 \<and> valid_path p \<and> length p \<le> 2"
  by (auto simp: valid_path_def)

text \<open>Adding a zeroed table \<open>tn\<close> under an empty entry changes the tree at that one path only.\<close>

lemma tbl_extend:
  assumes p0: "tbl m h root p0 = Some t0" "load64 m (t0 + 8 * i0) = 0"
    and same: "\<And>p t i. valid_path p \<Longrightarrow> tbl m h root p = Some t \<Longrightarrow> i < 512 \<Longrightarrow> (p, i) \<noteq> (p0, i0) \<Longrightarrow>
                 load64 m' (t + 8 * i) = load64 m (t + 8 * i)"
    and new: "load64 m' (t0 + 8 * i0) \<noteq> 0" "next_table h (load64 m' (t0 + 8 * i0)) = tn"
    and zero: "\<And>i. i < 512 \<Longrightarrow> load64 m' (tn + 8 * i) = 0"
  shows "valid_path q \<Longrightarrow> tbl m' h root q = (if q = i0 # p0 then Some tn else tbl m h root q)"
proof (induction q)
  case (Cons i p)
  then have IH: "tbl m' h root p = (if p = i0 # p0 then Some tn else tbl m h root p)"
    and i: "i < 512" and p: "valid_path p" by simp_all
  show ?case
  proof (cases "p = i0 # p0")
    case True
    then show ?thesis using IH p0 zero [OF i] by simp
  next
    case False
    show ?thesis
    proof (cases "tbl m h root p")
      case None
      then show ?thesis using IH False p0(1) by auto
    next
      case (Some t)
      show ?thesis
      proof (cases "p = p0 \<and> i = i0")
        case True
        then show ?thesis using IH False p0(1) new by simp
      next
        case F: False
        have eq: "load64 m' (t + 8 * i) = load64 m (t + 8 * i)" by (rule same [OF p Some i]) (use F in simp)
        show ?thesis using IH False Some F by (auto simp: eq)
      qed
    qed
  qed
qed simp

text \<open>Writes that leave the entries of the upper three levels alone leave the tree alone.\<close>

lemma tbl_same:
  assumes "\<And>p t i. valid_path p \<Longrightarrow> length p \<le> 2 \<Longrightarrow> tbl m h root p = Some t \<Longrightarrow> i < 512 \<Longrightarrow>
             load64 m' (t + 8 * i) = load64 m (t + 8 * i)"
  shows "valid_path q \<Longrightarrow> tbl m' h root q = tbl m h root q"
  by (induction q) (auto simp: assms split: option.split)

section \<open>Addresses and their indices\<close>

definition i4 :: "u64 \<Rightarrow> u64" where [kernel_defs]: "i4 va = virt_index VIRT_PML4_INDEX_OFFSET va"
definition i3 :: "u64 \<Rightarrow> u64" where [kernel_defs]: "i3 va = virt_index VIRT_PDPT_INDEX_OFFSET va"
definition i2 :: "u64 \<Rightarrow> u64" where [kernel_defs]: "i2 va = virt_index VIRT_PD_INDEX_OFFSET va"
definition i1 :: "u64 \<Rightarrow> u64" where [kernel_defs]: "i1 va = virt_index VIRT_PT_INDEX_OFFSET va"

lemma index_mask: "VIRT_INDEX_MASK = mask 9"
  by (simp add: kernel_defs mask_eq_exp_minus_1)

lemma virt_index_eq: "virt_index off va = take_bit 9 (drop_bit off va)"
  by (simp add: virt_index_def index_mask take_bit_eq_mask)

lemma virt_index_less [simp]: "virt_index off va < 512"
proof -
  have "unat (virt_index off va) < 512"
    unfolding virt_index_eq using take_bit_nat_less_exp [of 9 "unat (drop_bit off va)"]
    by (simp add: unsigned_take_bit_eq)
  then show ?thesis by (simp add: word_less_nat_alt)
qed

lemma index_less [simp]: "i4 va < 512" "i3 va < 512" "i2 va < 512" "i1 va < 512"
  by (simp_all add: i4_def i3_def i2_def i1_def)

definition pt_path :: "u64 \<Rightarrow> u64 list" where
  "pt_path va = [i2 va, i3 va, i4 va]"

lemma valid_pt_path [simp]: "valid_path (pt_path va)"
  by (simp add: pt_path_def)

text \<open>The virtual page number: the 36 bits of an address that the walk looks at.\<close>

definition vpn :: "u64 \<Rightarrow> u64" where
  "vpn va = take_bit 36 (drop_bit 12 va)"

lemma bit_vpn: "bit (vpn va) n \<longleftrightarrow> n < 36 \<and> bit va (n + 12)"
  by (auto simp: vpn_def bit_simps add.commute dest: bit_imp_le_length)

lemma bit_virt_index: "bit (virt_index off va) n \<longleftrightarrow> n < 9 \<and> bit va (n + off)"
  by (auto simp: virt_index_eq bit_simps add.commute dest: bit_imp_le_length)

lemma vpn_eq_bits: "vpn a = vpn b \<longleftrightarrow> (\<forall>n. 12 \<le> n \<and> n < 48 \<longrightarrow> bit a n = bit b n)"
proof
  assume asm: "vpn a = vpn b"
  show "\<forall>n. 12 \<le> n \<and> n < 48 \<longrightarrow> bit a n = bit b n"
  proof (intro allI impI)
    fix n :: nat assume "12 \<le> n \<and> n < 48"
    then obtain k where "n = k + 12" "k < 36" by (intro that [of "n - 12"]) auto
    then show "bit a n = bit b n" using asm bit_vpn [of a k] bit_vpn [of b k] by simp
  qed
next
  assume "\<forall>n. 12 \<le> n \<and> n < 48 \<longrightarrow> bit a n = bit b n"
  then show "vpn a = vpn b" by (intro bit_word_eqI) (auto simp: bit_vpn)
qed

lemma virt_index_eq_bits:
  "virt_index off a = virt_index off b \<longleftrightarrow> (\<forall>n. off \<le> n \<and> n < off + 9 \<longrightarrow> bit a n = bit b n)"
proof
  assume asm: "virt_index off a = virt_index off b"
  show "\<forall>n. off \<le> n \<and> n < off + 9 \<longrightarrow> bit a n = bit b n"
  proof (intro allI impI)
    fix n :: nat assume "off \<le> n \<and> n < off + 9"
    then obtain k where "n = k + off" "k < 9" by (intro that [of "n - off"]) auto
    then show "bit a n = bit b n" using asm bit_virt_index [of off a k] bit_virt_index [of off b k] by simp
  qed
next
  assume "\<forall>n. off \<le> n \<and> n < off + 9 \<longrightarrow> bit a n = bit b n"
  then show "virt_index off a = virt_index off b" by (intro bit_word_eqI) (auto simp: bit_virt_index)
qed

lemma vpn_eq_iff: "vpn a = vpn b \<longleftrightarrow> i1 a = i1 b \<and> pt_path a = pt_path b"
proof -
  have "(\<forall>n. 12 \<le> n \<and> n < 48 \<longrightarrow> Q n) \<longleftrightarrow>
      (\<forall>n. 12 \<le> n \<and> n < 21 \<longrightarrow> Q n) \<and> (\<forall>n. 21 \<le> n \<and> n < 30 \<longrightarrow> Q n) \<and>
      (\<forall>n. 30 \<le> n \<and> n < 39 \<longrightarrow> Q n) \<and> (\<forall>n. 39 \<le> n \<and> n < 48 \<longrightarrow> Q n)"
    (is "?l \<longleftrightarrow> ?r") for Q :: "nat \<Rightarrow> bool"
  proof
    assume r: ?r
    show ?l
    proof (intro allI impI)
      fix n :: nat assume "12 \<le> n \<and> n < 48"
      then consider "12 \<le> n \<and> n < 21" | "21 \<le> n \<and> n < 30" | "30 \<le> n \<and> n < 39" | "39 \<le> n \<and> n < 48"
        by linarith
      then show "Q n" using r by cases blast+
    qed
  next
    assume ?l
    then show ?r by (intro conjI allI impI) simp_all
  qed
  from this [of "\<lambda>n. bit a n = bit b n"] show ?thesis
    unfolding vpn_eq_bits pt_path_def kernel_defs virt_index_eq_bits list.inject by simp
qed

section \<open>The invariant of an address space\<close>

abbreviation tbl_of :: "'z virt_scheme \<Rightarrow> u64 \<Rightarrow> u64 list \<Rightarrow> u64 option" where
  "tbl_of s root p \<equiv> tbl (mem s) (s_virt_hhdm_offset s) root p"

text \<open>The page frame behind an address of the direct map, and whether it is in use.\<close>

definition pfn :: "'z virt_scheme \<Rightarrow> u64 \<Rightarrow> nat" where
  "pfn s x = frame_of (x - s_virt_hhdm_offset s)"

definition kpage :: "'z virt_scheme \<Rightarrow> u64 \<Rightarrow> bool" where
  "kpage s x \<longleftrightarrow> pfn s x < covered s \<and> frame_used s (pfn s x)"

definition table_page :: "'z virt_scheme \<Rightarrow> u64 \<Rightarrow> bool" where
  "table_page s t \<longleftrightarrow> aligned 4096 t \<and> kpage s t \<and> (\<forall>x. in_bitmap s x \<longrightarrow> page x \<noteq> page t)"

text \<open>
  An entry of a directory (the upper three levels): empty, or present, writable, no big page, and with
  no bit above the physical address. So a walk by the processor meets no obstacle before the last level.
\<close>

definition dir_entry :: "u64 \<Rightarrow> bool" where
  "dir_entry e \<longleftrightarrow> e = 0 \<or> bit e 0 \<and> bit e 1 \<and> \<not> bit e 7 \<and> drop_bit 52 e = 0"

definition vm_inv :: "u64 \<Rightarrow> 'z virt_scheme \<Rightarrow> bool" where
  "vm_inv root s \<longleftrightarrow>
     alloc_wf s \<and>
     aligned 4096 (s_virt_hhdm_offset s) \<and> s_virt_hhdm_offset s \<noteq> 0 \<and>
     unat (s_virt_hhdm_offset s) + covered s * 4096 \<le> 2 ^ 64 \<and>
     (\<forall>x. in_bitmap s x \<longrightarrow> kpage s x) \<and>
     (\<forall>p t. valid_path p \<longrightarrow> tbl_of s root p = Some t \<longrightarrow> table_page s t) \<and>
     (\<forall>p q t. valid_path p \<longrightarrow> valid_path q \<longrightarrow> tbl_of s root p = Some t \<longrightarrow> tbl_of s root q = Some t \<longrightarrow> p = q) \<and>
     (\<forall>p t i. valid_path p \<longrightarrow> length p \<le> 2 \<longrightarrow> tbl_of s root p = Some t \<longrightarrow> i < 512 \<longrightarrow>
        dir_entry (rd64 s (t + 8 * i)))"

text \<open>What an address translates to: the entry of the last level, 0 where a table is missing.\<close>

definition view :: "u64 \<Rightarrow> 'z virt_scheme \<Rightarrow> u64 \<Rightarrow> u64" where
  "view root s va =
     (case tbl_of s root (pt_path va) of None \<Rightarrow> 0 | Some t \<Rightarrow> rd64 s (t + 8 * i1 va))"

lemma view_cong: "vpn x = vpn y \<Longrightarrow> view root s x = view root s y"
  by (simp add: view_def vpn_eq_iff split: option.split)

text \<open>Bytes that belong to someone else: in a page in use, no table and not the bitmap.\<close>

definition kept :: "u64 \<Rightarrow> 'z virt_scheme \<Rightarrow> u64 \<Rightarrow> bool" where
  "kept root s x \<longleftrightarrow> kpage s x \<and> \<not> in_bitmap s x \<and>
     (\<forall>p t. valid_path p \<longrightarrow> tbl_of s root p = Some t \<longrightarrow> page x \<noteq> page t)"

text \<open>Steps that change memory only, and add to the \<open>invlpg\<close> trace.\<close>

definition quiet :: "'z virt_scheme \<Rightarrow> 'z virt_scheme \<Rightarrow> bool" where
  "quiet s s' \<longleftrightarrow> s' = s\<lparr>mem := mem s', invlpgs := invlpgs s'\<rparr> \<and> prefix (invlpgs s) (invlpgs s')"

lemma quietE:
  assumes "quiet s s'"
  obtains m v where "s' = s\<lparr>mem := m, invlpgs := invlpgs s @ v\<rparr>"
  using assms unfolding quiet_def by (auto elim!: prefixE)

lemma quiet_refl [simp]: "quiet s s"
  by (simp add: quiet_def)

lemma quiet_trans: "quiet s t \<Longrightarrow> quiet t u \<Longrightarrow> quiet s u"
  by (elim quietE) (simp add: quiet_def)

lemma quiet_fields:
  assumes "quiet s s'"
  shows "s_phys_bitmap s' = s_phys_bitmap s" and "s_phys_bitmap_size s' = s_phys_bitmap_size s"
    and "s_phys_hhdm_offset s' = s_phys_hhdm_offset s"
    and "s_phys_addr_space_size s' = s_phys_addr_space_size s"
    and "s_virt_hhdm_offset s' = s_virt_hhdm_offset s" and "s_kernel_pdpt_virt s' = s_kernel_pdpt_virt s"
    and "cr3 s' = cr3 s" and "klogs s' = klogs s"
    and "covered s' = covered s" and "in_bitmap s' = in_bitmap s" and "pfn s' = pfn s"
    and "io s' = io s" and "virt.more s' = virt.more s"
  using assms by (auto elim!: quietE simp: covered_def in_bitmap_def pfn_def fun_eq_iff)

text \<open>
  \<open>evolves n root s s'\<close>: from \<open>s\<close> to \<open>s'\<close> the address space keeps its invariant and its tables,
  nobody else's memory changes, and at most \<open>n\<close> free frames are consumed.
\<close>

definition evolves :: "nat \<Rightarrow> u64 \<Rightarrow> 'z virt_scheme \<Rightarrow> 'z virt_scheme \<Rightarrow> bool" where
  "evolves n root s s' \<longleftrightarrow>
     vm_inv root s' \<and> quiet s s' \<and>
     (\<forall>p t. valid_path p \<longrightarrow> tbl_of s root p = Some t \<longrightarrow> tbl_of s' root p = Some t) \<and>
     (\<forall>x. kept root s x \<longrightarrow> mem s' x = mem s x \<and> kept root s' x) \<and>
     free_frames s' \<subseteq> free_frames s \<and> card (free_frames s) \<le> card (free_frames s') + n"

lemma evolves_refl: "vm_inv root s \<Longrightarrow> evolves 0 root s s"
  by (simp add: evolves_def)

lemma evolves_trans:
  assumes "evolves n root s t" and "evolves m root t u"
  shows "evolves (n + m) root s u"
proof -
  note a = assms(1) [unfolded evolves_def] and b = assms(2) [unfolded evolves_def]
  have "quiet s u" using a b quiet_trans [of s t u] by blast
  moreover have "free_frames u \<subseteq> free_frames s" using a b by blast
  moreover have "card (free_frames s) \<le> card (free_frames u) + (n + m)" using a b by linarith
  moreover have "mem u x = mem s x \<and> kept root u x" if "kept root s x" for x
    using a b that by simp
  moreover have "tbl_of u root p = Some v" if "valid_path p" "tbl_of s root p = Some v" for p v
    using a b that by blast
  ultimately show ?thesis using b unfolding evolves_def by blast
qed

lemma evolves_mono: "evolves n root s t \<Longrightarrow> n \<le> m \<Longrightarrow> evolves m root s t"
  by (auto simp: evolves_def)

end
