(* ===== verification/VirtStep.thy ===== *)
theory VirtStep
  imports VirtSpec
begin

text \<open>
  What the two writes of \<open>src/mem/virt.c\<close> do to an address space: linking a fresh, zeroed table
  under an empty entry changes no translation; writing an entry of a last-level table changes the
  translation of the addresses of one page.
\<close>

section \<open>Pages of the direct map\<close>

lemma aligned_add: "n dvd 2 ^ 64 \<Longrightarrow> aligned n a \<Longrightarrow> aligned n b \<Longrightarrow> aligned n (a + b)"
  by (simp add: aligned_def unat_word_ariths dvd_mod)

lemma aligned_minus: "n dvd 2 ^ 64 \<Longrightarrow> aligned n a \<Longrightarrow> aligned n (- a)"
  using unat_sub_cases [of 0 a] by (auto simp: aligned_def intro: dvd_diff_nat)

lemma page_shift:
  assumes "aligned 4096 h" and "page x = page y"
  shows "page (x + h) = page (y + h)"
proof -
  define t where "t = (of_nat (unat x div 4096) * 4096 :: u64)"
  have "unat x div 4096 * 4096 < 2 ^ 64"
    using unat_lt64 [of x] div_times_less_eq_dividend [of "unat x" 4096] by simp
  then have ut: "unat t = unat x div 4096 * 4096"
    unfolding t_def by (simp add: unat_word_ariths unat_of_nat mod_mult_left_eq)
  then have t: "aligned 4096 t" by (simp add: aligned_def)
  moreover have "page x = page t" by (simp add: page_eq_iff ut)
  ultimately have "unat (x - t) < 4096" "unat (y - t) < 4096"
    using same_page_iff [OF t] assms(2) by simp_all
  moreover have th: "aligned 4096 (t + h)" by (rule aligned_add) (simp_all add: t assms(1))
  moreover have "x + h = (t + h) + (x - t)" "y + h = (t + h) + (y - t)" by simp_all
  ultimately show ?thesis using page_offset [OF th] by metis
qed

lemma pfn_page: "pfn s x = unat (page (x - s_virt_hhdm_offset s))"
  by (simp add: pfn_def frame_of_def unat_page)

lemma pfn_eq_iff:
  assumes "aligned 4096 (s_virt_hhdm_offset s)"
  shows "pfn s x = pfn s y \<longleftrightarrow> page x = page y"
proof
  assume "pfn s x = pfn s y"
  then have "page (x - s_virt_hhdm_offset s) = page (y - s_virt_hhdm_offset s)"
    by (simp add: pfn_page word_unat_eq_iff)
  from page_shift [OF assms this] show "page x = page y" by simp
next
  assume "page x = page y"
  from page_shift [OF aligned_minus [OF _ assms] this] show "pfn s x = pfn s y"
    by (simp add: pfn_page)
qed

lemma frame_used_cong:
  assumes "phys_wf s" and "f < covered s" and "s_phys_bitmap s' = s_phys_bitmap s"
    and "\<And>x. in_bitmap s x \<Longrightarrow> mem s' x = mem s x"
  shows "frame_used s' f = frame_used s f"
proof -
  have "rd64 s' (bitmap_cell s (of_nat (f div 64))) = rd64 s (bitmap_cell s (of_nat (f div 64)))"
  proof (rule load64_cong)
    fix k :: nat assume "k < 8"
    then have "in_bitmap s (bitmap_cell s (of_nat (f div 64)) + of_nat k)"
      by (intro cell_in_bitmap [OF assms(1,2)]) (simp add: unat_of_nat)
    then show "mem s' (bitmap_cell s (of_nat (f div 64)) + of_nat k) =
        mem s (bitmap_cell s (of_nat (f div 64)) + of_nat k)" by (rule assms(4))
  qed
  then show ?thesis by (simp add: frame_used_def bitmap_cell_def assms(3))
qed

section \<open>Cells of tables\<close>

lemma index_offset:
  assumes "i < (512 :: u64)"
  shows "unat (8 * i) = 8 * unat i" and "unat (8 * i) < 4096" and "aligned 8 (8 * i)"
proof -
  have "unat i < 512" using assms by (simp add: word_less_nat_alt)
  then show "unat (8 * i) = 8 * unat i" by (simp add: unat_word_ariths)
  with \<open>unat i < 512\<close> show "unat (8 * i) < 4096" "aligned 8 (8 * i)" by (simp_all add: aligned_def)
qed

lemma vm_invD:
  assumes "vm_inv root s"
  shows "alloc_wf s" "phys_wf s" "frame_used s 0" "aligned 4096 (s_virt_hhdm_offset s)" "s_virt_hhdm_offset s \<noteq> 0"
    and "unat (s_virt_hhdm_offset s) + covered s * 4096 \<le> 2 ^ 64"
    and "\<And>x. in_bitmap s x \<Longrightarrow> kpage s x"
    and "\<And>p t. valid_path p \<Longrightarrow> tbl_of s root p = Some t \<Longrightarrow> table_page s t"
    and "\<And>p q t. valid_path p \<Longrightarrow> valid_path q \<Longrightarrow> tbl_of s root p = Some t \<Longrightarrow>
           tbl_of s root q = Some t \<Longrightarrow> p = q"
    and "\<And>p t i. valid_path p \<Longrightarrow> length p \<le> 2 \<Longrightarrow> tbl_of s root p = Some t \<Longrightarrow> i < 512 \<Longrightarrow>
           dir_entry (rd64 s (t + 8 * i))"
  using assms unfolding vm_inv_def alloc_wf_def by blast+

lemma kpage_nonzero:
  assumes "vm_inv root s" and "kpage s t" and "aligned 4096 t" and "unat i < 4096"
  shows "t + i \<noteq> 0"
proof -
  let ?h = "s_virt_hhdm_offset s"
  have "unat (t - ?h) div 4096 < covered s" using assms(2) by (simp add: kpage_def pfn_def frame_of_def)
  then have "unat (t - ?h) < covered s * 4096" by (simp add: less_mult_imp_div_less div_less_iff_less_mult)
  with vm_invD(6) [OF assms(1)] have "unat (?h + (t - ?h)) = unat ?h + unat (t - ?h)"
    by (intro unat_add_no_wrap) linarith
  moreover have "0 < unat ?h" using vm_invD(5) [OF assms(1)] by (simp add: unat_gt_0)
  ultimately have "0 < unat t" by simp
  then have "0 < unat (t + i)" using unat_offset [OF assms(3,4)] by simp
  then show ?thesis by (metis unat_0 less_irrefl)
qed

lemma table_cell:
  assumes "vm_inv root s" and "valid_path p" and "tbl_of s root p = Some t" and "i < 512"
  shows "aligned 8 (t + 8 * i)" and "page (t + 8 * i) = page t" and "t + 8 * i \<noteq> 0"
proof -
  have t: "aligned 4096 t" "kpage s t"
    using vm_invD(8) [OF assms(1-3)] by (simp_all add: table_page_def)
  show "aligned 8 (t + 8 * i)" by (rule aligned_offset) (use t index_offset [OF assms(4)] in simp_all)
  show "page (t + 8 * i) = page t" by (rule page_offset) (use t index_offset [OF assms(4)] in simp_all)
  show "t + 8 * i \<noteq> 0" by (rule kpage_nonzero [OF assms(1)]) (use t index_offset [OF assms(4)] in simp_all)
qed

lemma table_page_eq:
  assumes "vm_inv root s" and "valid_path p" and "tbl_of s root p = Some t"
    and "valid_path q" and "tbl_of s root q = Some u" and "page t = page u"
  shows "p = q" and "t = u"
proof -
  show tu: "t = u"
    using vm_invD(8) [OF assms(1-3)] vm_invD(8) [OF assms(1,4,5)] assms(6)
    by (auto simp: table_page_def intro: aligned_page_inj)
  show "p = q" by (rule vm_invD(9) [OF assms(1,2,4,3)]) (simp add: tu assms(5))
qed

lemma table_cell_inj:
  assumes "vm_inv root s" and "valid_path p" and "tbl_of s root p = Some t" and "i < 512"
    and "valid_path q" and "tbl_of s root q = Some u" and "j < 512"
  shows "t + 8 * i = u + 8 * j \<longleftrightarrow> p = q \<and> i = j"
proof
  assume eq: "t + 8 * i = u + 8 * j"
  then have "page t = page u"
    using table_cell(2) [OF assms(1-4)] table_cell(2) [OF assms(1,5-7)] by simp
  note tu = table_page_eq [OF assms(1-3,5,6) this]
  then have "8 * i = 8 * j" using eq by simp
  then have "unat i = unat j" using index_offset(1) [OF assms(4)] index_offset(1) [OF assms(7)] by simp
  then show "p = q \<and> i = j" using tu by (simp add: word_unat_eq_iff)
qed (use assms(3,6) in simp)

lemma table_cell_bitmap:
  assumes "vm_inv root s" and "valid_path p" and "tbl_of s root p = Some t" and "i < 512" and "k < 8"
  shows "\<not> in_bitmap s (t + 8 * i + of_nat k)"
proof -
  have "page (t + 8 * i + of_nat k) = page t"
    using cell_page [OF table_cell(1) [OF assms(1-4)] assms(5)] table_cell(2) [OF assms(1-4)] by simp
  then show ?thesis using vm_invD(8) [OF assms(1-3)] by (auto simp: table_page_def)
qed


section \<open>A step of an address space\<close>

text \<open>
  The shape of every step: the frames \<open>F\<close> become used, the tables \<open>N\<close> are added, in pages that
  were free.
\<close>

lemma evolvesI:
  assumes inv: "vm_inv root s" and q: "quiet s s'" and fin: "finite F"
    and used: "\<And>f. f < covered s \<Longrightarrow> frame_used s' f \<longleftrightarrow> f \<in> F \<or> frame_used s f"
    and tbls: "\<And>q t. valid_path q \<Longrightarrow> tbl_of s' root q = Some t \<longleftrightarrow> tbl_of s root q = Some t \<or> (q, t) \<in> N"
    and new: "\<And>q t. (q, t) \<in> N \<Longrightarrow>
                aligned 4096 t \<and> pfn s t \<in> F \<and> pfn s t < covered s \<and> \<not> frame_used s (pfn s t)"
    and uniq: "\<And>q t q' t'. (q, t) \<in> N \<Longrightarrow> (q', t') \<in> N \<Longrightarrow> q = q'"
    and big: "\<And>p t i. valid_path p \<Longrightarrow> length p \<le> 2 \<Longrightarrow> tbl_of s' root p = Some t \<Longrightarrow> i < 512 \<Longrightarrow>
                dir_entry (rd64 s' (t + 8 * i))"
    and mem: "\<And>x. kept root s x \<Longrightarrow> mem s' x = mem s x"
  shows "evolves (card F) root s s'"
proof -
  note f = quiet_fields [OF q] and d = vm_invD [OF inv]
  have kp: "kpage s' x \<longleftrightarrow> pfn s x < covered s \<and> (pfn s x \<in> F \<or> frame_used s (pfn s x))" for x
    unfolding kpage_def f using used by blast
  have "table_page s root" by (rule d(8) [of "[]"]) simp_all
  then have "0 < covered s" by (auto simp: table_page_def kpage_def)
  then have wf: "alloc_wf s'" using used [of 0] d(1-3) by (simp add: alloc_wf_def phys_wf_def f)
  have fresh: "page x \<noteq> page t" if "kpage s x" "(q, t) \<in> N" for q x t
    using new [OF that(2)] that(1) pfn_eq_iff [OF d(4), of x t] by (auto simp: kpage_def)
  have tp: "table_page s' t" if "valid_path q" "tbl_of s' root q = Some t" for q t
    using tbls [OF that(1), of t] that(2)
  proof (elim disjE [OF iffD1])
    assume "tbl_of s root q = Some t"
    from d(8) [OF that(1) this] show "table_page s' t"
      by (auto simp: table_page_def kp f) (auto simp: kpage_def)
  next
    assume N: "(q, t) \<in> N"
    then have "page x \<noteq> page t" if "in_bitmap s x" for x using fresh d(7) [OF that] by blast
    then show "table_page s' t" using new [OF N] by (auto simp: table_page_def kp f)
  qed simp
  have inj: "p = q"
    if "valid_path p" "valid_path q" "tbl_of s' root p = Some t" "tbl_of s' root q = Some t" for p q t
  proof -
    have *: "kpage s t" if "valid_path r" "tbl_of s root r = Some t" for r
      using d(8) [OF that] by (simp add: table_page_def)
    have "tbl_of s root p = Some t \<or> (p, t) \<in> N" "tbl_of s root q = Some t \<or> (q, t) \<in> N"
      using that tbls by blast+
    then show ?thesis using d(9) [OF that(1,2)] uniq fresh * that(1,2) by metis
  qed
  have bm: "kpage s' x" if "in_bitmap s x" for x using d(7) [OF that] by (simp add: kp) (simp add: kpage_def)
  have "vm_inv root s'"
    unfolding vm_inv_def f
    using wf d(4-6) bm tp [unfolded f] inj [unfolded f] big [unfolded f]
    by (intro conjI allI impI) blast+
  moreover have "kept root s' x" if "kept root s x" for x
    using that fresh tbls unfolding kept_def kp f by (auto simp: kpage_def)
  moreover have "free_frames s' = free_frames s - F"
    using used by (auto simp: free_frames_def f)
  moreover have "card (free_frames s) \<le> card (free_frames s - F) + card F"
    using diff_card_le_card_Diff [OF fin, of "free_frames s"] by linarith
  ultimately show ?thesis using q tbls mem unfolding evolves_def by auto
qed


section \<open>Writing an entry of a last-level table\<close>

lemma cell_write:
  assumes inv: "vm_inv root s" and p: "valid_path p" "length p = 3" "tbl_of s root p = Some t" and i: "i < 512"
  shows "evolves 0 root s (wr64 (t + 8 * i) v s)"
    and "valid_path q \<Longrightarrow> tbl_of (wr64 (t + 8 * i) v s) root q = tbl_of s root q"
    and "valid_path q \<Longrightarrow> tbl_of s root q = Some u \<Longrightarrow> j < 512 \<Longrightarrow>
           rd64 (wr64 (t + 8 * i) v s) (u + 8 * j) = (if q = p \<and> j = i then v else rd64 s (u + 8 * j))"
proof -
  let ?s = "wr64 (t + 8 * i) v s"
  note d = vm_invD [OF inv] and c = table_cell [OF inv p(1,3) i]
  show rd: "rd64 ?s (u + 8 * j) = (if q = p \<and> j = i then v else rd64 s (u + 8 * j))"
    if "valid_path q" "tbl_of s root q = Some u" "j < 512" for q u j
  proof -
    note inj = table_cell_inj [OF inv that p(1,3) i]
    have "rd64 ?s (u + 8 * j) = (if u + 8 * j = t + 8 * i then v else rd64 s (u + 8 * j))"
      using mem64.load_store [OF table_cell(1) [OF inv that] c(1)] by simp
    then show ?thesis unfolding inj .
  qed
  show tb: "tbl_of ?s root q = tbl_of s root q" if "valid_path q" for q
    unfolding machine.simps virt.simps phys.simps
  proof (simp, rule tbl_same [OF _ that])
    fix r u j assume r: "valid_path r" "length r \<le> 2" "tbl_of s root r = Some u" "j < (512 :: u64)"
    then show "load64 (store64 (mem s) (t + 8 * i) v) (u + 8 * j) = load64 (mem s) (u + 8 * j)"
      using rd [OF r(1,3,4)] p(2) by auto
  qed
  have out: "mem ?s x = mem s x" if "page x \<noteq> page t" for x
    using store64_other_page [OF c(1), of x "mem s" v] that c(2) by simp
  have "evolves (card ({} :: nat set)) root s ?s"
  proof (rule evolvesI [OF inv, where N = "{}"])
    show "quiet s ?s" by (simp add: quiet_def)
    show "frame_used ?s f \<longleftrightarrow> f \<in> {} \<or> frame_used s f" if "f < covered s" for f
    proof -
      have "frame_used ?s f = frame_used s f"
        by (rule frame_used_cong [OF d(2) that])
          (use out d(8) [OF p(1,3)] in \<open>auto simp: table_page_def\<close>)
      then show ?thesis by simp
    qed
    show "dir_entry (rd64 ?s (u + 8 * j))"
      if "valid_path q" "length q \<le> 2" "tbl_of ?s root q = Some u" "j < 512" for q u j
    proof -
      have "tbl_of s root q = Some u" using that(3) tb [OF that(1)] by simp
      then show ?thesis using d(10) [OF that(1,2) _ that(4)] rd [OF that(1) _ that(4)] that(2) p(2) by auto
    qed
    show "mem ?s x = mem s x" if "kept root s x" for x
      using out that p(1,3) unfolding kept_def by blast
  qed (use tb in simp_all)
  then show "evolves 0 root s ?s" by simp
qed

lemma write_pte:
  assumes "vm_inv root s" and "tbl_of s root (pt_path va) = Some t"
  shows "evolves 0 root s (wr64 (t + 8 * i1 va) v s)"
    and "view root (wr64 (t + 8 * i1 va) v s) = (\<lambda>x. if vpn x = vpn va then v else view root s x)"
proof -
  have l: "length (pt_path va) = 3" by (simp add: pt_path_def)
  note c = cell_write [OF assms(1) valid_pt_path l assms(2) index_less(4), where v = v]
  show "evolves 0 root s (wr64 (t + 8 * i1 va) v s)" by (rule c(1))
  show "view root (wr64 (t + 8 * i1 va) v s) = (\<lambda>x. if vpn x = vpn va then v else view root s x)"
  proof
    fix x
    show "view root (wr64 (t + 8 * i1 va) v s) x = (if vpn x = vpn va then v else view root s x)"
      using c(2) [OF valid_pt_path [of x]] c(3) [OF valid_pt_path [of x] _ index_less(4) [of x]] assms(2)
      by (auto simp: view_def vpn_eq_iff split: option.splits)
  qed
qed


section \<open>Entries of tables\<close>

lemma phys_addr_mask: "ENTRY_PHYS_ADDR_MASK = push_bit 12 (mask 41)"
  by (simp add: kernel_defs mask_eq_exp_minus_1)

lemma bit_phys_addr_mask: "bit ENTRY_PHYS_ADDR_MASK n \<longleftrightarrow> 12 \<le> n \<and> n < 53"
  unfolding phys_addr_mask by (simp only: bit_push_bit_iff bit_mask_iff) auto

lemma bit_frame_addr:
  assumes "f < 2 ^ 40"
  shows "bit (frame_addr f) n \<longleftrightarrow> 12 \<le> n \<and> n < 52 \<and> bit f (n - 12)"
proof -
  have "frame_addr f = push_bit 12 (of_nat f)" by (simp add: frame_addr_def push_bit_eq_mult mult.commute)
  moreover have "bit f k \<Longrightarrow> k < 40" for k
    using assms by (metis bit_take_bit_iff take_bit_nat_eq_self_iff)
  then have "bit f (n - 12) \<Longrightarrow> n < 52" by fastforce
  ultimately show ?thesis by (auto simp: bit_push_bit_iff bit_of_nat_iff)
qed

lemma entry_of_frame:
  assumes "f < 2 ^ 40" and "take_bit 12 w = w" and "w AND VF_PD_BIG_PAGE = 0"
  shows "(frame_addr f OR w) AND ENTRY_PHYS_ADDR_MASK = frame_addr f"
    and "(frame_addr f OR w) AND VF_PD_BIG_PAGE = 0"
proof -
  have w: "bit w n \<Longrightarrow> n < 12" for n
    using bit_take_bit_iff [of 12 w n] unfolding assms(2) by simp
  show "(frame_addr f OR w) AND ENTRY_PHYS_ADDR_MASK = frame_addr f"
    by (rule bit_word_eqI) (auto simp: bit_simps bit_phys_addr_mask bit_frame_addr [OF assms(1)] dest: w)
  have b: "VF_PD_BIG_PAGE = push_bit 7 1" by (simp add: kernel_defs)
  have b7: "bit VF_PD_BIG_PAGE n \<Longrightarrow> n = 7" for n
    unfolding b by (simp only: bit_push_bit_iff bit_1_iff) auto
  have "frame_addr f AND VF_PD_BIG_PAGE = 0"
    by (intro bit_word_eqI) (auto simp: bit_and_iff bit_frame_addr [OF assms(1)] dest: b7)
  then show "(frame_addr f OR w) AND VF_PD_BIG_PAGE = 0"
    using assms(3) by (simp add: bit.conj_disj_distrib2)
qed

text \<open>The flags of a directory entry: below bit 12, present and writable, and not \<open>VF_PD_BIG_PAGE\<close>.\<close>

definition dir_flags :: "u64 \<Rightarrow> bool" where
  "dir_flags w \<longleftrightarrow> take_bit 12 w = w \<and> w AND VF_PD_BIG_PAGE = 0 \<and>
     w AND (VF_PD_PRESENT OR VF_PD_WRITABLE) = VF_PD_PRESENT OR VF_PD_WRITABLE"

lemma flag_bits:
  "w AND VF_PD_BIG_PAGE = 0 \<longleftrightarrow> \<not> bit w 7"
  "w AND (VF_PD_PRESENT OR VF_PD_WRITABLE) = VF_PD_PRESENT OR VF_PD_WRITABLE \<longleftrightarrow> bit w 0 \<and> bit w 1"
proof -
  have "VF_PD_BIG_PAGE = 2 ^ 7" by (simp add: kernel_defs)
  then show "w AND VF_PD_BIG_PAGE = 0 \<longleftrightarrow> \<not> bit w 7" by (metis and_exp_eq_0_iff_not_bit)
  have "VF_PD_PRESENT OR VF_PD_WRITABLE = mask 2" by (simp add: kernel_defs mask_eq_exp_minus_1)
  then have "w AND (VF_PD_PRESENT OR VF_PD_WRITABLE) = take_bit 2 w" "VF_PD_PRESENT OR VF_PD_WRITABLE = (mask 2 :: u64)"
    by (simp_all only: take_bit_eq_mask)
  moreover have "take_bit 2 w = mask 2 \<longleftrightarrow> (\<forall>n<2. bit w n)"
  proof
    assume e: "take_bit 2 w = mask 2"
    show "\<forall>n<2. bit w n"
    proof (intro allI impI)
      fix n :: nat assume "n < 2"
      then have "bit (take_bit 2 w) n" by (simp add: e bit_mask_iff)
      then show "bit w n" by (simp add: bit_take_bit_iff)
    qed
  next
    assume "\<forall>n<2. bit w n"
    then show "take_bit 2 w = mask 2" by (intro bit_word_eqI) (auto simp: bit_take_bit_iff bit_mask_iff)
  qed
  ultimately show "w AND (VF_PD_PRESENT OR VF_PD_WRITABLE) = VF_PD_PRESENT OR VF_PD_WRITABLE \<longleftrightarrow> bit w 0 \<and> bit w 1"
    by (simp only: numeral_2_eq_2 All_less_Suc) (auto)
qed

lemma dir_entry_big: "dir_entry e \<Longrightarrow> e AND VF_PD_BIG_PAGE = 0"
  by (auto simp: dir_entry_def flag_bits)

lemma dir_entry_of_frame:
  assumes "f < 2 ^ 40" and "dir_flags w"
  shows "dir_entry (frame_addr f OR w)"
proof -
  have w: "bit w n \<Longrightarrow> n < 12" for n
    using assms(2) bit_take_bit_iff [of 12 w n] by (simp add: dir_flags_def)
  have "drop_bit 52 (frame_addr f OR w) = 0"
    by (rule bit_word_eqI) (auto simp: bit_simps bit_frame_addr [OF assms(1)] dest: w)
  moreover have "bit w 0" "bit w 1" "\<not> bit w 7" using assms(2) unfolding dir_flags_def flag_bits by blast+
  ultimately show ?thesis
    by (auto simp: dir_entry_def bit_or_iff bit_frame_addr [OF assms(1)])
qed

lemma entry_of_frame_inj:
  assumes w: "take_bit 12 w = w" "w AND VF_PD_BIG_PAGE = 0" and "g < 2 ^ 40" and "f < 2 ^ 40"
    and "frame_addr g OR w = frame_addr f OR w"
  shows "g = f"
proof (rule frame_addr_inj)
  show "frame_addr g = frame_addr f"
    using entry_of_frame(1) [OF assms(3) w] entry_of_frame(1) [OF assms(4) w] assms(5) by metis
qed (use assms(3,4) in simp_all)

section \<open>Linking a fresh table\<close>

definition link_table :: "u64 \<Rightarrow> u64 \<Rightarrow> nat \<Rightarrow> 'z virt_scheme \<Rightarrow> 'z virt_scheme" where
  "link_table c v f s =
     (let s1 = phys_mark_used (frame_addr f) s
      in wr64 c v (s1\<lparr>mem := memset (s_phys_to_virt (frame_addr f) s) 0 VIRT_PAGE_SIZE (mem s1)\<rparr>))"

lemma fresh_page:
  assumes "vm_inv root s" and "f < covered s" and "\<not> frame_used s f"
  shows "aligned 4096 (s_phys_to_virt (frame_addr f) s)"
    and "pfn s (s_phys_to_virt (frame_addr f) s) = f"
    and "kpage s x \<Longrightarrow> page x \<noteq> page (s_phys_to_virt (frame_addr f) s)"
proof -
  have f: "f < 2 ^ 52" using frame_bound [OF vm_invD(2) [OF assms(1)] assms(2)] by simp
  show "aligned 4096 (s_phys_to_virt (frame_addr f) s)"
    unfolding s_phys_to_virt_def
    by (rule aligned_add) (simp_all add: aligned_frame_addr [OF f] vm_invD(4) [OF assms(1)])
  show p: "pfn s (s_phys_to_virt (frame_addr f) s) = f"
    using f by (simp add: pfn_def s_phys_to_virt_def)
  show "page x \<noteq> page (s_phys_to_virt (frame_addr f) s)" if "kpage s x"
    using that assms(3) p pfn_eq_iff [OF vm_invD(4) [OF assms(1)], of x "s_phys_to_virt (frame_addr f) s"]
    by (auto simp: kpage_def)
qed

lemma link_table_mem:
  assumes inv: "vm_inv root s" and f: "f < covered s" "\<not> frame_used s f" and c: "aligned 8 c"
    and pc: "page c \<noteq> page (s_phys_to_virt (frame_addr f) s)"
  shows "page x = page (s_phys_to_virt (frame_addr f) s) \<Longrightarrow> mem (link_table c v f s) x = 0"
    and "page x \<noteq> page (s_phys_to_virt (frame_addr f) s) \<Longrightarrow> page x \<noteq> page c \<Longrightarrow>
           mem (link_table c v f s) x = mem (phys_mark_used (frame_addr f) s) x"
    and "page x \<noteq> page (s_phys_to_virt (frame_addr f) s) \<Longrightarrow> \<not> in_bitmap s x \<Longrightarrow> 8 \<le> unat (x - c) \<Longrightarrow>
           mem (link_table c v f s) x = mem s x"
proof -
  let ?t = "s_phys_to_virt (frame_addr f) s"
  note d = vm_invD [OF inv] and fr = fresh_page [OF inv f]
  have lt: "f < 2 ^ 52" using frame_bound [OF d(2) f(1)] by simp
  have inpage: "x - ?t < 4096 \<longleftrightarrow> page x = page ?t"
    using same_page_iff [OF fr(1), of x] by (simp add: word_less_nat_alt)
  note defs = link_table_def Let_def memset_eq VIRT_PAGE_SIZE_def inpage
  show "mem (link_table c v f s) x = 0" if "page x = page ?t"
    using that pc store64_other_page [OF c] by (simp add: defs)
  show "mem (link_table c v f s) x = mem (phys_mark_used (frame_addr f) s) x"
    if "page x \<noteq> page ?t" "page x \<noteq> page c"
    using that store64_other_page [OF c] by (simp add: defs)
  show "mem (link_table c v f s) x = mem s x" if "page x \<noteq> page ?t" "\<not> in_bitmap s x" "8 \<le> unat (x - c)"
    using that mark_used_mem [OF d(2), of "frame_addr f" x] f(1) lt by (simp add: defs store64_def)
qed


text \<open>The entries of the tables after the link.\<close>

lemma link_table_entries:
  assumes inv: "vm_inv root s" and f: "f < covered s" "\<not> frame_used s f"
    and p: "valid_path p" "tbl_of s root p = Some t" "i < 512"
  shows "rd64 (link_table (t + 8 * i) v f s) (t + 8 * i) = v"
    and "valid_path q \<Longrightarrow> tbl_of s root q = Some u \<Longrightarrow> j < 512 \<Longrightarrow> (q, j) \<noteq> (p, i) \<Longrightarrow>
           rd64 (link_table (t + 8 * i) v f s) (u + 8 * j) = rd64 s (u + 8 * j)"
    and "j < 512 \<Longrightarrow> rd64 (link_table (t + 8 * i) v f s) (s_phys_to_virt (frame_addr f) s + 8 * j) = 0"
proof -
  let ?t = "s_phys_to_virt (frame_addr f) s" and ?s = "link_table (t + 8 * i) v f s"
  note c = table_cell [OF inv p] and fr = fresh_page [OF inv f]
  have old: "page u \<noteq> page ?t" if "valid_path q" "tbl_of s root q = Some u" for q u
    using fr(3) vm_invD(8) [OF inv that] by (simp add: table_page_def)
  have pc: "page (t + 8 * i) \<noteq> page ?t" using old [OF p(1,2)] c(2) by simp
  note m = link_table_mem [OF inv f c(1) pc]
  show "rd64 ?s (t + 8 * i) = v" by (simp add: link_table_def Let_def mem64.load_store_same)
  show "rd64 ?s (u + 8 * j) = rd64 s (u + 8 * j)"
    if q: "valid_path q" "tbl_of s root q = Some u" "j < 512" "(q, j) \<noteq> (p, i)"
  proof (rule load64_cong)
    fix k :: nat assume k: "k < 8"
    note cu = table_cell [OF inv q(1-3)]
    have "u + 8 * j \<noteq> t + 8 * i" using table_cell_inj [OF inv q(1-3) p] q(4) by simp
    then have "apart (u + 8 * j) (t + 8 * i)" by (rule aligned_apart [OF cu(1) c(1)])
    from apart_offset [OF this k] have "8 \<le> unat (u + 8 * j + of_nat k - (t + 8 * i))" .
    moreover have "page (u + 8 * j + of_nat k) \<noteq> page ?t"
      using cell_page [OF cu(1) k] cu(2) old [OF q(1,2)] by simp
    ultimately show "mem ?s (u + 8 * j + of_nat k) = mem s (u + 8 * j + of_nat k)"
      using m(3) table_cell_bitmap [OF inv q(1-3) k] by blast
  qed
  show "rd64 ?s (?t + 8 * j) = 0" if j: "j < 512"
  proof -
    have "aligned 8 (?t + 8 * j)" "page (?t + 8 * j) = page ?t"
      using aligned_offset [OF fr(1)] page_offset [OF fr(1)] index_offset [OF j] by simp_all
    then show ?thesis unfolding load64_eq_0_iff using m(1) cell_page by simp
  qed
qed


lemma link_table_used:
  assumes inv: "vm_inv root s" and f: "f < covered s" "\<not> frame_used s f"
    and p: "valid_path p" "tbl_of s root p = Some t" "i < 512" and g: "g < covered s"
  shows "frame_used (link_table (t + 8 * i) v f s) g \<longleftrightarrow> g = f \<or> frame_used s g"
proof -
  let ?s = "link_table (t + 8 * i) v f s" and ?u = "phys_mark_used (frame_addr f) s"
  let ?t = "s_phys_to_virt (frame_addr f) s"
  note d = vm_invD [OF inv] and c = table_cell [OF inv p] and fr = fresh_page [OF inv f]
  have tp: "table_page s t" by (rule d(8) [OF p(1,2)])
  then have pc: "page (t + 8 * i) \<noteq> page ?t" using fr(3) c(2) by (simp add: table_page_def)
  have lt: "f < 2 ^ 52" "g < 2 ^ 52"
    using frame_bound [OF d(2) f(1)] frame_bound [OF d(2) g] by simp_all
  have "frame_used ?s g = frame_used ?u g"
  proof (rule frame_used_cong)
    show "phys_wf ?u" "g < covered ?u" using d(2) g by simp_all
    show "s_phys_bitmap ?s = s_phys_bitmap ?u" by (simp add: link_table_def Let_def)
    fix x assume "in_bitmap ?u x"
    then have x: "in_bitmap s x" by (simp add: in_bitmap_def)
    then have "page x \<noteq> page t" using tp by (simp add: table_page_def)
    moreover have "page x \<noteq> page ?t" by (rule fr(3) [OF d(7) [OF x]])
    ultimately show "mem ?s x = mem ?u x" using link_table_mem(2) [OF inv f c(1) pc] c(2) by simp
  qed
  also have "\<dots> \<longleftrightarrow> g = f \<or> frame_used s g"
    using frame_used_mark_used [OF _ lt(2), of s "frame_addr f"] d(2) lt(1) by (simp add: phys_wf_def)
  finally show ?thesis .
qed

lemma link_table_kept:
  assumes inv: "vm_inv root s" and f: "f < covered s" "\<not> frame_used s f"
    and p: "valid_path p" "tbl_of s root p = Some t" "i < 512" and x: "kept root s x"
  shows "mem (link_table (t + 8 * i) v f s) x = mem s x"
proof -
  note c = table_cell [OF inv p] and fr = fresh_page [OF inv f]
  have "kpage s t" using vm_invD(8) [OF inv p(1,2)] by (simp add: table_page_def)
  then have pc: "page (t + 8 * i) \<noteq> page (s_phys_to_virt (frame_addr f) s)" using fr(3) c(2) by simp
  have px: "page x \<noteq> page (t + 8 * i)" using x p(1,2) c(2) unfolding kept_def by simp
  have "8 \<le> unat (x - (t + 8 * i))"
    using cell_page [OF c(1), of "unat (x - (t + 8 * i))"] px by (auto simp: not_less [symmetric])
  then show ?thesis
    using link_table_mem(3) [OF inv f c(1) pc] fr(3) x by (simp add: kept_def)
qed


lemma quiet_link_table: "quiet s (link_table c v f s)"
  by (simp add: quiet_def link_table_def Let_def phys_mark_used_def)

lemma link_table_tables:
  assumes inv: "vm_inv root s" and f: "f < covered s" "\<not> frame_used s f"
    and p: "valid_path p" "tbl_of s root p = Some t" "i < 512"
    and empty: "rd64 s (t + 8 * i) = 0"
    and w: "take_bit 12 w = w" "w AND VF_PD_BIG_PAGE = 0"
  defines "S \<equiv> link_table (t + 8 * i) (frame_addr f OR w) f s"
  shows "frame_addr f OR w \<noteq> 0"
    and "valid_path q \<Longrightarrow> tbl_of S root q = (if q = i # p then Some (s_phys_to_virt (frame_addr f) s) else tbl_of s root q)"
proof -
  note d = vm_invD [OF inv] and e = link_table_entries [OF inv f p, where v = "frame_addr f OR w", folded S_def]
  have f40: "f < 2 ^ 40" by (rule frame_bound [OF d(2) f(1)])
  note ent = entry_of_frame [OF f40 w]
  have "f \<noteq> 0" using d(3) f(2) by metis
  then have "frame_addr f \<noteq> 0" using frame_addr_eq_0 [of f] f40 by simp
  then show v0: "frame_addr f OR w \<noteq> 0" using ent(1) by auto
  have hS: "s_virt_hhdm_offset S = s_virt_hhdm_offset s"
    unfolding S_def by (rule quiet_fields(5) [OF quiet_link_table])
  show "tbl_of S root q = (if q = i # p then Some (s_phys_to_virt (frame_addr f) s) else tbl_of s root q)" if "valid_path q"
    unfolding hS
  proof (rule tbl_extend [OF p(2) empty _ _ _ _ that])
    show "load64 (mem S) (t + 8 * i) \<noteq> 0" using e(1) v0 by simp
    show "next_table (s_virt_hhdm_offset s) (load64 (mem S) (t + 8 * i)) = s_phys_to_virt (frame_addr f) s"
      by (simp add: next_table_def e(1) ent(1) s_phys_to_virt_def)
  qed (use e in simp_all)
qed

lemma link_table_step:
  assumes inv: "vm_inv root s" and f: "f < covered s" "\<not> frame_used s f"
    and p: "valid_path p" "tbl_of s root p = Some t" "i < 512" and len: "length p \<le> 2"
    and empty: "rd64 s (t + 8 * i) = 0" and dir: "dir_flags w"
  defines "S \<equiv> link_table (t + 8 * i) (frame_addr f OR w) f s"
  shows "evolves 1 root s S" and "view root S = view root s"
    and "rd64 S (t + 8 * i) = frame_addr f OR w" and "frame_addr f OR w \<noteq> 0"
    and "tbl_of S root (i # p) = Some (s_phys_to_virt (frame_addr f) s)"
proof -
  let ?tn = "s_phys_to_virt (frame_addr f) s"
  note d = vm_invD [OF inv] and fr = fresh_page [OF inv f]
  note e = link_table_entries [OF inv f p, where v = "frame_addr f OR w", folded S_def]
  have w: "take_bit 12 w = w" "w AND VF_PD_BIG_PAGE = 0" using dir by (simp_all only: dir_flags_def)
  note tb = link_table_tables(2) [OF inv f p empty w, folded S_def]
  have none: "tbl_of s root (i # p) = None" using p(2) empty by simp
  show "frame_addr f OR w \<noteq> 0" by (rule link_table_tables(1) [OF inv f p empty w])
  show rd: "rd64 S (t + 8 * i) = frame_addr f OR w" by (rule e(1))
  show "tbl_of S root (i # p) = Some ?tn" using tb [of "i # p"] p len by simp
  have "evolves (card {f}) root s S"
  proof (rule evolvesI [OF inv, where N = "{(i # p, ?tn)}"])
    show "quiet s S" unfolding S_def by (rule quiet_link_table)
    show "frame_used S g \<longleftrightarrow> g \<in> {f} \<or> frame_used s g" if "g < covered s" for g
      using link_table_used [OF inv f p that] unfolding S_def by simp
    show "tbl_of S root q = Some u \<longleftrightarrow> tbl_of s root q = Some u \<or> (q, u) \<in> {(i # p, ?tn)}"
      if "valid_path q" for q u using tb [OF that] none by auto
    show "aligned 4096 u \<and> pfn s u \<in> {f} \<and> pfn s u < covered s \<and> \<not> frame_used s (pfn s u)"
      if "(q, u) \<in> {(i # p, ?tn)}" for q u using that fr f by simp
    show "mem S x = mem s x" if "kept root s x" for x
      using link_table_kept [OF inv f p that] unfolding S_def .
    show "dir_entry (rd64 S (u + 8 * j))"
      if q: "valid_path q" "length q \<le> 2" "tbl_of S root q = Some u" "j < 512" for q u j
    proof (cases "q = i # p")
      case True
      then show ?thesis using tb [OF q(1)] q(3) e(3) [OF q(4)] by (simp add: dir_entry_def)
    next
      case False
      then have u: "tbl_of s root q = Some u" using tb [OF q(1)] q(3) by simp
      show ?thesis
        using d(10) [OF q(1,2) u q(4)] e(2) [OF q(1) u q(4)] rd dir_entry_of_frame [OF frame_bound [OF d(2) f(1)] dir] p(2) u
        by (cases "(q, j) = (p, i)") auto
    qed
  qed simp_all
  then show "evolves 1 root s S" by simp
  show "view root S = view root s"
  proof
    fix x
    have "rd64 S (u + 8 * i1 x) = rd64 s (u + 8 * i1 x)" if "tbl_of s root (pt_path x) = Some u" for u
      by (rule e(2) [OF valid_pt_path that index_less(4)]) (use len in \<open>auto simp: pt_path_def\<close>)
    then show "view root S x = view root s x"
      using tb [OF valid_pt_path, of x] none e(3) [OF index_less(4), of x]
      by (auto simp: view_def split: option.splits)
  qed
qed


section \<open>Taking a frame\<close>

lemma mark_used_step:
  assumes inv: "vm_inv root s" and f: "f < covered s" "\<not> frame_used s f"
  shows "evolves 1 root s (phys_mark_used (frame_addr f) s)"
    and "view root (phys_mark_used (frame_addr f) s) = view root s"
    and "valid_path q \<Longrightarrow> tbl_of (phys_mark_used (frame_addr f) s) root q = tbl_of s root q"
    and "\<not> in_bitmap s x \<Longrightarrow> mem (phys_mark_used (frame_addr f) s) x = mem s x"
proof -
  let ?s = "phys_mark_used (frame_addr f) s"
  note d = vm_invD [OF inv]
  have lt: "f < 2 ^ 52" using frame_bound [OF d(2) f(1)] by simp
  have out: "mem ?s x = mem s x" if "\<not> in_bitmap s x" for x
    by (rule mark_used_mem [OF d(2) _ that]) (simp add: frame_of_addr [OF lt] f(1) del: frame_of_addr)
  have rd: "rd64 ?s (t + 8 * i) = rd64 s (t + 8 * i)"
    if "valid_path q" "tbl_of s root q = Some t" "i < 512" for q t i
    by (rule load64_cong) (rule out [OF table_cell_bitmap [OF inv that]])
  have h: "s_virt_hhdm_offset ?s = s_virt_hhdm_offset s" by (simp add: phys_mark_used_def Let_def)
  have tb: "tbl_of ?s root q = tbl_of s root q" if "valid_path q" for q
    unfolding h by (rule tbl_same [OF _ that]) (rule rd)
  have "evolves (card {f}) root s ?s"
  proof (rule evolvesI [OF inv, where N = "{}"])
    show "quiet s ?s" by (simp add: quiet_def phys_mark_used_def Let_def)
    show "frame_used ?s g \<longleftrightarrow> g \<in> {f} \<or> frame_used s g" if "g < covered s" for g
      using frame_used_mark_used [of s g "frame_addr f"] d(2) frame_bound [OF d(2) that] lt
      by (simp add: phys_wf_def)
    show "mem ?s x = mem s x" if "kept root s x" for x using that out by (simp add: kept_def)
    show "dir_entry (rd64 ?s (u + 8 * j))"
      if q: "valid_path q" "length q \<le> 2" "tbl_of ?s root q = Some u" "j < 512" for q u j
      using d(10) [OF q(1,2) _ q(4)] rd [OF q(1) _ q(4)] tb [OF q(1)] q(3) by simp
  qed (simp_all add: tb)
  then show "evolves 1 root s ?s" by simp
  show "view root ?s = view root s"
    using tb [OF valid_pt_path] rd [OF valid_pt_path _ index_less(4)]
    by (simp add: fun_eq_iff view_def split: option.split)
  show "valid_path q \<Longrightarrow> tbl_of ?s root q = tbl_of s root q" by (rule tb)
  show "\<not> in_bitmap s x \<Longrightarrow> mem ?s x = mem s x" by (rule out)
qed

end
