(* ===== verification/VirtOps.thy ===== *)
theory VirtOps
  imports VirtStep
begin

text \<open>
  The walks of \<open>src/mem/virt.c\<close> and one page of \<open>virt_map\<close>, \<open>virt_unmap\<close> and their relatives,
  in terms of the translation \<open>view\<close>.
\<close>

section \<open>One level\<close>

lemma evolves_invlpg:
  assumes "vm_inv root s"
  shows "evolves 0 root s (invlpg a s)" and "view root (invlpg a s) = view root s"
proof -
  have "evolves (card ({} :: nat set)) root s (invlpg a s)"
  proof (rule evolvesI [OF assms, where N = "{}"])
    show "dir_entry (rd64 (invlpg a s) (u + 8 * j))"
      if "valid_path q" "length q \<le> 2" "tbl_of (invlpg a s) root q = Some u" "j < 512" for q u j
      using vm_invD(10) [OF assms that(1,2) _ that(4)] that(3) by (simp add: invlpg_def)
  qed (simp_all add: quiet_def invlpg_def frame_used_def bitmap_cell_def)
  then show "evolves 0 root s (invlpg a s)" by simp
  show "view root (invlpg a s) = view root s" by (simp add: fun_eq_iff view_def invlpg_def split: option.split)
qed

lemma dir_flags_walk [simp]:
  "dir_flags ((((if u then VF_PD_USER else 0) OR VF_PD_PRESENT) OR VF_PD_WRITABLE) OR VF_PD_PRESENT)"
  by (cases u) (simp_all add: dir_flags_def kernel_defs take_bit_eq_mask mask_eq_exp_minus_1)

text \<open>Whether the table of a path is missing, as a number of frames.\<close>

definition lacking :: "u64 \<Rightarrow> 'z virt_scheme \<Rightarrow> u64 list \<Rightarrow> nat" where
  "lacking root s q = (if tbl_of s root q = None then 1 else 0)"

lemma lacking_evolves:
  assumes "evolves n root s s'" and "valid_path q"
  shows "lacking root s' q \<le> lacking root s q"
  using assms by (auto simp: lacking_def evolves_def)

lemma entry_ptr_create:
  assumes inv: "vm_inv root s"
    and p: "valid_path p" "tbl_of s root p = Some t" "i < 512" and len: "length p \<le> 2"
    and w: "dir_flags (flags OR VF_PD_PRESENT)"
    and free: "lacking root s (i # p) \<le> card (free_frames s)"
  shows "\<exists>s'. s_virt_get_entry_ptr t i True flags s = Inr (t + 8 * i, s') \<and>
           evolves (lacking root s (i # p)) root s s' \<and> view root s' = view root s \<and>
           tbl_of s' root (i # p) = Some (s_virt_entry_ptr_to_table_ptr (t + 8 * i) s')"
proof (cases "rd64 s (t + 8 * i) = 0")
  case False
  then have "tbl_of s root (i # p) = Some (s_virt_entry_ptr_to_table_ptr (t + 8 * i) s)"
    using p(2) by (simp add: next_table_def s_virt_entry_ptr_to_table_ptr_def s_phys_to_virt_def)
  with False show ?thesis
    using evolves_refl [OF inv] by (simp add: s_virt_get_entry_ptr_def lacking_def)
next
  case empty: True
  then have l1: "lacking root s (i # p) = 1" using p(2) by (simp add: lacking_def)
  show ?thesis
    using vm_invD(2) [OF inv]
  proof (cases rule: phys_alloc_cases)
    case (frame f)
    let ?s = "link_table (t + 8 * i) (frame_addr f OR (flags OR VF_PD_PRESENT)) f s"
    have w': "take_bit 12 (flags OR VF_PD_PRESENT) = flags OR VF_PD_PRESENT"
      "(flags OR VF_PD_PRESENT) AND VF_PD_BIG_PAGE = 0" using w by (simp_all only: dir_flags_def)
    note l = link_table_step [OF inv frame(1,2) p len empty w]
    have "frame_addr f \<noteq> 0"
      using frame(2) vm_invD(3) [OF inv] frame_bound [OF vm_invD(2) [OF inv] frame(1)] frame_addr_eq_0 [of f]
      by auto
    then have "s_virt_get_entry_ptr t i True flags s = Inr (t + 8 * i, ?s)"
      using empty frame(4) by (simp add: s_virt_get_entry_ptr_def link_table_def s_phys_to_virt_def or.assoc
          phys_mark_used_def Let_def)
    moreover have "tbl_of ?s root (i # p) = Some (s_virt_entry_ptr_to_table_ptr (t + 8 * i) ?s)"
    proof -
      have "frame_addr f = rd64 ?s (t + 8 * i) AND ENTRY_PHYS_ADDR_MASK"
        using entry_of_frame(1) [OF frame_bound [OF vm_invD(2) [OF inv] frame(1)] w'] l(3) by simp
      moreover have "s_virt_hhdm_offset ?s = s_virt_hhdm_offset s"
        by (rule quiet_fields(5) [OF quiet_link_table])
      ultimately show ?thesis
        using l(5) by (simp add: s_virt_entry_ptr_to_table_ptr_def s_phys_to_virt_def)
    qed
    ultimately show ?thesis unfolding l1 using l(1,2) by blast
  next
    case full
    then have "free_frames s = {}" by (auto simp: free_frames_def)
    then show ?thesis using free l1 by simp
  qed
qed

text \<open>Without a free frame the walk stops the machine, after logging why.\<close>

lemma entry_ptr_full:
  assumes "vm_inv root s" and "rd64 s (t + 8 * i) = 0" and "free_frames s = {}"
  shows "s_virt_get_entry_ptr t i True flags s =
           hcf (kerror ''Failed to allocate a paging structure!'' [] (klog_event Print_stacktrace s))"
  using vm_invD(2) [OF assms(1)]
proof (cases rule: phys_alloc_cases)
  case (frame f)
  then show ?thesis using assms(3) by (auto simp: free_frames_def)
next
  case full
  then show ?thesis using assms(2) by (simp add: s_virt_get_entry_ptr_def)
qed

section \<open>The whole walk\<close>

text \<open>
  \<open>ctx_at ctx root s\<close>: the context \<open>ctx\<close> has the top-level table \<open>root\<close>, and the pointer to it is
  not in a page that the walk may write.
\<close>

definition ctx_at :: "u64 \<Rightarrow> u64 \<Rightarrow> 'z virt_scheme \<Rightarrow> bool" where
  "ctx_at ctx root s \<longleftrightarrow> s_virt_get_top_level ctx s = root \<and>
     (ctx \<noteq> 0 \<longrightarrow> (\<forall>k<8. kept root s (ctx + 8 + of_nat k)))"

lemma ctx_at_evolves:
  assumes "ctx_at ctx root s" and e: "evolves n root s s'"
  shows "ctx_at ctx root s'"
proof -
  have q: "quiet s s'" and k: "kept root s x \<Longrightarrow> mem s' x = mem s x \<and> kept root s' x" for x
    using e unfolding evolves_def by blast+
  show ?thesis
  proof (cases "ctx = 0")
    case True
    then show ?thesis
      using assms(1) quiet_fields [OF q] by (simp add: ctx_at_def s_virt_get_top_level_def s_phys_to_virt_def)
  next
    case False
    then have "rd64 s' (ctx + 8) = rd64 s (ctx + 8)"
      using assms(1) k by (intro load64_cong) (simp add: ctx_at_def)
    then show ?thesis using False assms(1) k by (simp add: ctx_at_def s_virt_get_top_level_def)
  qed
qed

lemma get_pte_eq:
  assumes inv: "vm_inv root s" and c: "ctx_at ctx root s"
  shows "s_virt_get_pte ctx va False s =
           Inr (case tbl_of s root (pt_path va) of None \<Rightarrow> 0 | Some t \<Rightarrow> t + 8 * i1 va, s)"
proof -
  have top: "s_virt_get_top_level ctx s = root" using c by (simp add: ctx_at_def)
  have nz: "t + 8 * j \<noteq> 0" if "valid_path q" "tbl_of s root q = Some t" "j < 512" for q t j
    by (rule table_cell(3) [OF inv that])
  note walk = s_virt_get_pte_def s_virt_get_entry_ptr_def top s_virt_entry_ptr_to_table_ptr_def
    s_phys_to_virt_def next_table_def pt_path_def i4_def [symmetric] i3_def [symmetric]
    i2_def [symmetric] i1_def [symmetric] Let_def
  note nz4 = nz [of "[]" root "i4 va"]
  show ?thesis
  proof (cases "rd64 s (root + 8 * i4 va) = 0")
    case True
    then show ?thesis by (simp add: walk)
  next
    case e4: False
    define t3 where "t3 = (rd64 s (root + 8 * i4 va) AND ENTRY_PHYS_ADDR_MASK) + s_virt_hhdm_offset s"
    have T3: "tbl_of s root [i4 va] = Some t3" using e4 by (simp add: t3_def next_table_def)
    show ?thesis
    proof (cases "rd64 s (t3 + 8 * i3 va) = 0")
      case True
      then show ?thesis using e4 nz4 by (simp add: walk t3_def)
    next
      case e3: False
      define t2 where "t2 = (rd64 s (t3 + 8 * i3 va) AND ENTRY_PHYS_ADDR_MASK) + s_virt_hhdm_offset s"
      have T2: "tbl_of s root [i3 va, i4 va] = Some t2" using e3 T3 by (simp add: t2_def next_table_def)
      have big: "rd64 s (t2 + 8 * i2 va) AND VF_PD_BIG_PAGE = 0"
        by (rule dir_entry_big [OF vm_invD(10) [OF inv _ _ T2]]) simp_all
      show ?thesis
        using e4 e3 nz4 nz [OF _ T3, of "i3 va"] nz [OF _ T2, of "i2 va"] T2 big
        by (simp add: walk t3_def [symmetric] t2_def [symmetric] del: tbl.simps) (simp add: T2 next_table_def)
    qed
  qed
qed


lemma evolves_table:
  "evolves n root s s' \<Longrightarrow> valid_path p \<Longrightarrow> tbl_of s root p = Some t \<Longrightarrow> tbl_of s' root p = Some t"
  unfolding evolves_def by blast

text \<open>
  The tables a walk goes through, and those that are missing for a set of addresses: the frames that
  mapping these addresses costs.
\<close>

definition dir_paths :: "u64 \<Rightarrow> u64 list set" where
  "dir_paths va = {[i4 va], [i3 va, i4 va], pt_path va}"

definition missing :: "u64 \<Rightarrow> u64 set \<Rightarrow> 'z virt_scheme \<Rightarrow> u64 list set" where
  "missing root A s = {q \<in> \<Union> (dir_paths ` A). tbl_of s root q = None}"

lemma finite_missing: "finite A \<Longrightarrow> finite (missing root A s)"
  by (simp add: missing_def dir_paths_def)

lemma missing_mono: "A \<subseteq> B \<Longrightarrow> missing root A s \<subseteq> missing root B s"
  by (auto simp: missing_def)

lemma card_missing_mono: "finite B \<Longrightarrow> A \<subseteq> B \<Longrightarrow> card (missing root A s) \<le> card (missing root B s)"
  by (intro card_mono finite_missing missing_mono)

lemma card_missing_1:
  "card (missing root {va} s) = lacking root s [i4 va] + lacking root s [i3 va, i4 va] + lacking root s (pt_path va)"
proof -
  have d: "[i4 va] \<noteq> [i3 va, i4 va]" "[i4 va] \<noteq> pt_path va" "[i3 va, i4 va] \<noteq> pt_path va"
    by (simp_all add: pt_path_def)
  have c: "card {q \<in> {a, b, c}. P q} = (if P a then 1 else 0) + (if P b then 1 else 0) + (if P c then 1 else 0)"
    if "a \<noteq> b" "a \<noteq> c" "b \<noteq> c" for a b c :: "u64 list" and P
  proof -
    have "{q \<in> {a, b, c}. P q} = (if P a then {a} else {}) \<union> (if P b then {b} else {}) \<union> (if P c then {c} else {})"
      by auto
    then show ?thesis using that by simp
  qed
  have "missing root {va} s = {q \<in> {[i4 va], [i3 va, i4 va], pt_path va}. tbl_of s root q = None}"
    by (simp add: missing_def dir_paths_def)
  then show ?thesis using c [OF d, of "\<lambda>q. tbl_of s root q = None"] by (simp only: lacking_def)
qed

lemma card_missing_1_le: "card (missing root {va} s) \<le> 3"
  by (simp add: card_missing_1 lacking_def)

lemma card_missing_le: "finite A \<Longrightarrow> card (missing root A s) \<le> 3 * card A"
proof (induction A rule: finite_induct)
  case (insert a A)
  have "missing root (insert a A) s = missing root {a} s \<union> missing root A s" by (auto simp: missing_def)
  then have "card (missing root (insert a A) s) \<le> card (missing root {a} s) + card (missing root A s)"
    by (simp add: card_Un_le)
  then show ?case using insert card_missing_1_le [of root a s] by simp
qed (simp add: missing_def)

lemma valid_dir_path: "q \<in> dir_paths va \<Longrightarrow> valid_path q"
  by (auto simp: dir_paths_def)

lemma missing_evolves: "evolves n root s s' \<Longrightarrow> missing root A s' \<subseteq> missing root A s"
  using valid_dir_path by (fastforce simp: missing_def evolves_def)

text \<open>Once a page has its tables, they are missing for no set of addresses, and no other table is lost.\<close>

lemma missing_step:
  assumes e: "evolves n root s s'" and t: "tbl_of s' root (pt_path va) = Some t"
    and A: "finite A" "va \<in> A"
  shows "card (missing root A s') + card (missing root {va} s) \<le> card (missing root A s)"
proof -
  have "tbl_of s' root q \<noteq> None" if "q \<in> dir_paths va" for q
    using that t by (auto simp: dir_paths_def pt_path_def split: option.splits)
  then have "missing root A s' \<subseteq> missing root A s - missing root {va} s"
    using e valid_dir_path by (fastforce simp: missing_def evolves_def)
  then have "card (missing root A s') \<le> card (missing root A s - missing root {va} s)"
    by (intro card_mono finite_Diff finite_missing [OF A(1)])
  also have "\<dots> = card (missing root A s) - card (missing root {va} s)"
    using A by (intro card_Diff_subset missing_mono finite_missing) simp_all
  finally show ?thesis using card_missing_mono [OF A(1), of "{va}" root s] A(2) by simp
qed

text \<open>One level of the walk, with \<open>m\<close> frames kept for the levels below.\<close>

lemma descend:
  assumes inv: "vm_inv root s" and p: "valid_path p" "tbl_of s root p = Some t" "i < 512" and len: "length p \<le> 2"
    and free: "lacking root s (i # p) + m \<le> card (free_frames s)"
  obtains s' where
    "s_virt_get_entry_ptr t i True (((if user then VF_PD_USER else 0) OR VF_PD_PRESENT) OR VF_PD_WRITABLE) s = Inr (t + 8 * i, s')"
    and "evolves (lacking root s (i # p)) root s s'" and "view root s' = view root s"
    and "tbl_of s' root (i # p) = Some (s_virt_entry_ptr_to_table_ptr (t + 8 * i) s')"
    and "vm_inv root s'" and "t + 8 * i \<noteq> 0" and "m \<le> card (free_frames s')"
    and "\<And>q. valid_path q \<Longrightarrow> lacking root s' q \<le> lacking root s q"
proof -
  have "lacking root s (i # p) \<le> card (free_frames s)" using free by simp
  from entry_ptr_create [OF inv p len dir_flags_walk this] obtain s' where s':
    "s_virt_get_entry_ptr t i True (((if user then VF_PD_USER else 0) OR VF_PD_PRESENT) OR VF_PD_WRITABLE) s = Inr (t + 8 * i, s')"
    "evolves (lacking root s (i # p)) root s s'" "view root s' = view root s"
    "tbl_of s' root (i # p) = Some (s_virt_entry_ptr_to_table_ptr (t + 8 * i) s')"
    by blast
  have ev: "vm_inv root s'" "card (free_frames s) \<le> card (free_frames s') + lacking root s (i # p)"
    using s'(2) by (simp_all add: evolves_def)
  show thesis
  proof (rule that [OF s' ev(1)])
    show "t + 8 * i \<noteq> 0" by (rule table_cell(3) [OF inv p])
    show "m \<le> card (free_frames s')" using ev(2) free by linarith
  qed (rule lacking_evolves [OF s'(2)])
qed

lemma get_or_create_pte_eq:
  assumes inv: "vm_inv root s" and c: "ctx_at ctx root s"
    and free: "card (missing root {va} s) \<le> card (free_frames s)"
  shows "\<exists>s' t. s_virt_get_or_create_pte ctx va user False s = Inr (t + 8 * i1 va, s') \<and>
           evolves (card (missing root {va} s)) root s s' \<and> view root s' = view root s \<and>
           tbl_of s' root (pt_path va) = Some t"
proof -
  let ?p3 = "[i3 va, i4 va]" and ?p2 = "[i2 va, i3 va, i4 va]"
  have top: "s_virt_get_top_level ctx s = root" using c by (simp add: ctx_at_def)
  have i: "i4 va = virt_index VIRT_PML4_INDEX_OFFSET va" "i3 va = virt_index VIRT_PDPT_INDEX_OFFSET va"
    "i2 va = virt_index VIRT_PD_INDEX_OFFSET va" "i1 va = virt_index VIRT_PT_INDEX_OFFSET va"
    by (simp_all add: i4_def i3_def i2_def i1_def)
  note n = card_missing_1 [of root va s, unfolded pt_path_def]
  have "lacking root s [i4 va] + (lacking root s ?p3 + lacking root s ?p2) \<le> card (free_frames s)"
    using free n by linarith
  from descend [OF inv valid_path_simps(1) _ index_less(1) _ this, of root user] obtain s1 where
    s1: "s_virt_get_entry_ptr root (i4 va) True (((if user then VF_PD_USER else 0) OR VF_PD_PRESENT) OR VF_PD_WRITABLE) s =
          Inr (root + 8 * i4 va, s1)" "evolves (lacking root s [i4 va]) root s s1" "view root s1 = view root s"
        "tbl_of s1 root [i4 va] = Some (s_virt_entry_ptr_to_table_ptr (root + 8 * i4 va) s1)"
        "vm_inv root s1" "root + 8 * i4 va \<noteq> 0" "lacking root s ?p3 + lacking root s ?p2 \<le> card (free_frames s1)"
        "\<And>q. valid_path q \<Longrightarrow> lacking root s1 q \<le> lacking root s q" by auto
  let ?t3 = "s_virt_entry_ptr_to_table_ptr (root + 8 * i4 va) s1"
  have "lacking root s1 ?p3 + lacking root s1 ?p2 \<le> card (free_frames s1)"
    using s1(7) s1(8) [of ?p3] s1(8) [of ?p2] by simp
  from descend [OF s1(5) _ s1(4) index_less(2) _ this, of user] obtain s2 where
    s2: "s_virt_get_entry_ptr ?t3 (i3 va) True (((if user then VF_PD_USER else 0) OR VF_PD_PRESENT) OR VF_PD_WRITABLE) s1 =
          Inr (?t3 + 8 * i3 va, s2)" "evolves (lacking root s1 ?p3) root s1 s2" "view root s2 = view root s1"
        "tbl_of s2 root ?p3 = Some (s_virt_entry_ptr_to_table_ptr (?t3 + 8 * i3 va) s2)"
        "vm_inv root s2" "?t3 + 8 * i3 va \<noteq> 0" "lacking root s1 ?p2 \<le> card (free_frames s2)"
        "\<And>q. valid_path q \<Longrightarrow> lacking root s2 q \<le> lacking root s1 q" by auto
  let ?t2 = "s_virt_entry_ptr_to_table_ptr (?t3 + 8 * i3 va) s2"
  have "lacking root s2 ?p2 + 0 \<le> card (free_frames s2)" using s2(7) s2(8) [of ?p2] by simp
  from descend [OF s2(5) _ s2(4) index_less(3) _ this, of user] obtain s3 where
    s3: "s_virt_get_entry_ptr ?t2 (i2 va) True (((if user then VF_PD_USER else 0) OR VF_PD_PRESENT) OR VF_PD_WRITABLE) s2 =
          Inr (?t2 + 8 * i2 va, s3)" "evolves (lacking root s2 ?p2) root s2 s3" "view root s3 = view root s2"
        "tbl_of s3 root ?p2 = Some (s_virt_entry_ptr_to_table_ptr (?t2 + 8 * i2 va) s3)"
        "vm_inv root s3" "?t2 + 8 * i2 va \<noteq> 0" by auto
  let ?t1 = "s_virt_entry_ptr_to_table_ptr (?t2 + 8 * i2 va) s3"
  have "tbl_of s3 root ?p3 = Some ?t2" by (rule evolves_table [OF s3(2) _ s2(4)]) simp
  from dir_entry_big [OF vm_invD(10) [OF s3(5) _ _ this]] have "rd64 s3 (?t2 + 8 * i2 va) AND VF_PD_BIG_PAGE = 0" by simp
  then have "s_virt_get_or_create_pte ctx va user False s = Inr (?t1 + 8 * i1 va, s3)"
    using s1(1,6) s2(1,6) s3(1,6) unfolding i
    by (simp add: s_virt_get_or_create_pte_def top Let_def del: virt_index_less)
  moreover have "lacking root s [i4 va] + lacking root s1 ?p3 + lacking root s2 ?p2 \<le> card (missing root {va} s)"
    using n s1(8) [of ?p3] s1(8) [of ?p2] s2(8) [of ?p2] by simp
  then have "evolves (card (missing root {va} s)) root s s3"
    by (rule evolves_mono [OF evolves_trans [OF evolves_trans [OF s1(2) s2(2)] s3(2)]])
  moreover have "view root s3 = view root s" using s1(3) s2(3) s3(3) by simp
  ultimately show ?thesis using s3(4) unfolding pt_path_def by blast
qed

text \<open>Without a free frame, a walk that misses a table ends in \<open>hcf()\<close>; nothing was written.\<close>

definition out_of_tables :: "'z virt_scheme \<Rightarrow> 'z virt_scheme" where
  "out_of_tables s = kerror ''Failed to allocate a paging structure!'' [] (klog_event Print_stacktrace s)"

lemma get_or_create_pte_full:
  assumes inv: "vm_inv root s" and c: "ctx_at ctx root s" and full: "free_frames s = {}"
    and miss: "tbl_of s root (pt_path va) = None"
  shows "s_virt_get_or_create_pte ctx va user False s = Inl (Hcf (out_of_tables s))"
proof -
  have top: "s_virt_get_top_level ctx s = root" using c by (simp add: ctx_at_def)
  have nz: "t + 8 * j \<noteq> 0" if "valid_path q" "tbl_of s root q = Some t" "j < 512" for q t j
    by (rule table_cell(3) [OF inv that])
  have ptr: "s_virt_get_entry_ptr t i True w s =
      (if rd64 s (t + 8 * i) = 0 then Inl (Hcf (out_of_tables s)) else Inr (t + 8 * i, s))" for t i w
    using entry_ptr_full [OF inv _ full, of t i w]
    by (auto simp: hcf_def out_of_tables_def s_virt_get_entry_ptr_def)
  note walk = s_virt_get_or_create_pte_def ptr top s_virt_entry_ptr_to_table_ptr_def
    s_phys_to_virt_def next_table_def pt_path_def i4_def [symmetric] i3_def [symmetric]
    i2_def [symmetric] Let_def
  show ?thesis
  proof (cases "rd64 s (root + 8 * i4 va) = 0")
    case True
    then show ?thesis by (simp add: walk)
  next
    case e4: False
    define t3 where "t3 = (rd64 s (root + 8 * i4 va) AND ENTRY_PHYS_ADDR_MASK) + s_virt_hhdm_offset s"
    have T3: "tbl_of s root [i4 va] = Some t3" using e4 by (simp add: t3_def next_table_def)
    show ?thesis
    proof (cases "rd64 s (t3 + 8 * i3 va) = 0")
      case True
      then show ?thesis using e4 nz [of "[]" root "i4 va"] by (simp add: walk t3_def)
    next
      case e3: False
      define t2 where "t2 = (rd64 s (t3 + 8 * i3 va) AND ENTRY_PHYS_ADDR_MASK) + s_virt_hhdm_offset s"
      have "tbl_of s root [i3 va, i4 va] = Some t2" using e3 T3 by (simp add: t2_def next_table_def)
      then have "rd64 s (t2 + 8 * i2 va) = 0"
        using miss by (simp add: pt_path_def del: tbl.simps(1)) (simp add: Let_def split: if_splits)
      then show ?thesis
        using e4 e3 nz [of "[]" root "i4 va"] nz [OF _ T3, of "i3 va"]
        by (simp add: walk t3_def [symmetric] t2_def [symmetric] del: tbl.simps(2))
    qed
  qed
qed

section \<open>One page\<close>

definition set_page :: "u64 \<Rightarrow> u64 \<Rightarrow> (u64 \<Rightarrow> u64) \<Rightarrow> u64 \<Rightarrow> u64" where
  "set_page va v V = (\<lambda>x. if vpn x = vpn va then v else V x)"

text \<open>The common core of the mapping loops: get or create the entry, then write it.\<close>

lemma map_page:
  assumes inv: "vm_inv root s" and c: "ctx_at ctx root s"
    and free: "card (missing root {va} s) \<le> card (free_frames s)"
  obtains t s' where "s_virt_get_or_create_pte ctx va user False s = Inr (t + 8 * i1 va, s')"
    and "t + 8 * i1 va \<noteq> 0"
    and "evolves (card (missing root {va} s)) root s (wr64 (t + 8 * i1 va) v s')"
    and "view root (wr64 (t + 8 * i1 va) v s') = set_page va v (view root s)"
    and "tbl_of (wr64 (t + 8 * i1 va) v s') root (pt_path va) = Some t"
proof -
  let ?n = "card (missing root {va} s)"
  obtain s' t where w: "s_virt_get_or_create_pte ctx va user False s = Inr (t + 8 * i1 va, s')"
      "evolves ?n root s s'" "view root s' = view root s" "tbl_of s' root (pt_path va) = Some t"
    using get_or_create_pte_eq [OF assms] by blast
  have inv': "vm_inv root s'" using w(2) by (simp add: evolves_def)
  note p = write_pte [OF inv' w(4), of v]
  have "evolves (?n + 0) root s (wr64 (t + 8 * i1 va) v s')" by (rule evolves_trans [OF w(2) p(1)])
  then have "evolves ?n root s (wr64 (t + 8 * i1 va) v s')" by simp
  moreover have "t + 8 * i1 va \<noteq> 0" by (rule table_cell(3) [OF inv' valid_pt_path w(4)]) simp
  moreover have "tbl_of (wr64 (t + 8 * i1 va) v s') root (pt_path va) = Some t"
    by (rule evolves_table [OF p(1) valid_pt_path w(4)])
  ultimately show ?thesis using that [OF w(1)] p(2) unfolding w(3) set_page_def by blast
qed

lemma evolves_opt_invlpg:
  assumes "evolves n root s s'"
  shows "evolves n root s (if ctx = 0 then invlpg a s' else s')"
    and "view root (if ctx = 0 then invlpg a s' else s') = view root s'"
proof -
  have inv: "vm_inv root s'" using assms by (simp add: evolves_def)
  show "evolves n root s (if ctx = 0 then invlpg a s' else s')"
    using evolves_trans [OF assms evolves_invlpg(1) [OF inv]] assms by simp
  show "view root (if ctx = 0 then invlpg a s' else s') = view root s'"
    using evolves_invlpg(2) [OF inv] by simp
qed

end
