(* ===== verification/PageTables.thy ===== *)
theory PageTables
  imports VirtOps
begin

text \<open>
  How many tables a range of pages needs: at most three for each page, and for many pages one last-level
  table per 512, one of the next level per 512 of those, and so on.
\<close>

section \<open>Pages of a range\<close>

lemma unat_vpn: "unat (vpn a) = unat a div 4096 mod 2 ^ 36"
  by (simp add: vpn_def take_bit_eq_mod drop_bit_eq_div unat_mod unat_div)

lemma unat_vpn_offset: "unat (vpn (a + of_nat k * 4096)) = (unat a div 4096 + k) mod 2 ^ 36"
proof -
  let ?x = "unat a + 4096 * k"
  have "unat (a + of_nat k * 4096) = ?x mod 2 ^ 64"
    by (simp add: unat_word_ariths unat_of_nat mod_simps mult.commute)
  also have "\<dots> = ?x mod (4096 * 2 ^ 52)" by simp
  also have "\<dots> div 4096 = ?x div 4096 mod 2 ^ 52" by (simp only: mod_mult2_eq)
  also have "?x div 4096 = unat a div 4096 + k" by simp
  finally have "unat (a + of_nat k * 4096) div 4096 = (unat a div 4096 + k) mod 2 ^ 52" by simp
  then show ?thesis unfolding unat_vpn by (simp add: mod_mod_cancel)
qed

definition pages :: "u64 \<Rightarrow> nat \<Rightarrow> u64 set" where
  "pages a n = (\<lambda>k. a + of_nat k * VIRT_PAGE_SIZE) ` {..<n}"

lemma finite_pages [simp]: "finite (pages a n)"
  by (simp add: pages_def)

section \<open>Counting\<close>

lemma card_image_factor:
  assumes "finite S" and "\<And>x y. x \<in> S \<Longrightarrow> y \<in> S \<Longrightarrow> g x = g y \<Longrightarrow> f x = f y"
  shows "card (f ` S) \<le> card (g ` S)"
proof -
  have "f x = f (inv_into S g (g x))" if "x \<in> S" for x
    using that by (intro assms(2)) (simp_all add: inv_into_into f_inv_into_f)
  then have "f ` S \<subseteq> (f \<circ> inv_into S g) ` (g ` S)" by auto
  then show ?thesis by (rule surj_card_le [OF finite_imageI [OF assms(1)]])
qed

lemma card_div_range: "card ((\<lambda>k. (c + k) div d) ` {..<n}) \<le> n div d + (2 :: nat)"
proof (cases "d = 0")
  case False
  have "(\<lambda>k. (c + k) div d) ` {..<n} \<subseteq> {c div d..(c + n) div d}"
    by (auto simp: div_le_mono)
  then have "card ((\<lambda>k. (c + k) div d) ` {..<n}) \<le> Suc ((c + n) div d) - c div d"
    using card_mono [of "{c div d..(c + n) div d}"] by simp
  moreover have "(c + n) div d \<le> c div d + n div d + 1"
  proof -
    have "c mod d + n mod d < 2 * d" using False by (simp add: mult_2 add_strict_mono)
    then have "(c mod d + n mod d) div d < 2" by (simp add: less_mult_imp_div_less)
    then show ?thesis by (simp add: div_add1_eq [of c n d])
  qed
  ultimately show ?thesis by linarith
qed (simp add: image_constant_conv)

text \<open>The pages of one table have the same upper bits.\<close>

lemma vpn_upper:
  fixes a :: u64
  assumes "(unat a div 4096 + j) div 2 ^ m = (unat a div 4096 + k) div 2 ^ m" and "m \<le> 36"
    and "12 + m \<le> n" and "n < 48"
  shows "bit (a + of_nat j * 4096) n = bit (a + of_nat k * 4096) n"
proof -
  have "unat (drop_bit m (vpn (a + of_nat i * 4096))) = (unat a div 4096 + i) div 2 ^ m mod 2 ^ (36 - m)" for i
  proof -
    have "(2::nat) ^ m * 2 ^ (36 - m) = 2 ^ 36" using assms(2) by (subst power_add [symmetric]) simp
    then have "y mod 2 ^ 36 div 2 ^ m = y div 2 ^ m mod 2 ^ (36 - m)" for y :: nat
      using mod_mult2_eq [of y "2 ^ m" "2 ^ (36 - m)"] by simp
    then show ?thesis by (simp only: unat_drop_bit_eq) (simp only: drop_bit_eq_div unat_vpn_offset)
  qed
  then have "drop_bit m (vpn (a + of_nat j * 4096)) = drop_bit m (vpn (a + of_nat k * 4096))"
    using assms(1) by (simp add: word_unat_eq_iff)
  then have "bit (drop_bit m (vpn (a + of_nat j * 4096))) (n - 12 - m) =
      bit (drop_bit m (vpn (a + of_nat k * 4096))) (n - 12 - m)" by simp
  moreover have "n - 12 < 36" using assms(3,4) by linarith
  ultimately show ?thesis using assms(3,4) by (simp add: bit_drop_bit_eq bit_vpn)
qed

definition max_tables :: "nat \<Rightarrow> nat" where
  "max_tables n = min (3 * n) (n div 2 ^ 9 + n div 2 ^ 18 + n div 2 ^ 27 + 6)"

lemma card_missing_pages: "card (missing root (pages a n) s) \<le> max_tables n"
proof -
  let ?p = "\<lambda>k. a + of_nat k * VIRT_PAGE_SIZE" and ?c = "unat a div 4096"
  have eq: "virt_index off (?p j) = virt_index off (?p k)"
    if "(?c + j) div 2 ^ m = (?c + k) div 2 ^ m" "m \<le> 36" "12 + m \<le> off" "off + 9 \<le> 48" for j k m off
    unfolding virt_index_eq_bits VIRT_PAGE_SIZE_def
    by (intro allI impI vpn_upper [OF that(1,2)]) (use that(3,4) in linarith)+
  have le: "card (f ` {..<n}) \<le> n div 2 ^ m + 2"
    if "\<And>j k. (?c + j) div 2 ^ m = (?c + k) div 2 ^ m \<Longrightarrow> f j = f k" for f :: "nat \<Rightarrow> u64 list" and m
    using card_image_factor [of "{..<n}" "\<lambda>k. (?c + k) div 2 ^ m" f] that card_div_range [of ?c "2 ^ m" n]
    by (meson finite_lessThan le_trans)
  have e4: "i4 (?p j) = i4 (?p k)" if "(?c + j) div 2 ^ m = (?c + k) div 2 ^ m" "m \<le> 27" for j k m
    unfolding i4_def VIRT_PML4_INDEX_OFFSET_def by (rule eq [OF that(1)]) (use that(2) in simp_all)
  have e3: "i3 (?p j) = i3 (?p k)" if "(?c + j) div 2 ^ m = (?c + k) div 2 ^ m" "m \<le> 18" for j k m
    unfolding i3_def VIRT_PDPT_INDEX_OFFSET_def by (rule eq [OF that(1)]) (use that(2) in simp_all)
  have e2: "i2 (?p j) = i2 (?p k)" if "(?c + j) div 2 ^ m = (?c + k) div 2 ^ m" "m \<le> 9" for j k m
    unfolding i2_def VIRT_PD_INDEX_OFFSET_def by (rule eq [OF that(1)]) (use that(2) in simp_all)
  have "card ((\<lambda>k. [i4 (?p k)]) ` {..<n}) \<le> n div 2 ^ 27 + 2"
    by (rule le) (drule e4, simp, simp only:)
  moreover have "card ((\<lambda>k. [i3 (?p k), i4 (?p k)]) ` {..<n}) \<le> n div 2 ^ 18 + 2"
    by (rule le) (frule e3, simp, drule e4, simp, simp only:)
  moreover have "card ((\<lambda>k. pt_path (?p k)) ` {..<n}) \<le> n div 2 ^ 9 + 2"
    by (rule le) (frule e2, simp, frule e3, simp, drule e4, simp, simp only: pt_path_def)
  moreover have "missing root (pages a n) s \<subseteq>
      (\<lambda>k. [i4 (?p k)]) ` {..<n} \<union> (\<lambda>k. [i3 (?p k), i4 (?p k)]) ` {..<n} \<union> (\<lambda>k. pt_path (?p k)) ` {..<n}"
    (is "_ \<subseteq> ?A \<union> ?B \<union> ?C")
    by (auto simp: missing_def pages_def dir_paths_def)
  then have "card (missing root (pages a n) s) \<le> card (?A \<union> ?B \<union> ?C)"
    by (intro card_mono) simp_all
  moreover have "card (?A \<union> ?B \<union> ?C) \<le> card ?A + card ?B + card ?C"
    by (meson card_Un_le add_le_mono1 le_trans)
  moreover have "card (missing root (pages a n) s) \<le> 3 * n"
    using card_missing_le [of "pages a n" root s] card_image_le [of "{..<n}" ?p] by (simp add: pages_def)
  ultimately show ?thesis unfolding max_tables_def by simp
qed

lemma max_tables_le: "max_tables n \<le> 3 * n"
  by (simp add: max_tables_def)

end
