(* ===== verification/PageLoop.thy ===== *)
theory PageLoop
  imports Prelude
begin

text \<open>
  The contract between the page-table walks and the range loops over them: one pass writes the entry
  of one page and preserves everything \<open>keeps\<close> speaks of. It takes \<open>cost\<close> free frames, and one for each
  table that is missing for its page; a table made once is there for the passes that follow. From that
  alone, a loop over a range does so for each of its pages, and takes the tables of the range once.
\<close>

locale page_writer =
  fixes inv :: "'s \<Rightarrow> bool"
    and view :: "'s \<Rightarrow> u64 \<Rightarrow> 'v"
    and free :: "'s \<Rightarrow> nat"
    and keeps :: "'s \<Rightarrow> 's \<Rightarrow> bool"
    and key :: "u64 \<Rightarrow> 'k"
    and target :: "u64 \<Rightarrow> u64"
    and good :: "u64 \<Rightarrow> 'v \<Rightarrow> bool"
    and cost :: nat
    and lack :: "u64 set \<Rightarrow> 's \<Rightarrow> nat"
    and pass :: "u64 \<Rightarrow> 's \<Rightarrow> (unit, 's) res"
  assumes keeps_refl: "inv s \<Longrightarrow> keeps s s"
    and keeps_trans: "keeps s t \<Longrightarrow> keeps t u \<Longrightarrow> keeps s u"
    and lack_mono: "finite B \<Longrightarrow> A \<subseteq> B \<Longrightarrow> lack A s \<le> lack B s"
    and pass: "inv s \<Longrightarrow> cost + lack {target i} s \<le> free s \<Longrightarrow>
      \<exists>s' v. pass i s = Inr ((), s') \<and> inv s' \<and> keeps s s' \<and>
             (\<forall>A. finite A \<longrightarrow> target i \<in> A \<longrightarrow> free s + lack A s' \<le> free s' + lack A s + cost) \<and> good i v \<and>
             view s' = (\<lambda>x. if key x = key (target i) then v else view s x)"
begin

definition targets :: "u64 \<Rightarrow> nat \<Rightarrow> u64 set" where
  "targets step n = (\<lambda>k. target (of_nat k * step)) ` {..<n}"

lemma targets_simps [simp]:
  "finite (targets step n)" "k < n \<Longrightarrow> target (of_nat k * step) \<in> targets step n"
  by (simp_all add: targets_def)

text \<open>After \<open>n\<close> passes: the pages visited, and all the others.\<close>

definition passed :: "u64 \<Rightarrow> nat \<Rightarrow> 's \<Rightarrow> 's \<Rightarrow> bool" where
  "passed step n s s' \<longleftrightarrow>
     inv s' \<and> keeps s s' \<and>
     (\<forall>A. finite A \<longrightarrow> targets step n \<subseteq> A \<longrightarrow> free s + lack A s' \<le> free s' + lack A s + n * cost) \<and>
     (\<forall>k x. k < n \<longrightarrow> key x = key (target (of_nat k * step)) \<longrightarrow> good (of_nat k * step) (view s' x)) \<and>
     (\<forall>x. (\<forall>k<n. key x \<noteq> key (target (of_nat k * step))) \<longrightarrow> view s' x = view s x)"

lemma passed_free: "passed step n s s' \<Longrightarrow> free s \<le> free s' + lack (targets step n) s + n * cost"
  unfolding passed_def using targets_simps(1) [of step n] by (meson add_leD1 order_refl)

lemma passed_Suc:
  assumes s': "passed step n s s'" and c: "Suc n * cost + lack (targets step (Suc n)) s \<le> free s"
    and same: "\<And>k. k < n \<Longrightarrow> key (target (of_nat n * step)) = key (target (of_nat k * step)) \<Longrightarrow>
                 good (of_nat n * step) = good (of_nat k * step)"
  shows "\<exists>s''. pass (of_nat n * step) s' = Inr ((), s'') \<and> passed step (Suc n) s s''"
proof -
  let ?R = "targets step (Suc n)"
  have i: "inv s'" and k: "keeps s s'"
    and f: "\<And>A. finite A \<Longrightarrow> targets step n \<subseteq> A \<Longrightarrow> free s + lack A s' \<le> free s' + lack A s + n * cost"
    and vg: "\<And>k x. k < n \<Longrightarrow> key x = key (target (of_nat k * step)) \<Longrightarrow> good (of_nat k * step) (view s' x)"
    and vo: "\<And>x. (\<And>k. k < n \<Longrightarrow> key x \<noteq> key (target (of_nat k * step))) \<Longrightarrow> view s' x = view s x"
    using s' unfolding passed_def by blast+
  have sub: "targets step n \<subseteq> ?R" by (auto simp: targets_def)
  have "lack {target (of_nat n * step)} s' \<le> lack ?R s'" by (rule lack_mono) simp_all
  then have "cost + lack {target (of_nat n * step)} s' \<le> free s'" using f [OF _ sub] c by simp
  from pass [OF i this] obtain s'' v where
    w: "pass (of_nat n * step) s' = Inr ((), s'')" "inv s''" "keeps s' s''"
      "\<And>A. finite A \<Longrightarrow> target (of_nat n * step) \<in> A \<Longrightarrow> free s' + lack A s'' \<le> free s'' + lack A s' + cost"
      "good (of_nat n * step) v"
      "view s'' = (\<lambda>x. if key x = key (target (of_nat n * step)) then v else view s' x)" by blast
  have "free s + lack A s'' \<le> free s'' + lack A s + Suc n * cost" if A: "finite A" "?R \<subseteq> A" for A
  proof -
    have "target (of_nat n * step) \<in> A" "targets step n \<subseteq> A" using A(2) sub by auto
    then show ?thesis using f [OF A(1)] w(4) [OF A(1)] by fastforce
  qed
  moreover have "good (of_nat k * step) (view s'' x)"
    if "k < Suc n" "key x = key (target (of_nat k * step))" for k x
  proof (cases "key x = key (target (of_nat n * step))")
    case True
    then have "good (of_nat n * step) = good (of_nat k * step)"
      using that same by (cases "k = n") auto
    then show ?thesis using True w(5,6) by simp
  next
    case False
    then have "k < n" using that by (cases "k = n") auto
    then show ?thesis using False vg that(2) w(6) by simp
  qed
  moreover have "view s'' x = view s x"
    if "\<And>k. k < Suc n \<Longrightarrow> key x \<noteq> key (target (of_nat k * step))" for x
    using vo [of x] that that [of n] w(6) by simp
  ultimately show ?thesis
    using w(1-3) keeps_trans [OF k w(3)] by (intro exI [of _ s'']) (simp add: passed_def)
qed

lemma range_loop:
  assumes step: "0 < unat step" "iters step len * unat step < 2 ^ 64"
    and s: "inv s" "iters step len * cost + lack (targets step (iters step len)) s \<le> free s"
    and same: "\<And>j k. j < iters step len \<Longrightarrow> k < iters step len \<Longrightarrow>
                 key (target (of_nat j * step)) = key (target (of_nat k * step)) \<Longrightarrow>
                 good (of_nat j * step) = good (of_nat k * step)"
  shows "\<exists>s'. for_step step 0 len pass s = Inr ((), s') \<and> passed step (iters step len) s s'"
proof (rule for_step_total [where P = "\<lambda>k. passed step k s", OF step])
  show "passed step 0 s s" using s(1) by (simp add: passed_def keeps_refl)
next
  fix k s' assume k: "k < iters step len" and s': "passed step k s s'"
  have "Suc k * cost \<le> iters step len * cost" using k by (intro mult_le_mono1) simp
  moreover have "lack (targets step (Suc k)) s \<le> lack (targets step (iters step len)) s"
    by (rule lack_mono) (use k in \<open>auto simp: targets_def\<close>)
  ultimately have "Suc k * cost + lack (targets step (Suc k)) s \<le> free s" using s(2) by linarith
  then show "\<exists>s''. pass (of_nat k * step) s' = Inr ((), s'') \<and> passed step (Suc k) s s''"
  proof (rule passed_Suc [OF s'])
    fix j assume "j < k"
    then show "key (target (of_nat k * step)) = key (target (of_nat j * step)) \<Longrightarrow>
        good (of_nat k * step) = good (of_nat j * step)" using k by (intro same) simp_all
  qed
qed

end

end
