(* ===== verification/VirtLoops.thy ===== *)
theory VirtLoops
  imports PageTables PageLoop
begin

text \<open>
  The range operations of \<open>src/mem/virt.c\<close>: each of the loops is a \<open>page_writer\<close>, and the search
  for room finds the first free range.
\<close>

section \<open>Pages of a range\<close>

lemma vpn_range_inj:
  assumes "j < 2 ^ 36" and "k < 2 ^ 36" and "vpn (a + of_nat j * 4096) = vpn (a + of_nat k * 4096)"
  shows "j = k"
proof -
  have aux: "j = k" if "(c + j) mod 2 ^ 36 = (c + k) mod 2 ^ 36" "j \<le> k" "k < 2 ^ 36" for c j k :: nat
  proof -
    have "2 ^ 36 dvd (c + k) - (c + j)" using that(1,2) by (metis mod_eq_dvd_iff_nat add_le_cancel_left)
    then have "2 ^ 36 dvd k - j" by simp
    then show "j = k" using that(2,3) by (auto dest: dvd_imp_le)
  qed
  have "(unat a div 4096 + j) mod 2 ^ 36 = (unat a div 4096 + k) mod 2 ^ 36"
    using assms(3) unat_vpn_offset [of a j] unat_vpn_offset [of a k] by simp
  then show ?thesis using aux assms(1,2) by (metis nat_le_linear)
qed

lemma page_step: "unat VIRT_PAGE_SIZE = 4096"
  by (simp add: kernel_defs)

lemma iters_page_small:
  assumes "unat len \<le> 2 ^ 48"
  shows "iters VIRT_PAGE_SIZE len \<le> 2 ^ 36" "iters VIRT_PAGE_SIZE len * unat VIRT_PAGE_SIZE < 2 ^ 64"
proof -
  have "(unat len + 4095) div 4096 \<le> (2 ^ 48 + 4095) div 4096" using assms by (intro div_le_mono) simp
  then show "iters VIRT_PAGE_SIZE len \<le> 2 ^ 36" by (simp add: iters_def page_step)
  then show "iters VIRT_PAGE_SIZE len * unat VIRT_PAGE_SIZE < 2 ^ 64" by (simp add: page_step)
qed

lemma vpn_pages_inj:
  assumes "unat len \<le> 2 ^ 48" and "j < iters VIRT_PAGE_SIZE len" and "k < iters VIRT_PAGE_SIZE len"
    and "vpn (a + of_nat j * VIRT_PAGE_SIZE) = vpn (a + of_nat k * VIRT_PAGE_SIZE)"
  shows "j = k"
  by (rule vpn_range_inj [of _ _ a]) (use assms iters_page_small(1) [OF assms(1)] in \<open>simp_all add: VIRT_PAGE_SIZE_def\<close>)

section \<open>The loops as page writers\<close>

text \<open>A context whose address space satisfies the invariant, and what a loop preserves.\<close>

definition aspace :: "u64 \<Rightarrow> u64 \<Rightarrow> 'z virt_scheme \<Rightarrow> bool" where
  "aspace ctx root s \<longleftrightarrow> vm_inv root s \<and> ctx_at ctx root s"

definition preserves :: "u64 \<Rightarrow> 'z virt_scheme \<Rightarrow> 'z virt_scheme \<Rightarrow> bool" where
  "preserves root s s' \<longleftrightarrow> (\<exists>n. evolves n root s s')"

definition budget :: "'z virt_scheme \<Rightarrow> nat" where
  "budget s = card (free_frames s)"

lemma aspace_evolves:
  assumes "aspace ctx root s" and "evolves n root s s'"
  shows "aspace ctx root s'" and "preserves root s s'" and "budget s \<le> budget s' + n"
  using assms ctx_at_evolves [of ctx root s n s']
  by (auto simp: aspace_def preserves_def budget_def evolves_def)

lemma preserves_refl: "aspace ctx root s \<Longrightarrow> preserves root s s"
  unfolding preserves_def aspace_def using evolves_refl by blast

lemma preserves_trans: "preserves root s t \<Longrightarrow> preserves root t u \<Longrightarrow> preserves root s u"
  unfolding preserves_def using evolves_trans by blast

text \<open>States that differ in other components only.\<close>

lemma same_view:
  assumes "mem t = mem s" "s_virt_hhdm_offset t = s_virt_hhdm_offset s"
  shows "view root t = view root s"
  by (simp add: fun_eq_iff view_def assms split: option.split)

lemma same_vm:
  assumes "mem t = mem s" "s_phys_bitmap t = s_phys_bitmap s" "s_phys_bitmap_size t = s_phys_bitmap_size s"
    "s_virt_hhdm_offset t = s_virt_hhdm_offset s"
  shows "vm_inv root t = vm_inv root s" and "budget t = budget s" and "view root t = view root s"
    and "kept root t = kept root s"
proof -
  note d = assms frame_used_def bitmap_cell_def covered_def
  have k: "kpage t = kpage s" and ib: "in_bitmap t = in_bitmap s" and ff: "free_frames t = free_frames s"
    by (simp_all add: fun_eq_iff kpage_def pfn_def in_bitmap_def free_frames_def d)
  have tp: "table_page t = table_page s" by (simp add: fun_eq_iff table_page_def k ib)
  show "kept root t = kept root s" by (simp add: fun_eq_iff kept_def k ib assms)
  show "vm_inv root t = vm_inv root s"
    by (simp add: vm_inv_def alloc_wf_def phys_wf_def k ib tp d)
  show "budget t = budget s" by (simp add: budget_def ff)
  show "view root t = view root s" by (rule same_view [OF assms(1,4)])
qed

lemma same_aspace:
  assumes "mem t = mem s" "cr3 t = cr3 s" "s_phys_bitmap t = s_phys_bitmap s"
    "s_phys_bitmap_size t = s_phys_bitmap_size s" "s_virt_hhdm_offset t = s_virt_hhdm_offset s"
  shows "aspace ctx root t = aspace ctx root s"
  by (simp add: aspace_def same_vm [OF assms(1,3-5)] ctx_at_def s_virt_get_top_level_def s_phys_to_virt_def assms)

lemmas same_space = same_aspace same_vm(2-4)

lemma same_space_klogs [simp]:
  "aspace ctx root (s\<lparr>klogs := l\<rparr>) = aspace ctx root s" "budget (s\<lparr>klogs := l\<rparr>) = budget s"
  "view root (s\<lparr>klogs := l\<rparr>) = view root s" "kept root (s\<lparr>klogs := l\<rparr>) = kept root s"
  by (rule same_space; simp)+

text \<open>A page is paid for with the tables that were missing for it, and they are not missing any more.\<close>

lemma page_pays:
  assumes "evolves (c + card (missing root {va} s)) root s s'" and "tbl_of s' root (pt_path va) = Some t"
    and "finite A" and "va \<in> A"
  shows "budget s + card (missing root A s') \<le> budget s' + card (missing root A s) + c"
  using missing_step [OF assms] assms(1) by (simp add: budget_def evolves_def)

lemma missing_opt_invlpg:
  "tbl_of (if ctx = 0 then invlpg a s else s) root p = tbl_of s root p"
  by (simp add: invlpg_def)

lemma virt_map_step_ok:
  assumes s: "aspace ctx root s" and free: "0 + card (missing root {virt + i} s) \<le> budget s"
  shows "\<exists>s' v. virt_map_step ctx phys virt flags False i s = Inr ((), s') \<and> aspace ctx root s' \<and>
           preserves root s s' \<and>
           (\<forall>A. finite A \<longrightarrow> virt + i \<in> A \<longrightarrow>
              budget s + card (missing root A s') \<le> budget s' + card (missing root A s) + 0) \<and> v = (phys + i) OR flags \<and>
           view root s' = (\<lambda>x. if vpn x = vpn (virt + i) then v else view root s x)"
proof -
  from s have inv: "vm_inv root s" "ctx_at ctx root s" by (simp_all add: aspace_def)
  let ?v = "(phys + i) OR flags"
  obtain t s1 where w: "s_virt_get_or_create_pte ctx (virt + i) False False s = Inr (t + 8 * i1 (virt + i), s1)"
      "t + 8 * i1 (virt + i) \<noteq> 0"
      "evolves (card (missing root {virt + i} s)) root s (wr64 (t + 8 * i1 (virt + i)) ?v s1)"
      "view root (wr64 (t + 8 * i1 (virt + i)) ?v s1) = set_page (virt + i) ?v (view root s)"
      "tbl_of (wr64 (t + 8 * i1 (virt + i)) ?v s1) root (pt_path (virt + i)) = Some t"
    using map_page [OF inv free [unfolded budget_def add_0]] by blast
  let ?s = "wr64 (t + 8 * i1 (virt + i)) ?v s1"
  let ?r = "if ctx = 0 then invlpg (virt + i) ?s else ?s"
  have "virt_map_step ctx phys virt flags False i s = Inr ((), ?r)"
    using w(1,2) by (simp add: virt_map_step_def Let_def)
  moreover have e: "evolves (card (missing root {virt + i} s)) root s ?r" by (rule evolves_opt_invlpg(1) [OF w(3)])
  moreover have "view root ?r = set_page (virt + i) ?v (view root s)"
    using evolves_opt_invlpg(2) [OF w(3)] w(4) by (simp only:)
  moreover have "tbl_of ?r root (pt_path (virt + i)) = Some t" using w(5) by (simp only: missing_opt_invlpg)
  ultimately show ?thesis
    using aspace_evolves [OF s e] page_pays [of 0, simplified, OF e] by (simp add: set_page_def)
qed

lemma virt_map_user_step_ok:
  assumes s: "aspace ctx root s" and free: "0 + card (missing root {virt + i} s) \<le> budget s"
  shows "\<exists>s' v. virt_map_user_step ctx phys virt flags False i s = Inr ((), s') \<and> aspace ctx root s' \<and>
           preserves root s s' \<and>
           (\<forall>A. finite A \<longrightarrow> virt + i \<in> A \<longrightarrow>
              budget s + card (missing root A s') \<le> budget s' + card (missing root A s) + 0) \<and> v = phys OR flags \<and>
           view root s' = (\<lambda>x. if vpn x = vpn (virt + i) then v else view root s x)"
proof -
  from s have inv: "vm_inv root s" "ctx_at ctx root s" by (simp_all add: aspace_def)
  obtain t s1 where w: "s_virt_get_or_create_pte ctx (virt + i) True False s = Inr (t + 8 * i1 (virt + i), s1)"
      "t + 8 * i1 (virt + i) \<noteq> 0"
      "evolves (card (missing root {virt + i} s)) root s (wr64 (t + 8 * i1 (virt + i)) (phys OR flags) s1)"
      "view root (wr64 (t + 8 * i1 (virt + i)) (phys OR flags) s1) =
         set_page (virt + i) (phys OR flags) (view root s)"
      "tbl_of (wr64 (t + 8 * i1 (virt + i)) (phys OR flags) s1) root (pt_path (virt + i)) = Some t"
    using map_page [OF inv free [unfolded budget_def add_0]] by blast
  then show ?thesis
    using aspace_evolves [OF s w(3)] page_pays [of 0, simplified, OF w(3,5)]
    by (simp add: virt_map_user_step_def set_page_def)
qed

lemma virt_unmap_step_ok:
  assumes s: "aspace ctx root s"
  shows "\<exists>s' v. virt_unmap_step ctx addr i s = Inr ((), s') \<and> aspace ctx root s' \<and>
           preserves root s s' \<and>
           (\<forall>A. finite A \<longrightarrow> addr + i \<in> A \<longrightarrow> budget s + 0 \<le> budget s' + 0 + 0) \<and> v = 0 \<and>
           view root s' = (\<lambda>x. if vpn x = vpn (addr + i) then v else view root s x)"
proof -
  from s have inv: "vm_inv root s" "ctx_at ctx root s" by (simp_all add: aspace_def)
  show ?thesis
  proof (cases "tbl_of s root (pt_path (addr + i))")
    case None
    then have "view root s x = 0" if "vpn x = vpn (addr + i)" for x
      using that by (simp add: view_def vpn_eq_iff)
    then show ?thesis
      using s None preserves_refl [OF s] by (simp add: virt_unmap_step_def get_pte_eq [OF inv] fun_eq_iff)
  next
    case (Some t)
    let ?p = "t + 8 * i1 (addr + i)" and ?s = "wr64 (t + 8 * i1 (addr + i)) 0 s"
    have nz: "?p \<noteq> 0" by (rule table_cell(3) [OF inv(1) valid_pt_path Some]) simp
    note w = write_pte [OF inv(1) Some, of 0]
    let ?r = "if ctx = 0 then invlpg (addr + i) ?s else ?s"
    have e: "evolves 0 root s ?r" by (rule evolves_opt_invlpg(1) [OF w(1)])
    have "virt_unmap_step ctx addr i s = Inr ((), ?r)"
      using nz Some by (simp add: virt_unmap_step_def get_pte_eq [OF inv] Let_def)
    moreover have "view root ?r = (\<lambda>x. if vpn x = vpn (addr + i) then 0 else view root s x)"
      using evolves_opt_invlpg(2) [OF w(1)] w(2) by (simp only:)
    ultimately show ?thesis using aspace_evolves [OF s e] by simp
  qed
qed

interpretation map_loop: page_writer "aspace ctx root" "view root" budget "preserves root" vpn
    "\<lambda>i. virt + i" "\<lambda>i v. v = (phys + i) OR flags" 0 "\<lambda>A s. card (missing root A s)"
    "virt_map_step ctx phys virt flags False"
  for ctx root phys virt flags
  by unfold_locales (fact preserves_refl, fact preserves_trans, fact card_missing_mono, rule virt_map_step_ok)

interpretation map_user_loop: page_writer "aspace ctx root" "view root" budget "preserves root" vpn
    "\<lambda>i. virt + i" "\<lambda>i v. v = phys OR flags" 0 "\<lambda>A s. card (missing root A s)"
    "virt_map_user_step ctx phys virt flags False"
  for ctx root phys virt flags
  by unfold_locales (fact preserves_refl, fact preserves_trans, fact card_missing_mono, rule virt_map_user_step_ok)

interpretation unmap_loop: page_writer "aspace ctx root" "view root" budget "preserves root" vpn
    "\<lambda>i. addr + i" "\<lambda>i v. v = 0" 0 "\<lambda>A s. 0" "virt_unmap_step ctx addr"
  for ctx root addr
  by unfold_locales (fact preserves_refl, fact preserves_trans, simp, rule virt_unmap_step_ok)

text \<open>The loops of a range of at most \<open>2 ^ 48\<close> bytes.\<close>

lemma map_range_exact:
  assumes "aspace ctx root s" and "unat len \<le> 2 ^ 48"
    and "card (missing root (pages virt (iters VIRT_PAGE_SIZE len)) s) \<le> budget s"
  obtains s' where "for_step VIRT_PAGE_SIZE 0 len (virt_map_step ctx phys virt flags False) s = Inr ((), s')"
    and "map_loop.passed ctx root virt phys flags VIRT_PAGE_SIZE (iters VIRT_PAGE_SIZE len) s s'"
proof -
  have "\<exists>s'. for_step VIRT_PAGE_SIZE 0 len (virt_map_step ctx phys virt flags False) s = Inr ((), s') \<and>
      map_loop.passed ctx root virt phys flags VIRT_PAGE_SIZE (iters VIRT_PAGE_SIZE len) s s'"
    by (rule map_loop.range_loop [OF _ iters_page_small(2) [OF assms(2)] assms(1)])
      (use assms(3) vpn_pages_inj [OF assms(2), of _ _ virt] in \<open>auto simp: page_step map_loop.targets_def pages_def\<close>)
  then show ?thesis using that by blast
qed

lemma map_range:
  assumes "aspace ctx root s" and "unat len \<le> 2 ^ 48" and "max_tables (iters VIRT_PAGE_SIZE len) \<le> budget s"
  obtains s' where "for_step VIRT_PAGE_SIZE 0 len (virt_map_step ctx phys virt flags False) s = Inr ((), s')"
    and "map_loop.passed ctx root virt phys flags VIRT_PAGE_SIZE (iters VIRT_PAGE_SIZE len) s s'"
    and "budget s \<le> budget s' + max_tables (iters VIRT_PAGE_SIZE len)"
proof -
  note need = card_missing_pages [of root virt "iters VIRT_PAGE_SIZE len" s]
  obtain s' where s': "for_step VIRT_PAGE_SIZE 0 len (virt_map_step ctx phys virt flags False) s = Inr ((), s')"
      "map_loop.passed ctx root virt phys flags VIRT_PAGE_SIZE (iters VIRT_PAGE_SIZE len) s s'"
    by (rule map_range_exact [OF assms(1,2) le_trans [OF need assms(3)]])
  moreover have "budget s \<le> budget s' + max_tables (iters VIRT_PAGE_SIZE len)"
    using map_loop.passed_free [OF s'(2)] need by (simp add: map_loop.targets_def pages_def)
  ultimately show ?thesis by (rule that)
qed

lemma map_user_range_exact:
  assumes "aspace ctx root s" and "unat len \<le> 2 ^ 48"
    and "card (missing root (pages virt (iters VIRT_PAGE_SIZE len)) s) \<le> budget s"
  obtains s' where "for_step VIRT_PAGE_SIZE 0 len (virt_map_user_step ctx phys virt flags False) s = Inr ((), s')"
    and "map_user_loop.passed ctx root virt phys flags VIRT_PAGE_SIZE (iters VIRT_PAGE_SIZE len) s s'"
proof -
  have "\<exists>s'. for_step VIRT_PAGE_SIZE 0 len (virt_map_user_step ctx phys virt flags False) s = Inr ((), s') \<and>
      map_user_loop.passed ctx root virt phys flags VIRT_PAGE_SIZE (iters VIRT_PAGE_SIZE len) s s'"
    by (rule map_user_loop.range_loop [OF _ iters_page_small(2) [OF assms(2)] assms(1)])
      (use assms(3) in \<open>auto simp: page_step map_user_loop.targets_def pages_def\<close>)
  then show ?thesis using that by blast
qed

lemma map_user_range:
  assumes "aspace ctx root s" and "unat len \<le> 2 ^ 48" and "max_tables (iters VIRT_PAGE_SIZE len) \<le> budget s"
  obtains s' where "for_step VIRT_PAGE_SIZE 0 len (virt_map_user_step ctx phys virt flags False) s = Inr ((), s')"
    and "map_user_loop.passed ctx root virt phys flags VIRT_PAGE_SIZE (iters VIRT_PAGE_SIZE len) s s'"
    and "budget s \<le> budget s' + max_tables (iters VIRT_PAGE_SIZE len)"
proof -
  note need = card_missing_pages [of root virt "iters VIRT_PAGE_SIZE len" s]
  obtain s' where s': "for_step VIRT_PAGE_SIZE 0 len (virt_map_user_step ctx phys virt flags False) s = Inr ((), s')"
      "map_user_loop.passed ctx root virt phys flags VIRT_PAGE_SIZE (iters VIRT_PAGE_SIZE len) s s'"
    by (rule map_user_range_exact [OF assms(1,2) le_trans [OF need assms(3)]])
  moreover have "budget s \<le> budget s' + max_tables (iters VIRT_PAGE_SIZE len)"
    using map_user_loop.passed_free [OF s'(2)] need by (simp add: map_user_loop.targets_def pages_def)
  ultimately show ?thesis by (rule that)
qed

lemma unmap_range:
  assumes "aspace ctx root s" and "unat len \<le> 2 ^ 48"
  obtains s' where "virt_unmap ctx addr len s = Inr ((), s')"
    and "unmap_loop.passed ctx root addr VIRT_PAGE_SIZE (iters VIRT_PAGE_SIZE len) s s'"
    and "budget s \<le> budget s'"
proof -
  have "\<exists>s'. for_step VIRT_PAGE_SIZE 0 len (virt_unmap_step ctx addr) s = Inr ((), s') \<and>
      unmap_loop.passed ctx root addr VIRT_PAGE_SIZE (iters VIRT_PAGE_SIZE len) s s'"
    by (rule unmap_loop.range_loop [OF _ iters_page_small(2) [OF assms(2)] assms(1)]) (simp_all add: page_step)
  then obtain s' where s': "for_step VIRT_PAGE_SIZE 0 len (virt_unmap_step ctx addr) s = Inr ((), s')"
      "unmap_loop.passed ctx root addr VIRT_PAGE_SIZE (iters VIRT_PAGE_SIZE len) s s'" by blast
  moreover have "budget s \<le> budget s'" using unmap_loop.passed_free [OF s'(2)] by simp
  ultimately show ?thesis unfolding virt_unmap_def [symmetric] by (rule that)
qed

section \<open>Finding room\<close>

definition unmapped_at :: "u64 \<Rightarrow> u64 \<Rightarrow> 'z virt_scheme \<Rightarrow> u64 \<Rightarrow> bool" where
  "unmapped_at root len s addr \<longleftrightarrow>
     (\<forall>k<iters VIRT_PAGE_SIZE len. view root s (addr + of_nat k * VIRT_PAGE_SIZE) = 0)"

lemma is_address_mapped_eq:
  assumes "aspace ctx root s"
  shows "s_virt_is_address_mapped ctx va s = Inr (view root s va \<noteq> 0, s)"
proof -
  from assms have inv: "vm_inv root s" "ctx_at ctx root s" by (simp_all add: aspace_def)
  have "t + 8 * i1 va \<noteq> 0" if "tbl_of s root (pt_path va) = Some t" for t
    by (rule table_cell(3) [OF inv(1) valid_pt_path that]) simp
  then show ?thesis
    by (auto simp: s_virt_is_address_mapped_def get_pte_eq [OF inv] view_def split: option.splits)
qed

lemma range_unmapped_eq:
  assumes "aspace ctx root s" and "unat len \<le> 2 ^ 48"
  shows "range_unmapped ctx len addr s = Inr (unmapped_at root len s addr, s)"
proof -
  let ?p = "\<lambda>k. view root s (addr + of_nat k * VIRT_PAGE_SIZE) \<noteq> 0"
  have "search_step VIRT_PAGE_SIZE 0 len (\<lambda>i. s_virt_is_address_mapped ctx (addr + i)) s =
      Inr (if \<exists>j<iters VIRT_PAGE_SIZE len. ?p j
           then Some (of_nat (LEAST j. j < iters VIRT_PAGE_SIZE len \<and> ?p j) * VIRT_PAGE_SIZE) else None, s)"
    using iters_page_small(2) [OF assms(2)]
    by (intro search_step_pure) (simp_all add: is_address_mapped_eq [OF assms(1)] page_step)
  then show ?thesis by (auto simp: range_unmapped_def unmapped_at_def)
qed

text \<open>
  The search ends: with the first address of the sequence whose range is unmapped, or with 0 after
  trying all of them.
\<close>

text \<open>The first room from the next page on is the first from here on when there is none here.\<close>

lemma first_shift:
  assumes "\<exists>k. B (Suc k) \<and> P (Suc k) \<and> (\<forall>j<k. \<not> P (Suc j)) \<and> Q (Suc k)" and "\<not> P 0"
  shows "\<exists>k. B k \<and> P k \<and> (\<forall>j<k. \<not> P j) \<and> Q k"
proof -
  obtain k where k: "B (Suc k)" "P (Suc k)" "\<forall>j<k. \<not> P (Suc j)" "Q (Suc k)" using assms(1) by blast
  then have "\<forall>j<Suc k. \<not> P j" using assms(2) by (simp add: All_less_Suc2)
  with k show ?thesis by blast
qed

lemma all_shift: "(\<And>k. B (Suc k) \<longrightarrow> \<not> P (Suc k)) \<Longrightarrow> \<not> P 0 \<Longrightarrow> \<forall>k. B k \<longrightarrow> \<not> P (k :: nat)"
  by (metis not0_implies_Suc)

lemma place_range_spec:
  assumes "aspace ctx root s" and "unat len \<le> 2 ^ 48" and "unat limit + 4096 \<le> 2 ^ 64"
  shows "(\<exists>k. unat addr + 4096 * k < unat limit \<and>
              unmapped_at root len s (addr + of_nat k * VIRT_PAGE_SIZE) \<and>
              (\<forall>j<k. \<not> unmapped_at root len s (addr + of_nat j * VIRT_PAGE_SIZE)) \<and>
              place_range ctx len limit fill addr s =
                Some (bindk (for_step VIRT_PAGE_SIZE 0 len (fill (addr + of_nat k * VIRT_PAGE_SIZE)) s)
                        (\<lambda>_ s''. Inr (addr + of_nat k * VIRT_PAGE_SIZE, s'')))) \<or>
         ((\<forall>k. unat addr + 4096 * k < unat limit \<longrightarrow>
              \<not> unmapped_at root len s (addr + of_nat k * VIRT_PAGE_SIZE)) \<and>
          place_range ctx len limit fill addr s = Some (Inr (0, s)))"
  (is "?found addr \<or> ?none addr")
proof (induction "unat limit - unat addr" arbitrary: addr rule: less_induct)
  case less
  show ?case
  proof (cases "addr < limit")
    case False
    then show ?thesis by (subst place_range.simps) (simp add: word_less_nat_alt)
  next
    case True
    then have lt: "unat addr < unat limit" by (simp add: word_less_nat_alt)
    show ?thesis
    proof (cases "unmapped_at root len s addr")
      case found: True
      then have "place_range ctx len limit fill addr s =
          Some (bindk (for_step VIRT_PAGE_SIZE 0 len (fill addr) s) (\<lambda>_ s''. Inr (addr, s'')))"
        using True by (subst place_range.simps) (simp add: range_unmapped_eq [OF assms(1,2)])
      then have "?found addr" using found lt by (intro exI [of _ 0]) simp
      then show ?thesis ..
    next
      case mapped: False
      let ?next = "addr + VIRT_PAGE_SIZE"
      have nx: "unat ?next = unat addr + 4096"
        using lt assms(3) page_step by (subst unat_add_no_wrap) simp_all
      have step: "place_range ctx len limit fill addr s = place_range ctx len limit fill ?next s"
        using True mapped by (subst place_range.simps) (simp add: range_unmapped_eq [OF assms(1,2)])
      have shift: "?next + of_nat k * VIRT_PAGE_SIZE = addr + of_nat (Suc k) * VIRT_PAGE_SIZE" for k
        by (simp add: algebra_simps)
      have bnd: "unat ?next + 4096 * k < unat limit \<longleftrightarrow> unat addr + 4096 * Suc k < unat limit" for k
        unfolding nx by (simp add: algebra_simps)
      have "?found ?next \<or> ?none ?next" using less [of ?next] lt by (simp add: nx)
      then show ?thesis
      proof
        assume "?found ?next"
        then have "\<exists>k. unat addr + 4096 * Suc k < unat limit \<and>
            unmapped_at root len s (addr + of_nat (Suc k) * VIRT_PAGE_SIZE) \<and>
            (\<forall>j<k. \<not> unmapped_at root len s (addr + of_nat (Suc j) * VIRT_PAGE_SIZE)) \<and>
            place_range ctx len limit fill addr s =
              Some (bindk (for_step VIRT_PAGE_SIZE 0 len (fill (addr + of_nat (Suc k) * VIRT_PAGE_SIZE)) s)
                      (\<lambda>_ s''. Inr (addr + of_nat (Suc k) * VIRT_PAGE_SIZE, s'')))"
          unfolding shift bnd step .
        then have "?found addr" by (rule first_shift) (use mapped in simp)
        then show ?thesis ..
      next
        assume n: "?none ?next"
        have "\<forall>k. unat addr + 4096 * k < unat limit \<longrightarrow> \<not> unmapped_at root len s (addr + of_nat k * VIRT_PAGE_SIZE)"
          by (rule all_shift) (use n [unfolded shift bnd] in blast, use mapped in simp)
        then have "?none addr" using n step by simp
        then show ?thesis ..
      qed
    qed
  qed
qed

text \<open>Unmapping a range that was not mapped before someone mapped it undoes the mapping.\<close>

lemma unmapped_again:
  assumes "unmapped_at root len s virt"
    and "\<And>x. \<forall>k<iters VIRT_PAGE_SIZE len. vpn x \<noteq> vpn (virt + of_nat k * VIRT_PAGE_SIZE) \<Longrightarrow> view root t x = view root s x"
    and "unmap_loop.passed ctx root virt VIRT_PAGE_SIZE (iters VIRT_PAGE_SIZE len) t s'"
  shows "view root s' = view root s"
proof (rule ext)
  fix x
  show "view root s' x = view root s x"
  proof (cases "\<exists>k<iters VIRT_PAGE_SIZE len. vpn x = vpn (virt + of_nat k * VIRT_PAGE_SIZE)")
    case True
    then obtain k where k: "k < iters VIRT_PAGE_SIZE len" "vpn x = vpn (virt + of_nat k * VIRT_PAGE_SIZE)" by blast
    have "view root s x = view root s (virt + of_nat k * VIRT_PAGE_SIZE)"
      by (rule view_cong [OF k(2)])
    moreover have "view root s' x = 0" using assms(3) k unfolding unmap_loop.passed_def by blast
    ultimately show ?thesis using assms(1) k(1) unfolding unmapped_at_def by metis
  next
    case False
    then have "view root t x = view root s x" by (intro assms(2)) blast
    moreover have "view root s' x = view root t x" using assms(3) False unfolding unmap_loop.passed_def by blast
    ultimately show ?thesis by simp
  qed
qed

text \<open>\<open>virt_map_anywhere\<close>: the search, then the same passes as \<open>virt_map\<close>.\<close>

lemma map_anywhere_spec:
  assumes "aspace ctx root s" and "unat len \<le> 2 ^ 48" and "max_tables (iters VIRT_PAGE_SIZE len) \<le> budget s"
  defines "start \<equiv> s_virt_hhdm_offset s + VIRT_PAGE_SIZE"
  shows "\<exists>a s'. virt_map_anywhere ctx phys len flags s = Inr (a, s') \<and>
    preserves root s s' \<and> budget s \<le> budget s' + max_tables (iters VIRT_PAGE_SIZE len) \<and> aspace ctx root s' \<and>
    ((\<exists>k. a = start + of_nat k * VIRT_PAGE_SIZE \<and> unat start + 4096 * k < unat (0xffffffffffff0000 :: u64) \<and>
        unmapped_at root len s a \<and>
        (\<forall>j<k. \<not> unmapped_at root len s (start + of_nat j * VIRT_PAGE_SIZE)) \<and>
        aspace ctx root s' \<and>
        (\<forall>k<iters VIRT_PAGE_SIZE len.
           view root s' (a + of_nat k * VIRT_PAGE_SIZE) = (phys + of_nat k * VIRT_PAGE_SIZE) OR flags) \<and>
        (\<forall>x. (\<forall>k<iters VIRT_PAGE_SIZE len. vpn x \<noteq> vpn (a + of_nat k * VIRT_PAGE_SIZE)) \<longrightarrow>
           view root s' x = view root s x) \<and>
        quiet s s' \<and> (\<forall>x. kept root s x \<longrightarrow> mem s' x = mem s x)) \<or>
     (a = 0 \<and> s' = s \<and> (\<forall>k. unat start + 4096 * k < unat (0xffffffffffff0000 :: u64) \<longrightarrow>
        \<not> unmapped_at root len s (start + of_nat k * VIRT_PAGE_SIZE))))"
proof -
  have step: "virt_map_anywhere_step ctx phys flags a = virt_map_step ctx phys a flags False" for a
    by (simp add: fun_eq_iff virt_map_anywhere_step_def virt_map_step_def)
  have lim: "unat (0xffffffffffff0000 :: u64) + 4096 \<le> 2 ^ 64" by simp
  note place = place_range_spec [OF assms(1,2) lim, where addr = start and
      fill = "\<lambda>a. virt_map_step ctx phys a flags False"]
  have run: "virt_map_anywhere ctx phys len flags s =
      returns (place_range ctx len 0xffffffffffff0000 (\<lambda>a. virt_map_step ctx phys a flags False) start s)"
    by (simp add: virt_map_anywhere_def start_def step [symmetric])
  from place show ?thesis
  proof (elim disjE exE conjE)
    fix k
    let ?a = "start + of_nat k * VIRT_PAGE_SIZE"
    assume k: "unat start + 4096 * k < unat (0xffffffffffff0000 :: u64)" "unmapped_at root len s ?a"
      "\<forall>j<k. \<not> unmapped_at root len s (start + of_nat j * VIRT_PAGE_SIZE)"
      and r: "place_range ctx len 0xffffffffffff0000 (\<lambda>a. virt_map_step ctx phys a flags False) start s =
        Some (bindk (for_step VIRT_PAGE_SIZE 0 len (virt_map_step ctx phys ?a flags False) s)
                (\<lambda>_ s''. Inr (?a, s'')))"
    obtain s' where s': "for_step VIRT_PAGE_SIZE 0 len (virt_map_step ctx phys ?a flags False) s = Inr ((), s')"
        "map_loop.passed ctx root ?a phys flags VIRT_PAGE_SIZE (iters VIRT_PAGE_SIZE len) s s'"
        "budget s \<le> budget s' + max_tables (iters VIRT_PAGE_SIZE len)"
      by (rule map_range [OF assms(1-3)])
    then have "virt_map_anywhere ctx phys len flags s = Inr (?a, s')"
      using r by (simp add: run returns_def)
    moreover have "preserves root s s'" using s'(2) by (simp add: map_loop.passed_def)
    moreover have "quiet s s'" "\<forall>x. kept root s x \<longrightarrow> mem s' x = mem s x"
      using \<open>preserves root s s'\<close> by (auto simp: preserves_def evolves_def)
    moreover have "aspace ctx root s'"
      "\<forall>j<iters VIRT_PAGE_SIZE len.
         view root s' (?a + of_nat j * VIRT_PAGE_SIZE) = (phys + of_nat j * VIRT_PAGE_SIZE) OR flags"
      "\<forall>x. (\<forall>j<iters VIRT_PAGE_SIZE len. vpn x \<noteq> vpn (?a + of_nat j * VIRT_PAGE_SIZE)) \<longrightarrow>
         view root s' x = view root s x"
      using s'(2) unfolding map_loop.passed_def by blast+
    ultimately show ?thesis using k s'(3) by blast
  qed (use assms(1) preserves_refl in \<open>auto simp: run returns_def\<close>)
qed

end
