(* ===== verification/FirstFrames.thy ===== *)
theory FirstFrames
  imports VirtLoops
begin

text \<open>
  The three frames that \<open>virt_init\<close> takes, for the kernel's PDPT, for its context and for the top-level
  table, and the empty address space it makes of them.
\<close>

section \<open>The first frames\<close>

text \<open>What \<open>virt_init\<close> needs of the state: the page allocator is set up, and its bitmap lies in frames in use.\<close>

definition boot_ready :: "u64 \<Rightarrow> 'z phys_scheme \<Rightarrow> bool" where
  "boot_ready off s \<longleftrightarrow> alloc_wf s \<and> aligned 4096 off \<and> off \<noteq> 0 \<and> unat off + covered s * 4096 \<le> 2 ^ 64 \<and>
     (\<forall>x. in_bitmap s x \<longrightarrow> frame_of (x - off) < covered s \<and> frame_used s (frame_of (x - off)))"

text \<open>
  The third free frame, which becomes the top-level table, is zero. The code does not see to that.
\<close>

definition pml4_zeroed :: "u64 \<Rightarrow> 'z phys_scheme \<Rightarrow> bool" where
  "pml4_zeroed off s \<longleftrightarrow>
     (\<forall>f\<in>free_frames s. card {g\<in>free_frames s. g < f} = 2 \<longrightarrow> (\<forall>x. frame_of (x - off) = f \<longrightarrow> mem s x = 0))"

lemma take_frame:
  assumes "phys_wf s" and "free_frames s \<noteq> {}"
  obtains f m where "phys_alloc s = (frame_addr f, s\<lparr>mem := m\<rparr>)" and "f \<in> free_frames s"
    and "\<And>g. g \<in> free_frames s \<Longrightarrow> f \<le> g" and "free_frames (s\<lparr>mem := m\<rparr>) = free_frames s - {f}"
    and "\<And>x. \<not> in_bitmap s x \<Longrightarrow> m x = mem s x"
    and "\<And>g. g < covered s \<Longrightarrow> frame_used (s\<lparr>mem := m\<rparr>) g \<longleftrightarrow> g = f \<or> frame_used s g"
  using assms(1)
proof (cases rule: phys_alloc_cases)
  case (frame f)
  have f: "f < 2 ^ 52" using frame_bound [OF assms(1) frame(1)] by simp
  have eq: "phys_mark_used (frame_addr f) s = s\<lparr>mem := mem (phys_mark_used (frame_addr f) s)\<rparr>"
    by (simp add: phys_mark_used_def Let_def)
  show ?thesis
  proof (rule that [of f "mem (phys_mark_used (frame_addr f) s)"], unfold eq [symmetric])
    show "g \<in> free_frames s \<Longrightarrow> f \<le> g" for g using frame(3) by (auto simp: free_frames_def not_less [symmetric])
    show "free_frames (phys_mark_used (frame_addr f) s) = free_frames s - {f}" by (rule free_frames_mark [OF assms(1) f])
    show "mem (phys_mark_used (frame_addr f) s) x = mem s x" if "\<not> in_bitmap s x" for x
      by (rule mark_used_mem [OF assms(1) _ that]) (simp add: frame_of_addr [OF f] frame(1) del: frame_of_addr)
    show "frame_used (phys_mark_used (frame_addr f) s) g \<longleftrightarrow> g = f \<or> frame_used s g" if "g < covered s" for g
      using frame_used_mark_used [of s g "frame_addr f"] assms(1) frame_bound [OF assms(1) that] f by (simp add: phys_wf_def)
  qed (use frame in \<open>simp_all add: free_frames_def\<close>)
next
  case full
  then show ?thesis using assms(2) by (auto simp: free_frames_def)
qed

lemma empty_space:
  assumes wf: "alloc_wf s" and h: "aligned 4096 (s_virt_hhdm_offset s)" "s_virt_hhdm_offset s \<noteq> 0"
      "unat (s_virt_hhdm_offset s) + covered s * 4096 \<le> 2 ^ 64"
    and bm: "\<And>x. in_bitmap s x \<Longrightarrow> kpage s x"
    and root: "aligned 4096 root" "kpage s root" "\<And>x. in_bitmap s x \<Longrightarrow> page x \<noteq> page root"
    and zero: "\<And>x. page x = page root \<Longrightarrow> mem s x = 0"
  shows "vm_inv root s" and "view root s = (\<lambda>_. 0)"
    and "kpage s x \<Longrightarrow> \<not> in_bitmap s x \<Longrightarrow> page x \<noteq> page root \<Longrightarrow> kept root s x"
proof -
  have entry: "rd64 s (root + 8 * i) = 0" if i: "i < 512" for i
  proof -
    have "aligned 8 (root + 8 * i)" "page (root + 8 * i) = page root"
      using aligned_offset [OF root(1)] page_offset [OF root(1)] index_offset [OF i] by simp_all
    then show ?thesis unfolding load64_eq_0_iff using cell_page zero by metis
  qed
  have tb: "tbl_of s root q = (if q = [] then Some root else None)" if "valid_path q" for q
    using that by (induction q) (auto simp: entry)
  have "table_page s root" using root by (auto simp: table_page_def)
  then show "vm_inv root s"
    using wf h bm tb entry unfolding vm_inv_def by (auto simp: dir_entry_def split: if_splits)
  show "view root s = (\<lambda>_. 0)"
    using tb [OF valid_pt_path] by (simp add: view_def fun_eq_iff) (simp add: pt_path_def)
  show "kpage s x \<Longrightarrow> \<not> in_bitmap s x \<Longrightarrow> page x \<noteq> page root \<Longrightarrow> kept root s x"
    using tb unfolding kept_def by (auto split: if_splits)
qed

section \<open>Three frames\<close>

text \<open>The frames \<open>f1\<close>, \<open>f2\<close>, \<open>f3\<close> are taken, in this order, and \<open>m\<close> is the memory with them marked.\<close>

definition taken :: "'z phys_scheme \<Rightarrow> nat \<Rightarrow> nat \<Rightarrow> nat \<Rightarrow> mem \<Rightarrow> bool" where
  "taken s f1 f2 f3 m \<longleftrightarrow>
     {f1, f2, f3} \<subseteq> free_frames s \<and> distinct [f1, f2, f3] \<and> card {g \<in> free_frames s. g < f3} = 2 \<and>
     (\<forall>x. \<not> in_bitmap s x \<longrightarrow> m x = mem s x) \<and>
     (\<forall>g<covered s. frame_used (s\<lparr>mem := m\<rparr>) g \<longleftrightarrow> g \<in> {f1, f2, f3} \<or> frame_used s g)"

text \<open>One allocation, as a step from memory \<open>m\<close> to memory \<open>m'\<close>.\<close>

definition grabs :: "'z phys_scheme \<Rightarrow> mem \<Rightarrow> nat \<Rightarrow> mem \<Rightarrow> bool" where
  "grabs s m f m' \<longleftrightarrow>
     phys_alloc (s\<lparr>mem := m\<rparr>) = (frame_addr f, s\<lparr>mem := m'\<rparr>) \<and> f \<in> free_frames (s\<lparr>mem := m\<rparr>) \<and>
     (\<forall>g\<in>free_frames (s\<lparr>mem := m\<rparr>). f \<le> g) \<and> free_frames (s\<lparr>mem := m'\<rparr>) = free_frames (s\<lparr>mem := m\<rparr>) - {f} \<and>
     (\<forall>x. \<not> in_bitmap s x \<longrightarrow> m' x = m x) \<and>
     (\<forall>g<covered s. frame_used (s\<lparr>mem := m'\<rparr>) g \<longleftrightarrow> g = f \<or> frame_used (s\<lparr>mem := m\<rparr>) g)"

lemma grabsI:
  assumes "phys_wf s" and "0 < card (free_frames (s\<lparr>mem := m\<rparr>))"
  shows "\<exists>f m'. grabs s m f m'"
proof -
  have same: "phys_wf (s\<lparr>mem := m\<rparr>) = phys_wf s" "covered (s\<lparr>mem := m\<rparr>) = covered s"
    "in_bitmap (s\<lparr>mem := m\<rparr>) = in_bitmap s"
    by (simp_all add: phys_wf_def covered_def in_bitmap_def fun_eq_iff)
  have "free_frames (s\<lparr>mem := m\<rparr>) \<noteq> {}" using assms(2) unfolding card_gt_0_iff ..
  then show ?thesis
  proof (rule take_frame [OF assms(1) [folded same(1)]], goal_cases)
    case (1 f m')
    then show ?case by (intro exI [of _ f] exI [of _ m']) (simp add: grabs_def same)
  qed
qed

lemma three_frames:
  assumes "phys_wf s" and "3 \<le> card (free_frames s)"
  obtains f1 f2 f3 m1 m2 m3 where "phys_alloc s = (frame_addr f1, s\<lparr>mem := m1\<rparr>)"
    and "phys_alloc (s\<lparr>mem := m1\<rparr>) = (frame_addr f2, s\<lparr>mem := m2\<rparr>)"
    and "phys_alloc (s\<lparr>mem := m2\<rparr>) = (frame_addr f3, s\<lparr>mem := m3\<rparr>)"
    and "taken s f1 f2 f3 m3"
proof -
  have fin: "finite (free_frames s)" by (simp add: free_frames_def)
  have "0 < card (free_frames (s\<lparr>mem := mem s\<rparr>))" using assms(2) by simp
  from grabsI [OF assms(1) this] obtain f1 m1 where "grabs s (mem s) f1 m1" by blast
  note 1 = this [unfolded grabs_def, simplified]
  have "0 < card (free_frames (s\<lparr>mem := m1\<rparr>))" using assms(2) 1 fin by simp
  from grabsI [OF assms(1) this] obtain f2 m2 where "grabs s m1 f2 m2" by blast
  note 2 = this [unfolded grabs_def]
  have F1: "free_frames (s\<lparr>mem := m1\<rparr>) = free_frames s - {f1}" and F2: "free_frames (s\<lparr>mem := m2\<rparr>) = free_frames s - {f1, f2}"
    using 1 2 by auto
  have f: "f1 \<in> free_frames s" "f2 \<in> free_frames s" "f2 \<noteq> f1" using 1 2 F1 by auto
  then have "card (free_frames s - {f1, f2}) = card (free_frames s) - 2" by (subst card_Diff_subset) auto
  then have "0 < card (free_frames (s\<lparr>mem := m2\<rparr>))" using assms(2) F2 by simp
  from grabsI [OF assms(1) this] obtain f3 m3 where "grabs s m2 f3 m3" by blast
  note 3 = this [unfolded grabs_def F2]
  have f3: "f3 \<in> free_frames s" "f3 \<noteq> f1" "f3 \<noteq> f2" using 3 by auto
  then have "f1 < f3" "f2 < f3" using 1 2 unfolding F1 by (auto simp: le_less)
  moreover have "f3 \<le> g" if "g \<in> free_frames s" "g \<notin> {f1, f2}" for g using 3 that by blast
  ultimately have "{g \<in> free_frames s. g < f3} = {f1, f2}" using f by (force simp: not_less [symmetric])
  then have "taken s f1 f2 f3 m3" using f f3 1 2 3 by (auto simp: taken_def)
  then show ?thesis by (rule that [OF conjunct1 [OF 1] conjunct1 [OF 2] conjunct1 [OF 3]])
qed

text \<open>The allocator does not look at the variables of \<open>virt.c\<close>.\<close>

lemma phys_alloc_other:
  assumes u: "\<And>t. mem (u t) = mem t" "\<And>t. s_phys_bitmap (u t) = s_phys_bitmap t"
    "\<And>t. s_phys_bitmap_size (u t) = s_phys_bitmap_size t" "\<And>t m. u (t\<lparr>mem := m\<rparr>) = (u t)\<lparr>mem := m\<rparr>"
  shows "phys_alloc (u s) = apsnd u (phys_alloc s)"
proof -
  have "phys_alloc_from i (u s) = apsnd u (phys_alloc_from i s)" for i
  proof (induction i s rule: phys_alloc_from.induct)
    case (1 i s)
    have cell: "bitmap_cell (u s) i = bitmap_cell s i" by (simp add: bitmap_cell_def u)
    show ?case
      by (subst (1 2) phys_alloc_from.simps) (use "1.IH" in \<open>auto simp: Let_def cell u split: option.split\<close>)
  qed
  then show ?thesis by (simp add: phys_alloc_def)
qed

lemma phys_alloc_virt:
  assumes "phys_alloc (s\<lparr>mem := m\<rparr>) = (a, s\<lparr>mem := m'\<rparr>)"
  shows "phys_alloc (s\<lparr>mem := m, s_virt_hhdm_offset := h\<rparr>) = (a, s\<lparr>mem := m', s_virt_hhdm_offset := h\<rparr>)"
    and "phys_alloc (s\<lparr>mem := m, s_virt_hhdm_offset := h, s_kernel_pdpt_virt := pd\<rparr>) =
           (a, s\<lparr>mem := m', s_virt_hhdm_offset := h, s_kernel_pdpt_virt := pd\<rparr>)"
  using phys_alloc_other [of "\<lambda>t. t\<lparr>s_virt_hhdm_offset := h\<rparr>" "s\<lparr>mem := m\<rparr>"]
    phys_alloc_other [of "\<lambda>t. t\<lparr>s_virt_hhdm_offset := h, s_kernel_pdpt_virt := pd\<rparr>" "s\<lparr>mem := m\<rparr>"]
  by (simp_all add: assms)

section \<open>The context\<close>

text \<open>The context is written to frame \<open>f2\<close>, and its top-level table is frame \<open>f3\<close>.\<close>

definition context_state :: "u64 \<Rightarrow> u64 \<Rightarrow> nat \<Rightarrow> nat \<Rightarrow> mem \<Rightarrow> 'z virt_scheme \<Rightarrow> 'z virt_scheme" where
  "context_state off pd f2 f3 m s =
     s\<lparr>mem := store64 (store64 m (frame_addr f2 + off) (frame_addr f3)) (frame_addr f2 + off + 8) (frame_addr f3 + off),
       s_virt_hhdm_offset := off, s_kernel_pdpt_virt := pd\<rparr>"

lemma boot_readyD:
  assumes "boot_ready off s"
  shows "alloc_wf s" "phys_wf s" "frame_used s 0" "aligned 4096 off" "off \<noteq> 0" "unat off + covered s * 4096 \<le> 2 ^ 64"
    and "in_bitmap s x \<Longrightarrow> frame_of (x - off) < covered s" and "in_bitmap s x \<Longrightarrow> frame_used s (frame_of (x - off))"
  using assms by (auto simp: boot_ready_def alloc_wf_def)

lemma takenD:
  assumes "boot_ready off s" and "taken s f1 f2 f3 m" and "g \<in> {f1, f2, f3}"
  shows "g < covered s" "\<not> frame_used s g" "g < 2 ^ 40" "g \<noteq> 0"
    and "aligned 4096 (frame_addr g + off)" "frame_of (frame_addr g) = g"
    and "frame_of (x - off) = g \<Longrightarrow> \<not> in_bitmap s x"
proof -
  note r = boot_readyD [OF assms(1)]
  have "g \<in> free_frames s" using assms(2,3) by (auto simp: taken_def)
  then show g: "g < covered s" "\<not> frame_used s g" by (simp_all add: free_frames_def)
  then show "g < 2 ^ 40" "g \<noteq> 0" using frame_bound [OF r(2)] r(3) by metis+
  then have g52: "g < 2 ^ 52" by simp
  show "aligned 4096 (frame_addr g + off)"
    by (rule aligned_add [OF _ aligned_frame_addr [OF g52] r(4)]) simp
  show "frame_of (frame_addr g) = g" by (rule frame_of_addr [OF g52])
  show "frame_of (x - off) = g \<Longrightarrow> \<not> in_bitmap s x" using g(2) r(8) by blast
qed

lemma same_frame:
  assumes "aligned 4096 off"
  shows "page x = page y \<longleftrightarrow> frame_of (x - off) = frame_of (y - off)"
  using pfn_eq_iff [of "(undefined :: virt)\<lparr>s_virt_hhdm_offset := off\<rparr>" x y] assms by (simp add: pfn_def)

lemma context_state_frames:
  fixes s :: "'z virt_scheme" and pd :: u64
  assumes ready: "boot_ready off s" and tk: "taken s f1 f2 f3 m"
  defines "t \<equiv> context_state off pd f2 f3 m s"
  shows "s_virt_hhdm_offset t = off" "covered t = covered s" "in_bitmap t = in_bitmap s" "phys_wf t"
    and "page x \<noteq> page (frame_addr f2 + off) \<Longrightarrow> \<not> in_bitmap s x \<Longrightarrow> mem t x = mem s x"
    and "g < covered s \<Longrightarrow> frame_used t g \<longleftrightarrow> g \<in> {f1, f2, f3} \<or> frame_used s g"
    and "rd64 t (frame_addr f2 + off) = frame_addr f3" "rd64 t (frame_addr f2 + off + 8) = frame_addr f3 + off"
proof -
  let ?c = "frame_addr f2 + off"
  note r = boot_readyD [OF ready] and pg = same_frame [OF r(4)]
  show fields: "s_virt_hhdm_offset t = off" "covered t = covered s" "in_bitmap t = in_bitmap s" "phys_wf t"
    using r(2) by (simp_all add: t_def context_state_def covered_def in_bitmap_def phys_wf_def fun_eq_iff)
  have c: "aligned 4096 ?c" "frame_of (frame_addr f2) = f2" using takenD [OF ready tk, of f2] by simp_all
  have c8: "aligned 8 ?c" "aligned 8 (?c + 8)" "page (?c + 8) = page ?c"
    using c(1) aligned_page aligned_offset [of ?c 8] page_offset [of ?c 8] by (simp_all add: aligned_def)
  have mem: "mem t x = m x" if "page x \<noteq> page ?c" for x
    using that store64_other_page [OF c8(1)] store64_other_page [OF c8(2)] c8(3) by (simp add: t_def context_state_def)
  then show "page x \<noteq> page ?c \<Longrightarrow> \<not> in_bitmap s x \<Longrightarrow> mem t x = mem s x"
    using tk by (simp add: taken_def)
  show "frame_used t g \<longleftrightarrow> g \<in> {f1, f2, f3} \<or> frame_used s g" if g: "g < covered s"
  proof -
    have "frame_used t g = frame_used (s\<lparr>mem := m\<rparr>) g"
    proof (rule frame_used_cong)
      show "phys_wf (s\<lparr>mem := m\<rparr>)" "g < covered (s\<lparr>mem := m\<rparr>)" using r(2) g by (simp_all add: phys_wf_def covered_def)
      show "s_phys_bitmap t = s_phys_bitmap (s\<lparr>mem := m\<rparr>)" by (simp add: t_def context_state_def)
      fix x assume "in_bitmap (s\<lparr>mem := m\<rparr>) x"
      then have "in_bitmap s x" by (simp add: in_bitmap_def)
      then have "page x \<noteq> page ?c" using takenD(7) [OF ready tk, of f2 x] c(2) by (auto simp: pg)
      then show "mem t x = mem (s\<lparr>mem := m\<rparr>) x" using mem by simp
    qed
    then show ?thesis using tk g by (simp add: taken_def)
  qed
  have "?c \<noteq> ?c + 8" by simp
  then show "rd64 t ?c = frame_addr f3" "rd64 t (?c + 8) = frame_addr f3 + off"
    using mem64.load_store [OF c8(1,2)] by (simp_all add: t_def context_state_def load64_store64_same)
qed

lemma context_state_space:
  fixes s :: "'z virt_scheme" and pd :: u64
  assumes ready: "boot_ready off s" and tk: "taken s f1 f2 f3 m" and z: "pml4_zeroed off s"
  defines "t \<equiv> context_state off pd f2 f3 m s" and "ctx \<equiv> frame_addr f2 + off" and "root \<equiv> frame_addr f3 + off"
  shows "vm_inv root t" "view root t = (\<lambda>_. 0)" "ctx \<noteq> 0" and "k < 16 \<Longrightarrow> kept root t (ctx + of_nat k)"
    and "frame_of (x - off) < covered s \<Longrightarrow> frame_used s (frame_of (x - off)) \<Longrightarrow> \<not> in_bitmap s x \<Longrightarrow>
           mem t x = mem s x \<and> kept root t x"
proof -
  note r = boot_readyD [OF ready] and pg = same_frame [OF r(4)] and T = takenD [OF ready tk]
  note c = context_state_frames [OF ready tk, where pd = pd, folded t_def]
  have f: "f2 \<in> {f1, f2, f3}" "f3 \<in> {f1, f2, f3}" "f2 \<noteq> f3" using tk by (auto simp: taken_def)
  have fo: "frame_of (ctx - off) = f2" "frame_of (root - off) = f3"
    using T(6) f(1,2) by (simp_all add: ctx_def root_def)
  have kp: "kpage t x \<longleftrightarrow> frame_of (x - off) < covered s \<and>
      (frame_of (x - off) \<in> {f1, f2, f3} \<or> frame_used s (frame_of (x - off)))" for x
    unfolding kpage_def pfn_def c(1,2) using c(6) by blast
  have rt: "aligned 4096 root" "kpage t root" "\<And>x. in_bitmap t x \<Longrightarrow> page x \<noteq> page root"
    using T(1,5,7) f(2) by (auto simp: kp pg fo c(3)) (simp add: root_def)
  have zero: "mem t x = 0" if "page x = page root" for x
  proof -
    have x: "frame_of (x - off) = f3" using that by (simp add: pg fo)
    then have "mem t x = mem s x"
      using c(5) [of x, folded ctx_def] T(7) [OF f(2)] f(3) by (simp add: pg fo(1))
    also have "\<dots> = 0" using z tk x unfolding pml4_zeroed_def taken_def by blast
    finally show ?thesis .
  qed
  have "alloc_wf t" using c(4) c(6) [of 0] r(3) T(1) [OF f(2)] by (auto simp: alloc_wf_def)
  moreover have "kpage t x" if "in_bitmap t x" for x using r(7,8) that by (simp add: kp c(3))
  ultimately have kept: "vm_inv root t" "view root t = (\<lambda>_. 0)"
      "\<And>x. kpage t x \<Longrightarrow> \<not> in_bitmap t x \<Longrightarrow> page x \<noteq> page root \<Longrightarrow> kept root t x"
    using empty_space [of t root] r(4-6) rt zero by (simp_all add: c(1,2))
  then show "vm_inv root t" "view root t = (\<lambda>_. 0)" by blast+
  have ca: "aligned 4096 ctx" "kpage t ctx" using T(1,5) f(1) fo(1) by (simp_all add: kp) (simp_all add: ctx_def)
  from kpage_nonzero [OF kept(1) ca(2,1), of 0] show "ctx \<noteq> 0" by simp
  show "kept root t (ctx + of_nat k)" if "k < 16"
  proof -
    have "page (ctx + of_nat k) = page ctx" using page_offset [OF ca(1), of "of_nat k"] that by (simp add: unat_of_nat)
    then have x: "frame_of (ctx + of_nat k - off) = f2" by (simp only: pg fo)
    show ?thesis
      by (rule kept(3)) (use x T(1) [OF f(1)] T(7) [OF f(1) x] f(3) in \<open>simp_all add: kp pg fo c(3)\<close>)
  qed
  show "mem t x = mem s x \<and> kept root t x"
    if "frame_of (x - off) < covered s" "frame_used s (frame_of (x - off))" "\<not> in_bitmap s x"
  proof -
    have "frame_of (x - off) \<noteq> f2" "frame_of (x - off) \<noteq> f3" using T(2) f(1,2) that(2) by metis+
    then show ?thesis
      using c(5) [of x, folded ctx_def] kept(3) that by (simp add: kp pg fo c(3))
  qed
qed

end
