(* ===== verification/Overlay.thy ===== *)
theory Overlay
  imports VirtLoops
begin

text \<open>
  The ranges that \<open>virt_init\<close> maps, as overlays of a translation: what an address translates to after a
  list of ranges was put on it one after the other, and when the ranges of the direct map agree.
\<close>

section \<open>Overlays\<close>

text \<open>The number of the page of \<open>x\<close>, counted from the page of \<open>v\<close> and around the 48-bit address space.\<close>

definition page_no :: "u64 \<Rightarrow> u64 \<Rightarrow> nat" where
  "page_no v x = (unat (vpn x) + (2 ^ 36 - unat (vpn v))) mod 2 ^ 36"

text \<open>A translation with \<open>n\<close> pages from \<open>v\<close> on mapped to the frames from \<open>p\<close> on.\<close>

definition overlay :: "u64 \<Rightarrow> u64 \<Rightarrow> nat \<Rightarrow> u64 \<Rightarrow> (u64 \<Rightarrow> u64) \<Rightarrow> u64 \<Rightarrow> u64" where
  "overlay p v n fl V x =
     (if page_no v x < n then (p + of_nat (page_no v x) * VIRT_PAGE_SIZE) OR fl else V x)"

lemma unat_vpn_less: "unat (vpn x) < 2 ^ 36"
  by (simp add: unat_vpn)

lemma page_no_eq:
  assumes "k < 2 ^ 36"
  shows "vpn x = vpn (v + of_nat k * VIRT_PAGE_SIZE) \<longleftrightarrow> page_no v x = k"
proof -
  let ?m = "2 ^ 36 :: nat" and ?x = "unat (vpn x)" and ?v = "unat (vpn v)"
  have v: "unat (vpn (v + of_nat k * VIRT_PAGE_SIZE)) = (?v + k) mod ?m"
    using unat_vpn_offset [of v k] by (simp add: unat_vpn VIRT_PAGE_SIZE_def mod_add_left_eq)
  have lt: "?x < ?m" "?v < ?m" by (rule unat_vpn_less)+
  have "?x = (?v + k) mod ?m \<longleftrightarrow> (?x + (?m - ?v)) mod ?m = k"
  proof
    assume "?x = (?v + k) mod ?m"
    then have "(?x + (?m - ?v)) mod ?m = (?v + k + (?m - ?v)) mod ?m" by (simp add: mod_add_left_eq)
    also have "?v + k + (?m - ?v) = k + ?m" using lt by simp
    finally show "(?x + (?m - ?v)) mod ?m = k" using assms by simp
  next
    assume "(?x + (?m - ?v)) mod ?m = k"
    then have "(?v + k) mod ?m = (?v + (?x + (?m - ?v))) mod ?m" by (metis mod_add_right_eq)
    also have "?v + (?x + (?m - ?v)) = ?x + ?m" using lt by simp
    finally show "?x = (?v + k) mod ?m" using lt by simp
  qed
  then show ?thesis by (simp only: word_unat_eq_iff v page_no_def)
qed

lemma page_no_less: "page_no v x < 2 ^ 36"
  by (simp add: page_no_def)

lemma overlay_page:
  assumes "k < n" and "n \<le> 2 ^ 36" and "vpn x = vpn (v + of_nat k * VIRT_PAGE_SIZE)"
  shows "overlay p v n fl V x = (p + of_nat k * VIRT_PAGE_SIZE) OR fl"
proof -
  have "page_no v x = k" using page_no_eq [of k x v] assms by simp
  then show ?thesis using assms(1) by (simp add: overlay_def)
qed

lemma overlay_other:
  "\<forall>k<n. vpn x \<noteq> vpn (v + of_nat k * VIRT_PAGE_SIZE) \<Longrightarrow> overlay p v n fl V x = V x"
  using page_no_eq [OF page_no_less [of v x], of x v] by (auto simp: overlay_def)

lemma overlay_eqI:
  assumes "n \<le> 2 ^ 36"
    and "\<And>k x. k < n \<Longrightarrow> vpn x = vpn (v + of_nat k * VIRT_PAGE_SIZE) \<Longrightarrow> V' x = (p + of_nat k * VIRT_PAGE_SIZE) OR fl"
    and "\<And>x. \<forall>k<n. vpn x \<noteq> vpn (v + of_nat k * VIRT_PAGE_SIZE) \<Longrightarrow> V' x = V x"
  shows "V' = overlay p v n fl V"
proof
  fix x
  show "V' x = overlay p v n fl V x"
  proof (cases "\<exists>k<n. vpn x = vpn (v + of_nat k * VIRT_PAGE_SIZE)")
    case True
    then obtain k where "k < n" "vpn x = vpn (v + of_nat k * VIRT_PAGE_SIZE)" by blast
    then show ?thesis using assms(1) by (simp add: assms(2) overlay_page)
  next
    case False
    then show ?thesis by (simp add: assms(3) overlay_other)
  qed
qed

section \<open>The ranges\<close>

type_synonym range = "u64 \<times> u64 \<times> u64"

definition range_pages :: "range \<Rightarrow> nat" where
  "range_pages r = (case r of (p, v, len) \<Rightarrow> iters VIRT_PAGE_SIZE len)"

definition range_ok :: "range \<Rightarrow> bool" where
  "range_ok r \<longleftrightarrow> (case r of (p, v, len) \<Rightarrow> unat len \<le> 2 ^ 48)"

definition put_range :: "range \<Rightarrow> (u64 \<Rightarrow> u64) \<Rightarrow> u64 \<Rightarrow> u64" where
  "put_range r V = (case r of (p, v, len) \<Rightarrow> overlay p v (range_pages r) (VF_PT_PRESENT OR VF_PT_WRITABLE) V)"

definition ranges_tables :: "range list \<Rightarrow> nat" where
  "ranges_tables rs = sum_list (map (max_tables \<circ> range_pages) rs)"

text \<open>The entries of the memory map that go to the direct map.\<close>

definition direct_mapped :: "memmap_entry \<Rightarrow> bool" where
  "direct_mapped e \<longleftrightarrow> me_type e \<in> {LIMINE_MEMMAP_USABLE, LIMINE_MEMMAP_BOOTLOADER_RECLAIMABLE,
     LIMINE_MEMMAP_EXECUTABLE_AND_MODULES, LIMINE_MEMMAP_RESERVED_MAPPED,
     LIMINE_MEMMAP_ACPI_RECLAIMABLE, LIMINE_MEMMAP_ACPI_NVS}"

definition entry_range :: "u64 \<Rightarrow> memmap_entry \<Rightarrow> range" where
  "entry_range off e = (me_base e, me_base e + off, ceilchunku64 (me_length e) VIRT_PAGE_SIZE)"

definition entry_ranges :: "u64 \<Rightarrow> memmap_entry list \<Rightarrow> range list" where
  "entry_ranges off es = map (entry_range off) (filter direct_mapped es)"

lemma ranges_tables_simps [simp]:
  "ranges_tables [] = 0" "ranges_tables (r # rs) = max_tables (range_pages r) + ranges_tables rs"
  "ranges_tables (rs @ qs) = ranges_tables rs + ranges_tables qs"
  by (simp_all add: ranges_tables_def)

text \<open>All ranges of \<open>virt_init\<close>, in its order: the direct map, the framebuffer, the kernel.\<close>

definition framebuffer_range :: "u64 \<Rightarrow> framebuffer \<Rightarrow> range" where
  "framebuffer_range off fb =
     (fb_address fb - off, fb_address fb, fb_width fb * fb_height fb * ucast (fb_bpp fb) div BITS_PER_BYTE)"

definition kernel_range :: "u64 \<Rightarrow> u64 \<Rightarrow> executable_address \<Rightarrow> range" where
  "kernel_range ks ke ea = (physical_base ea, virtual_base ea, ke - ks)"

definition boot_ranges :: "u64 \<Rightarrow> u64 \<Rightarrow> u64 \<Rightarrow> memmap_entry list \<Rightarrow> framebuffer \<Rightarrow> executable_address \<Rightarrow> range list" where
  "boot_ranges off ks ke es fb ea = entry_ranges off es @ [framebuffer_range off fb, kernel_range ks ke ea]"

section \<open>Reading the translation\<close>

definition covers :: "range \<Rightarrow> u64 \<Rightarrow> bool" where
  "covers r x \<longleftrightarrow> (case r of (p, v, len) \<Rightarrow> page_no v x < range_pages r)"

definition maps_to :: "range \<Rightarrow> u64 \<Rightarrow> u64" where
  "maps_to r x = (case r of (p, v, len) \<Rightarrow>
     (p + of_nat (page_no v x) * VIRT_PAGE_SIZE) OR (VF_PT_PRESENT OR VF_PT_WRITABLE))"

lemma put_range_eq: "put_range r V x = (if covers r x then maps_to r x else V x)"
  by (cases r) (simp add: put_range_def covers_def maps_to_def overlay_def range_pages_def)

lemma fold_put_range:
  assumes "\<And>r. r \<in> set rs \<Longrightarrow> covers r x \<Longrightarrow> maps_to r x = w"
  shows "fold put_range rs V x = (if \<exists>r\<in>set rs. covers r x then w else V x)"
  using assms by (induction rs arbitrary: V) (auto simp: put_range_eq)

lemma covers_page:
  assumes "range_ok (p, v, len)" and "k < range_pages (p, v, len)"
  shows "covers (p, v, len) (v + of_nat k * VIRT_PAGE_SIZE)"
    and "maps_to (p, v, len) (v + of_nat k * VIRT_PAGE_SIZE) =
           (p + of_nat k * VIRT_PAGE_SIZE) OR (VF_PT_PRESENT OR VF_PT_WRITABLE)"
proof -
  have "k < 2 ^ 36" using assms iters_page_small(1) [of len] by (simp add: range_ok_def range_pages_def)
  then have "page_no v (v + of_nat k * VIRT_PAGE_SIZE) = k" by (simp only: page_no_eq [symmetric])
  then show "covers (p, v, len) (v + of_nat k * VIRT_PAGE_SIZE)"
    and "maps_to (p, v, len) (v + of_nat k * VIRT_PAGE_SIZE) =
      (p + of_nat k * VIRT_PAGE_SIZE) OR (VF_PT_PRESENT OR VF_PT_WRITABLE)"
    using assms(2) by (simp_all add: covers_def maps_to_def)
qed

text \<open>
  A range of the direct map: page aligned, and with physical addresses below 256 TiB. Two of them agree
  on the pages they share.
\<close>

definition direct_range :: "u64 \<Rightarrow> range \<Rightarrow> bool" where
  "direct_range off r \<longleftrightarrow> (case r of (p, v, len) \<Rightarrow>
     v = p + off \<and> aligned 4096 p \<and> unat p + 4096 * range_pages r \<le> 2 ^ 48)"

lemma direct_range_ok: "direct_range off r \<Longrightarrow> range_ok r"
proof -
  assume d: "direct_range off r"
  obtain p v len where r: "r = (p, v, len)" by (cases r)
  have "4096 * iters VIRT_PAGE_SIZE len \<le> 2 ^ 48" using d by (simp add: r direct_range_def range_pages_def)
  moreover have "unat len \<le> 4096 * ((unat len + 4095) div 4096)" by linarith
  ultimately have "unat len \<le> 2 ^ 48" unfolding iters_def page_step by simp
  then show "range_ok r" by (simp add: r range_ok_def)
qed

lemma direct_page:
  assumes "aligned 4096 p" and "unat p + 4096 * n \<le> 2 ^ 48" and "k < n"
  shows "p + of_nat k * VIRT_PAGE_SIZE = of_nat (unat p div 4096 + k) * VIRT_PAGE_SIZE"
    and "unat p div 4096 + k < 2 ^ 36"
proof -
  obtain q where q: "unat p = 4096 * q" using assms(1) by (rule aligned_cases)
  have "p = of_nat (unat p)" by simp
  then have "p = of_nat q * VIRT_PAGE_SIZE" by (simp only: q of_nat_mult VIRT_PAGE_SIZE_def) simp
  moreover have "unat p div 4096 = q" using q by simp
  ultimately show "p + of_nat k * VIRT_PAGE_SIZE = of_nat (unat p div 4096 + k) * VIRT_PAGE_SIZE"
    by (simp only: of_nat_add distrib_right)
  show "unat p div 4096 + k < 2 ^ 36" using assms(2,3) q by simp
qed

lemma direct_agree:
  assumes r: "direct_range off r" "covers r x" and q: "direct_range off q" "covers q x"
  shows "maps_to r x = maps_to q x"
proof -
  obtain p v l where r': "r = (p, v, l)" by (cases r)
  obtain p' v' l' where q': "q = (p', v', l')" by (cases q)
  let ?k = "page_no v x" and ?j = "page_no v' x"
  have k: "v = p + off" "aligned 4096 p" "unat p + 4096 * range_pages r \<le> 2 ^ 48" "?k < range_pages r"
    and j: "v' = p' + off" "aligned 4096 p'" "unat p' + 4096 * range_pages q \<le> 2 ^ 48" "?j < range_pages q"
    using r q unfolding r' q' direct_range_def covers_def prod.case by blast+
  note dk = direct_page [OF k(2-4)] and dj = direct_page [OF j(2-4)]
  have x: "vpn x = vpn (v + of_nat ?k * VIRT_PAGE_SIZE)" "vpn x = vpn (v' + of_nat ?j * VIRT_PAGE_SIZE)"
    using page_no_eq [OF page_no_less] by blast+
  have shift: "w + y = off + (z + y)" if "w = z + off" for w y z :: u64 using that by simp
  have v: "v + of_nat ?k * VIRT_PAGE_SIZE = off + of_nat (unat p div 4096 + ?k) * VIRT_PAGE_SIZE"
    "v' + of_nat ?j * VIRT_PAGE_SIZE = off + of_nat (unat p' div 4096 + ?j) * VIRT_PAGE_SIZE"
    unfolding dk(1) [symmetric] dj(1) [symmetric] by (rule shift [OF k(1)], rule shift [OF j(1)])
  have "unat p div 4096 + ?k = unat p' div 4096 + ?j"
    by (rule vpn_range_inj [OF dk(2) dj(2), of off, folded VIRT_PAGE_SIZE_def])
      (rule trans [OF sym [OF x(1) [unfolded v(1)]] x(2) [unfolded v(2)]])
  then show ?thesis by (simp only: r' q' maps_to_def prod.case dk(1) dj(1))
qed

section \<open>What the ranges of the boot translate to\<close>

definition boot_view :: "u64 \<Rightarrow> u64 \<Rightarrow> u64 \<Rightarrow> memmap_entry list \<Rightarrow> framebuffer \<Rightarrow> executable_address \<Rightarrow> u64 \<Rightarrow> u64" where
  "boot_view off ks ke es fb ea = fold put_range (boot_ranges off ks ke es fb ea) (\<lambda>_. 0)"

lemma boot_ranges_ok:
  assumes "\<forall>r\<in>set (framebuffer_range off fb # entry_ranges off es). direct_range off r" and "range_ok (kernel_range ks ke ea)"
  shows "\<forall>r\<in>set (boot_ranges off ks ke es fb ea). range_ok r"
  using assms by (auto simp: boot_ranges_def intro: direct_range_ok)

lemma boot_view_kernel:
  assumes "range_ok (kernel_range ks ke ea)" and "k < iters VIRT_PAGE_SIZE (ke - ks)"
  shows "boot_view off ks ke es fb ea (virtual_base ea + of_nat k * VIRT_PAGE_SIZE) =
      (physical_base ea + of_nat k * VIRT_PAGE_SIZE) OR (VF_PT_PRESENT OR VF_PT_WRITABLE)"
  using covers_page [OF assms(1) [unfolded kernel_range_def], of k] assms(2)
  by (simp add: boot_view_def boot_ranges_def put_range_eq kernel_range_def range_pages_def)

lemma boot_view_direct:
  assumes direct: "\<forall>r\<in>set (framebuffer_range off fb # entry_ranges off es). direct_range off r"
    and r: "(p, v, len) \<in> set (framebuffer_range off fb # entry_ranges off es)" and k: "k < iters VIRT_PAGE_SIZE len"
    and other: "\<not> covers (kernel_range ks ke ea) (v + of_nat k * VIRT_PAGE_SIZE)"
  shows "boot_view off ks ke es fb ea (v + of_nat k * VIRT_PAGE_SIZE) =
      (p + of_nat k * VIRT_PAGE_SIZE) OR (VF_PT_PRESENT OR VF_PT_WRITABLE)"
proof -
  let ?D = "entry_ranges off es @ [framebuffer_range off fb]"
  have d: "direct_range off (p, v, len)" "\<And>q. q \<in> set ?D \<Longrightarrow> direct_range off q" using direct r by auto
  note c = covers_page [OF direct_range_ok [OF d(1)], of k, unfolded range_pages_def prod.case, OF k]
  show ?thesis
    using fold_put_range [of ?D, OF direct_agree [OF d(2) _ d(1) c(1)]] r other c
    by (auto simp: boot_view_def boot_ranges_def put_range_eq)
qed

lemma boot_view_elsewhere: "\<forall>r\<in>set (boot_ranges off ks ke es fb ea). \<not> covers r x \<Longrightarrow> boot_view off ks ke es fb ea x = 0"
  unfolding boot_view_def using fold_put_range [of "boot_ranges off ks ke es fb ea" x] by simp

text \<open>The two descriptions of what is mapped, for a translation that has everything \<open>boot_view\<close> has.\<close>

definition maps_kernel :: "u64 \<Rightarrow> u64 \<Rightarrow> executable_address \<Rightarrow> (u64 \<Rightarrow> u64) \<Rightarrow> bool" where
  "maps_kernel ks ke ea V \<longleftrightarrow>
     (\<forall>k<iters VIRT_PAGE_SIZE (ke - ks). V (virtual_base ea + of_nat k * VIRT_PAGE_SIZE) =
        (physical_base ea + of_nat k * VIRT_PAGE_SIZE) OR (VF_PT_PRESENT OR VF_PT_WRITABLE))"

definition maps_direct :: "u64 \<Rightarrow> u64 \<Rightarrow> u64 \<Rightarrow> memmap_entry list \<Rightarrow> framebuffer \<Rightarrow> executable_address \<Rightarrow> (u64 \<Rightarrow> u64) \<Rightarrow> bool" where
  "maps_direct off ks ke es fb ea V \<longleftrightarrow>
     (\<forall>(p, v, len)\<in>set (framebuffer_range off fb # entry_ranges off es). \<forall>k<iters VIRT_PAGE_SIZE len.
        \<not> covers (kernel_range ks ke ea) (v + of_nat k * VIRT_PAGE_SIZE) \<longrightarrow>
        V (v + of_nat k * VIRT_PAGE_SIZE) = (p + of_nat k * VIRT_PAGE_SIZE) OR (VF_PT_PRESENT OR VF_PT_WRITABLE))"

lemma present_nonzero: "w OR (VF_PT_PRESENT OR VF_PT_WRITABLE) \<noteq> 0"
proof
  assume "w OR (VF_PT_PRESENT OR VF_PT_WRITABLE) = 0"
  then have "\<not> bit (w OR (VF_PT_PRESENT OR VF_PT_WRITABLE)) 0" by simp
  then show False by (simp add: bit_or_iff kernel_defs)
qed

lemma boot_view_maps:
  assumes "\<forall>r\<in>set (framebuffer_range off fb # entry_ranges off es). direct_range off r" and "range_ok (kernel_range ks ke ea)"
    and "\<And>x. boot_view off ks ke es fb ea x \<noteq> 0 \<Longrightarrow> V x = boot_view off ks ke es fb ea x"
  shows "maps_kernel ks ke ea V" and "maps_direct off ks ke es fb ea V"
proof -
  show "maps_kernel ks ke ea V"
    unfolding maps_kernel_def using boot_view_kernel [OF assms(2)] assms(3) present_nonzero by metis
  show "maps_direct off ks ke es fb ea V"
    unfolding maps_direct_def
  proof (intro ballI, unfold split_paired_all prod.case, intro allI impI)
    fix p v len k
    assume r: "(p, v, len) \<in> set (framebuffer_range off fb # entry_ranges off es)" "k < iters VIRT_PAGE_SIZE len"
      "\<not> covers (kernel_range ks ke ea) (v + of_nat k * VIRT_PAGE_SIZE)"
    note b = boot_view_direct [OF assms(1) r]
    show "V (v + of_nat k * VIRT_PAGE_SIZE) = (p + of_nat k * VIRT_PAGE_SIZE) OR (VF_PT_PRESENT OR VF_PT_WRITABLE)"
      using assms(3) [of "v + of_nat k * VIRT_PAGE_SIZE"] present_nonzero unfolding b by blast
  qed
qed

end
