(* ===== verification/VirtProps.thy ===== *)
theory VirtProps
  imports VirtLoops
begin

text \<open>
  The properties of \<open>src/mem/virt.c\<close>, with a concrete address space for the witnesses: the machine
  of \<open>demo_phys\<close>, whose \<open>cr3\<close> points at an empty top-level table in frame 2.
\<close>

section \<open>A concrete address space\<close>

definition demo_virt :: virt where
  "demo_virt = phys.extend demo_phys (virt.fields demo_hhdm 0)"

definition demo_root :: u64 where
  "demo_root = 0xffff800000002000"

lemma demo_virt_fields [simp]:
  "mem demo_virt = mem demo_phys" "cr3 demo_virt = 0x2000"
  "s_phys_bitmap demo_virt = 0xffff800000001000" "s_phys_bitmap_size demo_virt = 1"
  "s_virt_hhdm_offset demo_virt = demo_hhdm"
  by (simp_all add: demo_virt_def virt.defs phys.defs demo_phys_def)

lemma demo_virt_phys [simp]:
  "frame_used demo_virt f = frame_used demo_phys f" "covered demo_virt = 64"
  "in_bitmap demo_virt x \<longleftrightarrow> unat (x - 0xffff800000001000) < 8"
  by (simp_all add: frame_used_def bitmap_cell_def covered_def in_bitmap_def demo_phys_def)

lemma demo_mem: "page x \<noteq> page 0xffff800000001000 \<Longrightarrow> mem demo_phys x = 0"
  by (auto simp: demo_phys_def)

lemma demo_root_entry: "i < 512 \<Longrightarrow> load64 (mem demo_phys) (demo_root + 8 * i) = 0"
proof -
  assume i: "i < 512"
  have r: "aligned 4096 demo_root" by (simp add: aligned_def demo_root_def)
  have "aligned 8 (demo_root + 8 * i)" "page (demo_root + 8 * i) = page demo_root"
    using aligned_offset [OF r] page_offset [OF r] index_offset [OF i] by simp_all
  moreover have "page demo_root \<noteq> page 0xffff800000001000" by (simp add: page_eq_iff demo_root_def)
  ultimately show ?thesis unfolding load64_eq_0_iff using cell_page demo_mem by metis
qed

lemma demo_tbl: "valid_path q \<Longrightarrow> tbl_of demo_virt demo_root q = (if q = [] then Some demo_root else None)"
  by (induction q) (auto simp: demo_root_entry)

lemma demo_pfn:
  "in_bitmap demo_virt x \<Longrightarrow> pfn demo_virt x = 1 \<and> page x = page 0xffff800000001000"
  "pfn demo_virt demo_root = 2"
proof -
  assume x: "in_bitmap demo_virt x"
  have h: "aligned 4096 (s_virt_hhdm_offset demo_virt)" by (simp add: aligned_def demo_hhdm_def)
  let ?b = "0xffff800000001000 :: u64"
  have "page (?b + of_nat (unat (x - ?b))) = page ?b"
    by (rule cell_page) (use x in \<open>simp_all add: aligned_def\<close>)
  then have "page x = page ?b" by simp
  moreover have "pfn demo_virt ?b = 1" by (simp add: pfn_def frame_of_def demo_hhdm_def)
  ultimately show "pfn demo_virt x = 1 \<and> page x = page ?b" using pfn_eq_iff [OF h] by metis
next
  show "pfn demo_virt demo_root = 2" by (simp add: pfn_def frame_of_def demo_hhdm_def demo_root_def)
qed

lemma demo_vm_inv: "vm_inv demo_root demo_virt"
proof -
  have "table_page demo_virt demo_root"
    using demo_used [of 2] demo_pfn
    by (auto simp: table_page_def kpage_def aligned_def demo_root_def page_eq_iff)
  moreover have "kpage demo_virt x" if "in_bitmap demo_virt x" for x
    using demo_pfn(1) [OF that] demo_used [of 1] by (simp add: kpage_def)
  moreover have "alloc_wf demo_virt"
    using demo_alloc_wf by (simp add: alloc_wf_def phys_wf_def aligned_def)
  ultimately show ?thesis
    using demo_tbl unfolding vm_inv_def demo_virt_fields(5) [symmetric]
    by (auto simp: aligned_def demo_root_entry dir_entry_def split: if_splits) (simp_all add: demo_hhdm_def)
qed

lemma demo_aspace: "aspace 0 demo_root demo_virt"
  using demo_vm_inv
  by (simp add: aspace_def ctx_at_def s_virt_get_top_level_def s_phys_to_virt_def demo_hhdm_def demo_root_def)

lemma demo_budget: "budget demo_virt = 61"
proof -
  have "free_frames demo_virt = {3..<64}" using demo_used by (auto simp: free_frames_def)
  then show ?thesis by (simp add: budget_def)
qed

lemma demo_view [simp]: "view demo_root demo_virt x = 0"
  using demo_tbl [OF valid_pt_path, of x] by (simp add: view_def) (simp add: pt_path_def)

lemma iters_two: "iters VIRT_PAGE_SIZE 8192 = 2"
  by (simp add: iters_def kernel_defs)









lemmas iters_two' = iters_two [unfolded VIRT_PAGE_SIZE_def]

section \<open>Properties\<close>

text \<open>C2: \<open>virt_map\<close> with 4 KiB pages returns whenever as many free frames are left as the tables of a
  range of that length can need (at most three per page, and hardly more than one per 512 pages of a long
  range), and takes no more than these; then every page of the range translates to its frame with the given
  flags, every other page translates as before, and no memory outside the tables and the allocator's
  bitmap has changed.\<close>

theorem virt_map_correct:
  assumes "aspace ctx root s" and "unat len \<le> 2 ^ 48" and "flags AND VF_PD_BIG_PAGE = 0"
    and "max_tables (iters VIRT_PAGE_SIZE len) \<le> budget s"
  shows "\<exists>s'. virt_map ctx phys virt len flags s = Inr ((), s') \<and> aspace ctx root s' \<and>
           (\<forall>k<iters VIRT_PAGE_SIZE len.
              view root s' (virt + of_nat k * VIRT_PAGE_SIZE) = (phys + of_nat k * VIRT_PAGE_SIZE) OR flags) \<and>
           (\<forall>x. (\<forall>k<iters VIRT_PAGE_SIZE len. vpn x \<noteq> vpn (virt + of_nat k * VIRT_PAGE_SIZE)) \<longrightarrow>
              view root s' x = view root s x) \<and>
           (\<forall>x. kept root s x \<longrightarrow> mem s' x = mem s x) \<and>
           budget s \<le> budget s' + max_tables (iters VIRT_PAGE_SIZE len)"
  by (rule map_range [OF assms(1,2,4), where phys = phys and virt = virt and flags = flags])
    (use assms(3) in \<open>auto simp: virt_map_def map_loop.passed_def preserves_def evolves_def\<close>)

theorem virt_map_correct_witness:
  "\<exists>s'. virt_map 0 0x5000 0x400000 8192 3 demo_virt = Inr ((), s') \<and> aspace 0 demo_root s' \<and>
     view demo_root s' 0x401000 = 0x6003"
proof -
  from virt_map_correct [OF demo_aspace, where len = 8192 and flags = 3 and phys = "0x5000" and virt = "0x400000"]
  obtain s' where "virt_map 0 0x5000 0x400000 8192 3 demo_virt = Inr ((), s')" "aspace 0 demo_root s'"
      "\<forall>k<2. view demo_root s' (0x400000 + of_nat k * VIRT_PAGE_SIZE) = (0x5000 + of_nat k * VIRT_PAGE_SIZE) OR 3"
    by (auto simp: demo_budget iters_two' max_tables_def kernel_defs)
  then show ?thesis by (auto simp: kernel_defs dest!: spec [of _ 1])
qed


text \<open>C5: \<open>virt_unmap\<close> always returns, needs no free frame, and afterwards no page of the range is
  mapped while every other page translates as before and no foreign memory has changed.\<close>

theorem virt_unmap_correct:
  assumes "aspace ctx root s" and "unat len \<le> 2 ^ 48"
  shows "\<exists>s'. virt_unmap ctx addr len s = Inr ((), s') \<and> aspace ctx root s' \<and>
           (\<forall>k<iters VIRT_PAGE_SIZE len. view root s' (addr + of_nat k * VIRT_PAGE_SIZE) = 0) \<and>
           (\<forall>x. (\<forall>k<iters VIRT_PAGE_SIZE len. vpn x \<noteq> vpn (addr + of_nat k * VIRT_PAGE_SIZE)) \<longrightarrow>
              view root s' x = view root s x) \<and>
           (\<forall>x. kept root s x \<longrightarrow> mem s' x = mem s x)"
  by (rule unmap_range [OF assms, where addr = addr])
    (auto simp: unmap_loop.passed_def preserves_def evolves_def)

theorem virt_unmap_correct_witness:
  "aspace 0 demo_root demo_virt \<and>
   (\<exists>s'. virt_unmap 0 0x400000 8192 demo_virt = Inr ((), s') \<and> view demo_root s' 0x401000 = 0)"
proof -
  from virt_unmap_correct [OF demo_aspace, where len = 8192 and addr = "0x400000"]
  obtain s' where "virt_unmap 0 0x400000 8192 demo_virt = Inr ((), s')"
      "\<forall>k<2. view demo_root s' (0x400000 + of_nat k * VIRT_PAGE_SIZE) = 0"
    by (auto simp: iters_two' kernel_defs)
  then show ?thesis using demo_aspace by (auto simp: kernel_defs dest!: spec [of _ 1])
qed

text \<open>Mapping a range that was not mapped and unmapping it again gives back the translation of
  every address, although the tables made on the way stay.\<close>

theorem virt_map_unmap_roundtrip:
  assumes "aspace ctx root s" and "unat len \<le> 2 ^ 48" and "flags AND VF_PD_BIG_PAGE = 0"
    and "max_tables (iters VIRT_PAGE_SIZE len) \<le> budget s" and "unmapped_at root len s virt"
  shows "\<exists>s'. bindk (virt_map ctx phys virt len flags s) (\<lambda>_. virt_unmap ctx virt len) = Inr ((), s') \<and>
           view root s' = view root s"
proof -
  obtain t where t: "virt_map ctx phys virt len flags s = Inr ((), t)"
      "map_loop.passed ctx root virt phys flags VIRT_PAGE_SIZE (iters VIRT_PAGE_SIZE len) s t"
    by (rule map_range [OF assms(1,2,4), where phys = phys and virt = virt and flags = flags])
      (use assms(3) in \<open>simp add: virt_map_def\<close>)
  then have inv: "aspace ctx root t" by (simp add: map_loop.passed_def)
  obtain s' where s': "virt_unmap ctx virt len t = Inr ((), s')"
      "unmap_loop.passed ctx root virt VIRT_PAGE_SIZE (iters VIRT_PAGE_SIZE len) t s'"
    by (rule unmap_range [OF inv assms(2)])
  have "view root s' = view root s"
    by (rule unmapped_again [OF assms(5) _ s'(2)]) (use t(2) in \<open>auto simp: map_loop.passed_def\<close>)
  then show ?thesis using t(1) s'(1) by simp
qed

theorem virt_map_unmap_roundtrip_witness:
  "\<exists>s'. bindk (virt_map 0 0x5000 0x400000 8192 3 demo_virt) (\<lambda>_. virt_unmap 0 0x400000 8192) = Inr ((), s') \<and>
     view demo_root s' = view demo_root demo_virt"
  by (rule virt_map_unmap_roundtrip [OF demo_aspace])
    (simp_all add: unmapped_at_def demo_budget iters_two' max_tables_def kernel_defs)




text \<open>C7: \<open>virt_map_anywhere\<close> always ends. Either it returns the lowest page-stepped address from
  one page behind the start of the direct map whose range is unmapped, now mapped to the frames asked
  for with no other translation, no foreign memory and no other part of the state changed; or every
  range tried was in use and it returns 0 and changes nothing.\<close>

theorem virt_map_anywhere_correct:
  assumes "aspace ctx root s" and "unat len \<le> 2 ^ 48" and "max_tables (iters VIRT_PAGE_SIZE len) \<le> budget s"
  defines "start \<equiv> s_virt_hhdm_offset s + VIRT_PAGE_SIZE"
  shows "\<exists>a s'. virt_map_anywhere ctx phys len flags s = Inr (a, s') \<and>
    ((\<exists>k. a = start + of_nat k * VIRT_PAGE_SIZE \<and> unat start + 4096 * k < unat (0xffffffffffff0000 :: u64) \<and>
        unmapped_at root len s a \<and>
        (\<forall>j<k. \<not> unmapped_at root len s (start + of_nat j * VIRT_PAGE_SIZE)) \<and>
        aspace ctx root s' \<and>
        (\<forall>k<iters VIRT_PAGE_SIZE len.
           view root s' (a + of_nat k * VIRT_PAGE_SIZE) = (phys + of_nat k * VIRT_PAGE_SIZE) OR flags) \<and>
        (\<forall>x. (\<forall>k<iters VIRT_PAGE_SIZE len. vpn x \<noteq> vpn (a + of_nat k * VIRT_PAGE_SIZE)) \<longrightarrow>
           view root s' x = view root s x) \<and>
        quiet s s' \<and> (\<forall>x. kept root s x \<longrightarrow> mem s' x = mem s x)) \<or>
     (a = 0 \<and> s' = s \<and> (\<forall>k. unat start + 4096 * k < unat (0xffffffffffff0000 :: u64) \<longrightarrow>
        \<not> unmapped_at root len s (start + of_nat k * VIRT_PAGE_SIZE))))"
  using map_anywhere_spec [OF assms(1-3), of phys flags] unfolding start_def
  by (elim exE conjE) (intro exI conjI; assumption)

theorem virt_map_anywhere_correct_witness:
  "\<exists>a s'. virt_map_anywhere 0 0x5000 8192 3 demo_virt = Inr (a, s') \<and>
     (a = 0 \<and> s' = demo_virt \<or> view demo_root s' (a + 0x1000) = 0x6003)"
proof -
  from virt_map_anywhere_correct [OF demo_aspace, where len = 8192 and phys = "0x5000" and flags = 3]
  obtain a s' where r: "virt_map_anywhere 0 0x5000 8192 3 demo_virt = Inr (a, s')"
    "a = 0 \<and> s' = demo_virt \<or>
     (\<forall>k<2. view demo_root s' (a + of_nat k * VIRT_PAGE_SIZE) = (0x5000 + of_nat k * VIRT_PAGE_SIZE) OR 3)"
    by (simp add: demo_budget iters_two max_tables_def) blast
  have "view demo_root s' (a + 0x1000) = 0x6003"
    if "\<forall>k<2. view demo_root s' (a + of_nat k * VIRT_PAGE_SIZE) = (0x5000 + of_nat k * VIRT_PAGE_SIZE) OR 3"
    using spec [OF that, of 1] by (simp add: kernel_defs)
  with r show ?thesis by blast
qed

text \<open>No walk executes \<open>invlpg\<close>; \<open>virt_map_user\<close> does not either.\<close>

lemma phys_alloc_invlpgs: "invlpgs (snd (phys_alloc s)) = invlpgs s"
proof -
  have "invlpgs (snd (phys_alloc_from i s)) = invlpgs s" for i
    by (induction i s rule: phys_alloc_from.induct)
      (subst phys_alloc_from.simps, auto simp: Let_def split: option.split)
  then show ?thesis by (simp add: phys_alloc_def)
qed

lemma entry_ptr_invlpgs: "s_virt_get_entry_ptr t i c fl s = Inr (p, s') \<Longrightarrow> invlpgs s' = invlpgs s"
  using phys_alloc_invlpgs [of s]
  by (auto simp: s_virt_get_entry_ptr_def hcf_def Let_def split: if_splits prod.splits)

lemma get_or_create_invlpgs: "s_virt_get_or_create_pte ctx va u big s = Inr (p, s') \<Longrightarrow> invlpgs s' = invlpgs s"
  by (auto simp: s_virt_get_or_create_pte_def Let_def bindk_eq_Inr dest!: entry_ptr_invlpgs split: if_splits)

lemma for_step_invlpgs:
  assumes "for_step step i len body s = Inr ((), s')" and "\<And>i s s'. body i s = Inr ((), s') \<Longrightarrow> invlpgs s' = invlpgs s"
  shows "invlpgs s' = invlpgs s"
  using assms
proof (induction step i len body s rule: for_step.induct)
  case (1 step i len body s)
  show ?case
  proof (cases "i < len")
    case True
    then obtain t where t: "body i s = Inr ((), t)" "\<not> i + step \<le> i" "for_step step (i + step) len body t = Inr ((), s')"
      using "1.prems"(1) by (subst (asm) for_step.simps) (auto simp: bindk_eq_Inr split: if_splits)
    then show ?thesis using "1.IH" [OF True t(2,3) "1.prems"(2)] "1.prems"(2) [OF t(1)] by simp
  next
    case False
    then show ?thesis using "1.prems"(1) by (subst (asm) for_step.simps) simp
  qed
qed

text \<open>C22: \<open>virt_map_user\<close> maps every page of the range to the one frame \<open>phys_addr\<close>: unlike
  \<open>virt_map\<close> it does not add the offset of the page to the physical address. Nor does it flush a page, even
  in the active address space.\<close>

theorem virt_map_user_single_frame:
  assumes "aspace ctx root s" and "unat len \<le> 2 ^ 48" and "flags AND VF_PD_BIG_PAGE = 0"
    and "max_tables (iters VIRT_PAGE_SIZE len) \<le> budget s"
  shows "\<exists>s'. virt_map_user ctx phys virt len flags s = Inr ((), s') \<and> aspace ctx root s' \<and>
           (\<forall>k<iters VIRT_PAGE_SIZE len. view root s' (virt + of_nat k * VIRT_PAGE_SIZE) = phys OR flags) \<and>
           (\<forall>x. (\<forall>k<iters VIRT_PAGE_SIZE len. vpn x \<noteq> vpn (virt + of_nat k * VIRT_PAGE_SIZE)) \<longrightarrow>
              view root s' x = view root s x) \<and>
           (\<forall>x. kept root s x \<longrightarrow> mem s' x = mem s x) \<and> invlpgs s' = invlpgs s"
proof -
  obtain s' where s': "virt_map_user ctx phys virt len flags s = Inr ((), s')"
      "map_user_loop.passed ctx root virt phys flags VIRT_PAGE_SIZE (iters VIRT_PAGE_SIZE len) s s'"
    by (rule map_user_range [OF assms(1,2,4), where phys = phys and virt = virt and flags = flags])
      (use assms(3) in \<open>simp add: virt_map_user_def\<close>)
  have "invlpgs t = invlpgs s"
    if "for_step st i len (virt_map_user_step ctx phys virt flags big) s = Inr ((), t)" for st i big t and s :: "'a virt_scheme"
    using that
    by (rule for_step_invlpgs)
      (auto simp: virt_map_user_step_def bindk_eq_Inr dest!: get_or_create_invlpgs split: if_splits)
  then have "invlpgs s' = invlpgs s" using s'(1) unfolding virt_map_user_def Let_def by blast
  then show ?thesis
    using s' by (auto simp: map_user_loop.passed_def preserves_def evolves_def)
qed

theorem virt_map_user_single_frame_witness:
  "\<exists>s'. virt_map_user 0 0x5000 0x400000 8192 7 demo_virt = Inr ((), s') \<and>
     view demo_root s' 0x400000 = 0x5007 \<and> view demo_root s' 0x401000 = 0x5007"
proof -
  from virt_map_user_single_frame [OF demo_aspace, where len = 8192 and phys = "0x5000" and virt = "0x400000" and flags = 7]
  obtain s' where "virt_map_user 0 0x5000 0x400000 8192 7 demo_virt = Inr ((), s')"
      "\<forall>k<2. view demo_root s' (0x400000 + of_nat k * VIRT_PAGE_SIZE) = 0x5000 OR 7"
    by (auto simp: demo_budget iters_two' max_tables_def kernel_defs)
  then show ?thesis by (auto simp: kernel_defs dest: spec [of _ 0] spec [of _ 1])
qed

lemma get_physical_address_eq:
  assumes "aspace ctx root s"
  shows "virt_get_physical_address ctx va s =
           Inr (if view root s va AND VF_PT_PRESENT = 0 then 0 else view root s va AND ENTRY_PHYS_ADDR_MASK, s)"
proof -
  from assms have inv: "vm_inv root s" "ctx_at ctx root s" by (simp_all add: aspace_def)
  have "t + 8 * i1 va \<noteq> 0" if "tbl_of s root (pt_path va) = Some t" for t
    by (rule table_cell(3) [OF inv(1) valid_pt_path that]) simp
  then show ?thesis
    by (simp add: virt_get_physical_address_def get_pte_eq [OF inv] view_def split: option.split)
qed

text \<open>\<open>virt_get_physical_address\<close> changes nothing and gives the frame of a present page, 0 for
  any other: it agrees for all addresses of a page, so the offset within the page is lost.\<close>

theorem virt_get_physical_address_correct:
  assumes "aspace ctx root s"
  shows "virt_get_physical_address ctx va s =
           Inr (if view root s va AND VF_PT_PRESENT = 0 then 0 else view root s va AND ENTRY_PHYS_ADDR_MASK, s) \<and>
         (\<forall>vb. vpn vb = vpn va \<longrightarrow>
            virt_get_physical_address ctx vb s = virt_get_physical_address ctx va s)"
proof (intro conjI allI impI)
  fix vb assume "vpn vb = vpn va"
  from view_cong [OF this, of root s]
  show "virt_get_physical_address ctx vb s = virt_get_physical_address ctx va s"
    by (simp only: get_physical_address_eq [OF assms])
qed (rule get_physical_address_eq [OF assms])

lemma demo_mapped:
  obtains s where "virt_map 0 0x5000 0x400000 8192 3 demo_virt = Inr ((), s)" and "aspace 0 demo_root s"
    and "view demo_root s 0x401abc = 0x6003" and "quiet demo_virt s"
proof -
  have "max_tables (iters VIRT_PAGE_SIZE 8192) \<le> budget demo_virt"
    by (simp add: demo_budget iters_two max_tables_def)
  then obtain s where s: "for_step VIRT_PAGE_SIZE 0 8192 (virt_map_step 0 0x5000 0x400000 3 False) demo_virt = Inr ((), s)"
      "map_loop.passed 0 demo_root 0x400000 0x5000 3 VIRT_PAGE_SIZE (iters VIRT_PAGE_SIZE 8192) demo_virt s"
    by (rule map_range [OF demo_aspace, rotated 1]) simp_all
  then have q: "quiet demo_virt s" by (auto simp: map_loop.passed_def preserves_def evolves_def)
  from s have sp: "aspace 0 demo_root s"
      "\<And>k x. k < 2 \<Longrightarrow> vpn x = vpn (0x400000 + of_nat k * 4096) \<Longrightarrow> view demo_root s x = (0x5000 + of_nat k * 4096) OR 3"
    unfolding map_loop.passed_def iters_two by (simp_all add: kernel_defs)
  have "vpn 0x401abc = vpn 0x401000" by (simp add: vpn_def take_bit_eq_mask mask_eq_exp_minus_1)
  then have "view demo_root s 0x401abc = 0x6003" using sp(2) [of 1 "0x401abc"] by simp
  then show thesis using that [OF _ sp(1) _ q] s(1) by (simp add: virt_map_def kernel_defs)
qed

theorem virt_get_physical_address_correct_witness:
  "\<exists>s. virt_map 0 0x5000 0x400000 8192 3 demo_virt = Inr ((), s) \<and>
     virt_get_physical_address 0 0x401abc s = Inr (0x6000, s)"
proof -
  obtain s where s: "virt_map 0 0x5000 0x400000 8192 3 demo_virt = Inr ((), s)" "aspace 0 demo_root s"
      "view demo_root s 0x401abc = 0x6003"
    by (rule demo_mapped)
  then show ?thesis
    using virt_get_physical_address_correct [OF s(2), of "0x401abc"] by (simp add: kernel_defs)
qed

end
