(* ===== verification/Mmu.thy ===== *)
theory Mmu
  imports VirtProps
begin

text \<open>
  The processor's side of \<open>src/mem/virt.c\<close>: how it translates an address with four-level paging, as the
  architecture manual documents it, write protection on. The lemmas show that on the tables the
  kernel builds the processor's walk and the translation \<open>view\<close> agree.
\<close>

section \<open>Translation by the processor\<close>

text \<open>The physical address in an entry: bits 12 to 51.\<close>

definition HW_ADDR_MASK :: u64 where
  "HW_ADDR_MASK = 0x000ffffffffff000"

text \<open>The upper 17 bits of an address have to be equal.\<close>

definition canonical :: "u64 \<Rightarrow> bool" where
  "canonical va \<longleftrightarrow> drop_bit 47 va = 0 \<or> drop_bit 47 va = mask 17"

definition permits :: "bool \<Rightarrow> bool \<Rightarrow> u64 \<Rightarrow> bool" where
  "permits user write e \<longleftrightarrow> bit e 0 \<and> (write \<longrightarrow> bit e 1) \<and> (user \<longrightarrow> bit e 2)"

text \<open>
  The walk from the physical address in \<open>cr3\<close>; \<open>h\<close> is where physical memory lies in the memory of the
  model. \<open>None\<close> is a fault. Bit 7 makes an entry of the second level a page of 1 GiB and one of the third
  level a page of 2 MiB; in the first level it is reserved.
\<close>

definition mmu_translate :: "mem \<Rightarrow> u64 \<Rightarrow> u64 \<Rightarrow> bool \<Rightarrow> bool \<Rightarrow> u64 \<Rightarrow> u64 option" where
  "mmu_translate m h pml4 user write va =
     (let entry = (\<lambda>table i. load64 m ((table AND HW_ADDR_MASK) + h + 8 * i));
          ok = permits user write;
          e4 = entry pml4 (virt_index 39 va);
          e3 = entry e4 (virt_index 30 va);
          e2 = entry e3 (virt_index 21 va);
          e1 = entry e2 (virt_index 12 va)
      in if \<not> canonical va \<or> \<not> ok e4 \<or> bit e4 7 \<or> \<not> ok e3 then None
         else if bit e3 7 then Some ((e3 AND HW_ADDR_MASK AND NOT (mask 30)) OR take_bit 30 va)
         else if \<not> ok e2 then None
         else if bit e2 7 then Some ((e2 AND HW_ADDR_MASK AND NOT (mask 21)) OR take_bit 21 va)
         else if \<not> ok e1 then None
         else Some ((e1 AND HW_ADDR_MASK) OR take_bit 12 va))"

section \<open>The walk over the kernel's tables\<close>

lemma hw_addr_mask: "HW_ADDR_MASK = push_bit 12 (mask 40)"
  by (simp add: HW_ADDR_MASK_def mask_eq_exp_minus_1)

lemma bit_hw_addr_mask: "bit HW_ADDR_MASK n \<longleftrightarrow> 12 \<le> n \<and> n < 52"
  unfolding hw_addr_mask by (simp only: bit_push_bit_iff bit_mask_iff) auto

lemma frame_addr_hw: "f < 2 ^ 40 \<Longrightarrow> frame_addr f AND HW_ADDR_MASK = frame_addr f"
  by (rule bit_word_eqI) (auto simp: bit_and_iff bit_hw_addr_mask bit_frame_addr)

text \<open>The kernel's mask of an address has one bit more than the processor's.\<close>

lemma no_bit_52: "\<not> bit e 52 \<Longrightarrow> e AND ENTRY_PHYS_ADDR_MASK = e AND HW_ADDR_MASK"
proof -
  have "n < 53 \<longleftrightarrow> n < 52 \<or> n = 52" for n :: nat by linarith
  then show "\<not> bit e 52 \<Longrightarrow> ?thesis"
    by (intro bit_word_eqI) (auto simp: bit_and_iff bit_hw_addr_mask bit_phys_addr_mask)
qed

lemma next_table_hw:
  assumes "dir_entry e"
  shows "next_table h e = (e AND HW_ADDR_MASK) + h"
proof (cases "e = 0")
  case False
  then have d: "drop_bit 52 e = 0" using assms by (simp add: dir_entry_def)
  have "\<not> bit e 52" using arg_cong [OF d, of "\<lambda>x. bit x 0"] by (simp add: bit_drop_bit_eq del: bit_0)
  then show ?thesis by (simp add: next_table_def no_bit_52)
qed (simp add: next_table_def)

text \<open>One level of both walks.\<close>

lemma walk_level:
  assumes "vm_inv root s" and "valid_path p" and "length p \<le> 2" and "tbl_of s root p = Some t" and "i < 512"
  defines "e \<equiv> rd64 s (t + 8 * i)"
  shows "tbl_of s root (i # p) = (if permits False w e then Some ((e AND HW_ADDR_MASK) + s_virt_hhdm_offset s) else None)"
    and "\<not> bit e 7"
proof -
  have d: "dir_entry e" unfolding e_def by (rule vm_invD(10) [OF assms(1-5)])
  then show "\<not> bit e 7" by (auto simp: dir_entry_def)
  show "tbl_of s root (i # p) = (if permits False w e then Some ((e AND HW_ADDR_MASK) + s_virt_hhdm_offset s) else None)"
    using d assms(4) next_table_hw [OF d] by (auto simp: e_def [symmetric] Let_def permits_def dir_entry_def)
qed

lemma root_frame:
  assumes "vm_inv root s" and "cr3 s + s_virt_hhdm_offset s = root"
  shows "(cr3 s AND HW_ADDR_MASK) + s_virt_hhdm_offset s = root"
proof -
  note d = vm_invD [OF assms(1)]
  have cr: "cr3 s = root - s_virt_hhdm_offset s" using assms(2) by (simp add: eq_diff_eq)
  have "table_page s root" by (rule d(8) [of "[]"]) simp_all
  then have root: "aligned 4096 root" "pfn s root < covered s" by (auto simp: table_page_def kpage_def)
  have f: "pfn s root < 2 ^ 40" by (rule frame_bound [OF d(2) root(2)])
  have "aligned 4096 (cr3 s)" unfolding cr using aligned_add [OF _ root(1) aligned_minus [OF _ d(4)]] by simp
  then have "cr3 s = frame_addr (pfn s root)" using frame_addr_of [of "cr3 s"] cr by (simp add: pfn_def)
  then show ?thesis using frame_addr_hw [OF f] assms(2) by simp
qed

lemma mmu_view:
  assumes inv: "vm_inv root s" and "cr3 s + s_virt_hhdm_offset s = root"
  shows "mmu_translate (mem s) (s_virt_hhdm_offset s) (cr3 s) False w va =
     (if canonical va \<and> permits False w (view root s va)
      then Some ((view root s va AND HW_ADDR_MASK) OR take_bit 12 va) else None)"
proof -
  let ?h = "s_virt_hhdm_offset s"
  let ?t = "\<lambda>e. (e AND HW_ADDR_MASK) + ?h"
  note idx = i4_def [unfolded VIRT_PML4_INDEX_OFFSET_def, symmetric] i3_def [unfolded VIRT_PDPT_INDEX_OFFSET_def, symmetric]
    i2_def [unfolded VIRT_PD_INDEX_OFFSET_def, symmetric] i1_def [unfolded VIRT_PT_INDEX_OFFSET_def, symmetric]
  define e4 where "e4 = rd64 s (root + 8 * i4 va)"
  define e3 where "e3 = rd64 s (?t e4 + 8 * i3 va)"
  define e2 where "e2 = rd64 s (?t e3 + 8 * i2 va)"
  define e1 where "e1 = rd64 s (?t e2 + 8 * i1 va)"
  have run: "mmu_translate (mem s) ?h (cr3 s) False w va =
      (if \<not> canonical va \<or> \<not> permits False w e4 \<or> bit e4 7 \<or> \<not> permits False w e3 then None
       else if bit e3 7 then Some ((e3 AND HW_ADDR_MASK AND NOT (mask 30)) OR take_bit 30 va)
       else if \<not> permits False w e2 then None
       else if bit e2 7 then Some ((e2 AND HW_ADDR_MASK AND NOT (mask 21)) OR take_bit 21 va)
       else if \<not> permits False w e1 then None else Some ((e1 AND HW_ADDR_MASK) OR take_bit 12 va))"
    unfolding mmu_translate_def Let_def root_frame [OF assms] idx e4_def [symmetric] e3_def [symmetric]
      e2_def [symmetric] e1_def [symmetric] ..
  have t4: "tbl_of s root [] = Some root" by simp
  note l4 = walk_level [OF inv _ _ t4 index_less(1), of va, folded e4_def]
  have p4: "tbl_of s root [i4 va] = (if permits False w e4 then Some (?t e4) else None)" "\<not> bit e4 7"
    by (rule l4; simp)+
  have p3: "tbl_of s root [i3 va, i4 va] = (if permits False w e3 then Some (?t e3) else None) \<and> \<not> bit e3 7"
    if "permits False w e4"
  proof -
    have t3: "tbl_of s root [i4 va] = Some (?t e4)" using p4(1) that by (simp only: if_True)
    note l3 = walk_level [OF inv _ _ t3 index_less(2), of va, folded e3_def]
    show ?thesis by (intro conjI l3) simp_all
  qed
  have p2: "tbl_of s root (pt_path va) = (if permits False w e2 then Some (?t e2) else None) \<and> \<not> bit e2 7"
    if "permits False w e4" "permits False w e3"
  proof -
    have t2: "tbl_of s root [i3 va, i4 va] = Some (?t e3)" using p3 [OF that(1)] that(2) by (simp only: if_True)
    note l2 = walk_level [OF inv _ _ t2 index_less(3), of va, folded e2_def]
    show ?thesis unfolding pt_path_def by (intro conjI l2) simp_all
  qed
  have none: "tbl_of s root (i # p) = None" if "tbl_of s root p = None" for i p using that by simp
  have view: "view root s va = (if permits False w e4 \<and> permits False w e3 \<and> permits False w e2 then e1 else 0)"
  proof (cases "permits False w e4 \<and> permits False w e3")
    case True
    then show ?thesis using p2 by (simp add: view_def e1_def)
  next
    case False
    then have "tbl_of s root (pt_path va) = None"
      unfolding pt_path_def using p4(1) p3 none by (metis (full_types))
    then show ?thesis using False by (auto simp: view_def)
  qed
  have "\<not> permits False w 0" by (simp add: permits_def)
  then show ?thesis unfolding run view using p4(2) p3 p2 by auto
qed

section \<open>Pages of a range\<close>

lemma within_page:
  assumes "aligned 4096 a" and "r < 4096"
  shows "vpn (a + of_nat r) = vpn a" and "take_bit 12 (a + of_nat r) = of_nat r"
    and "a + of_nat r = a OR of_nat r"
proof -
  have z: "take_bit 12 a = 0"
    using assms(1) by (simp add: aligned_def word_unat_eq_iff unsigned_take_bit_eq take_bit_eq_mod dvd_eq_mod_eq_0 unat_mod)
  have r: "take_bit 12 (of_nat r) = (of_nat r :: u64)"
    using assms(2) by (simp add: word_unat_eq_iff unsigned_take_bit_eq take_bit_nat_eq_self unat_of_nat)
  then have b: "bit (of_nat r :: u64) n \<Longrightarrow> n < 12" for n
    using bit_take_bit_iff [of 12 "of_nat r :: u64" n] by simp
  have za: "bit a n \<Longrightarrow> 12 \<le> n" for n
    using arg_cong [OF z, of "\<lambda>x. bit x n"] by (simp add: bit_take_bit_iff not_less)
  then have "a AND of_nat r = 0" using b by (intro bit_word_eqI) (fastforce simp: bit_and_iff)
  then show e: "a + of_nat r = a OR of_nat r" by (simp add: disjunctive_add_eq_or)
  show "vpn (a + of_nat r) = vpn a" unfolding e vpn_eq_bits using b by (auto simp: bit_or_iff dest: leD)
  show "take_bit 12 (a + of_nat r) = of_nat r" unfolding e by (simp add: z r)
qed

lemma mapped_address:
  assumes "f < 2 ^ 40" and "flags AND HW_ADDR_MASK = 0" and "r < 4096"
  shows "((frame_addr f OR flags) AND HW_ADDR_MASK) OR of_nat r = frame_addr f + of_nat r"
proof -
  have "(frame_addr f OR flags) AND HW_ADDR_MASK = frame_addr f"
    using frame_addr_hw [OF assms(1)] assms(2) by (simp add: bit.conj_disj_distrib2)
  then show ?thesis using within_page(3) [OF aligned_frame_addr assms(3), of f] assms(1) by simp
qed

text \<open>A byte of a range lies in one of its pages, at the same distance in both address spaces.\<close>

lemma range_byte:
  assumes "j < unat len" and "unat len \<le> 2 ^ 48" and "aligned 4096 virt" and "aligned 4096 phys"
    and "unat phys + unat len \<le> 2 ^ 52"
  obtains k r where "k < iters VIRT_PAGE_SIZE len" and "r < 4096"
    and "vpn (virt + of_nat j) = vpn (virt + of_nat k * VIRT_PAGE_SIZE)" and "take_bit 12 (virt + of_nat j) = of_nat r"
    and "phys + of_nat k * VIRT_PAGE_SIZE = frame_addr (frame_of phys + k)" and "frame_of phys + k < 2 ^ 40"
    and "phys + of_nat j = frame_addr (frame_of phys + k) + of_nat r"
proof -
  let ?k = "j div 4096" and ?r = "j mod 4096"
  have "(j + 4096) div 4096 \<le> (unat len + 4095) div 4096" using assms(1) by (intro div_le_mono) simp
  moreover have "(j + 4096) div 4096 = ?k + 1" by (rule div_add_self2) simp
  ultimately have k: "?k < iters VIRT_PAGE_SIZE len" by (simp add: iters_def page_step add.commute)
  have small: "?k < 2 ^ 52" using assms(1,2) by simp
  have j: "of_nat j = of_nat ?k * VIRT_PAGE_SIZE + (of_nat ?r :: u64)"
  proof -
    have "(of_nat j :: u64) = of_nat (?k * 4096 + ?r)" by simp
    then show ?thesis by (simp only: of_nat_add of_nat_mult of_nat_numeral VIRT_PAGE_SIZE_def)
  qed
  have "aligned 4096 (of_nat ?k * VIRT_PAGE_SIZE)"
    using aligned_frame_addr [OF small] by (simp add: frame_addr_def VIRT_PAGE_SIZE_def)
  then have al: "aligned 4096 (virt + of_nat ?k * VIRT_PAGE_SIZE)" by (intro aligned_add [OF _ assms(3)]) simp_all
  have v: "virt + of_nat j = virt + of_nat ?k * VIRT_PAGE_SIZE + of_nat ?r" by (simp add: j add.assoc)
  have p: "phys + of_nat ?k * VIRT_PAGE_SIZE = frame_addr (frame_of phys + ?k)"
    using frame_addr_of [OF assms(4)] by (simp add: frame_addr_def VIRT_PAGE_SIZE_def distrib_right)
  have "(unat phys + j) div 4096 < 2 ^ 40" using assms(1,5) by simp
  moreover have "(unat phys + j) div 4096 = unat phys div 4096 + ?k"
    using assms(4) by (auto elim!: aligned_cases)
  ultimately have f: "frame_of phys + ?k < 2 ^ 40" by (simp add: frame_of_def)
  show ?thesis
    by (rule that [OF k _ _ _ p f]) (use within_page [OF al, of ?r] in \<open>simp_all add: v p [symmetric] add.assoc, simp add: j add.assoc\<close>)
qed

section \<open>Properties\<close>

text \<open>C3: In the active address space the processor translates every byte of a range that \<open>virt_map\<close> has
  mapped present to the byte of physical memory at the same distance from \<open>phys_addr\<close>, for reading, and
  for writing when the flags allow it; every address outside the pages of the range translates as before.\<close>

theorem virt_map_translates:
  assumes "aspace ctx root s" and "cr3 s + s_virt_hhdm_offset s = root" and "unat len \<le> 2 ^ 48"
    and "max_tables (iters VIRT_PAGE_SIZE len) \<le> budget s"
    and "aligned 4096 phys" and "aligned 4096 virt" and "unat phys + unat len \<le> 2 ^ 52"
    and "flags AND VF_PD_BIG_PAGE = 0" and "flags AND HW_ADDR_MASK = 0" and "permits False w flags"
  shows "\<exists>s'. virt_map ctx phys virt len flags s = Inr ((), s') \<and>
           (\<forall>j<unat len. canonical (virt + of_nat j) \<longrightarrow>
              mmu_translate (mem s') (s_virt_hhdm_offset s') (cr3 s') False w (virt + of_nat j) = Some (phys + of_nat j)) \<and>
           (\<forall>x. (\<forall>k<iters VIRT_PAGE_SIZE len. vpn x \<noteq> vpn (virt + of_nat k * VIRT_PAGE_SIZE)) \<longrightarrow>
              mmu_translate (mem s') (s_virt_hhdm_offset s') (cr3 s') False w x =
              mmu_translate (mem s) (s_virt_hhdm_offset s) (cr3 s) False w x)"
proof -
  obtain s' where s': "virt_map ctx phys virt len flags s = Inr ((), s')" "aspace ctx root s'"
      "\<forall>k<iters VIRT_PAGE_SIZE len.
         view root s' (virt + of_nat k * VIRT_PAGE_SIZE) = (phys + of_nat k * VIRT_PAGE_SIZE) OR flags"
      "\<forall>x. (\<forall>k<iters VIRT_PAGE_SIZE len. vpn x \<noteq> vpn (virt + of_nat k * VIRT_PAGE_SIZE)) \<longrightarrow>
         view root s' x = view root s x" and quiet: "quiet s s'"
    by (rule map_range [OF assms(1,3,4), where phys = phys and virt = virt and flags = flags])
      (use assms(8) in \<open>auto simp: virt_map_def map_loop.passed_def preserves_def evolves_def\<close>)
  have inv: "vm_inv root s" "vm_inv root s'" using assms(1) s'(2) by (simp_all add: aspace_def)
  note m = mmu_view [OF inv(1) assms(2), of w] and m' = mmu_view [OF inv(2), of w]
  have top: "cr3 s' + s_virt_hhdm_offset s' = root" using assms(2) quiet_fields(5,7) [OF quiet] by simp
  have "mmu_translate (mem s') (s_virt_hhdm_offset s') (cr3 s') False w (virt + of_nat j) = Some (phys + of_nat j)"
    if j: "j < unat len" and c: "canonical (virt + of_nat j)" for j
  proof -
    obtain k r where k: "k < iters VIRT_PAGE_SIZE len" "r < 4096" "take_bit 12 (virt + of_nat j) = of_nat r"
      "vpn (virt + of_nat j) = vpn (virt + of_nat k * VIRT_PAGE_SIZE)" "frame_of phys + k < 2 ^ 40"
      "phys + of_nat k * VIRT_PAGE_SIZE = frame_addr (frame_of phys + k)"
      "phys + of_nat j = frame_addr (frame_of phys + k) + of_nat r"
      by (rule range_byte [OF j assms(3,6,5,7)]) (rule that; assumption)
    have "view root s' (virt + of_nat j) = frame_addr (frame_of phys + k) OR flags"
      using s'(3) k(1,6) by (simp add: view_cong [OF k(4)])
    moreover have "permits False w (frame_addr (frame_of phys + k) OR flags)"
      using assms(10) by (auto simp: permits_def bit_or_iff)
    ultimately show ?thesis
      unfolding m' [OF top] using c mapped_address [OF k(5) assms(9) k(2)] k(3,7) by simp
  qed
  moreover have "mmu_translate (mem s') (s_virt_hhdm_offset s') (cr3 s') False w x =
      mmu_translate (mem s) (s_virt_hhdm_offset s) (cr3 s) False w x"
    if "\<forall>k<iters VIRT_PAGE_SIZE len. vpn x \<noteq> vpn (virt + of_nat k * VIRT_PAGE_SIZE)" for x
    unfolding m m' [OF top] using s'(4) that by simp
  ultimately show ?thesis using s'(1) by blast
qed

text \<open>The concrete address space is the active one.\<close>

lemma demo_active: "cr3 demo_virt + s_virt_hhdm_offset demo_virt = demo_root"
  by (simp add: demo_hhdm_def demo_root_def)

theorem virt_map_translates_witness:
  "\<exists>s'. virt_map 0 0x5000 0x400000 8192 3 demo_virt = Inr ((), s') \<and>
     mmu_translate (mem s') (s_virt_hhdm_offset s') (cr3 s') False True 0x401abc = Some 0x6abc"
proof -
  have "canonical 0x401abc" by (simp add: canonical_def)
  moreover have "max_tables (iters VIRT_PAGE_SIZE 8192) \<le> budget demo_virt"
    by (simp add: demo_budget iters_two max_tables_def)
  ultimately show ?thesis
    using virt_map_translates [OF demo_aspace demo_active, of 8192 "0x5000" "0x400000" 3 True]
    by (auto simp: aligned_def kernel_defs HW_ADDR_MASK_def permits_def dest!: spec [of _ "0x1abc"])
qed

text \<open>C23: Where the entry of an address in the active address space leaves bit 52 clear, \<open>virt_get_physical_address\<close>
  gives the page frame that the processor reads from, and 0 where the processor faults. (Bit 52, which the
  processor ignores, is part of \<open>ENTRY_PHYS_ADDR_MASK\<close>.)\<close>

theorem virt_get_physical_address_agrees:
  assumes "aspace ctx root s" and "cr3 s + s_virt_hhdm_offset s = root" and "canonical va"
    and "\<not> bit (view root s va) 52"
  shows "virt_get_physical_address ctx va s =
           Inr (case mmu_translate (mem s) (s_virt_hhdm_offset s) (cr3 s) False False va of
                  None \<Rightarrow> 0 | Some pa \<Rightarrow> pa - take_bit 12 va, s)"
proof -
  let ?v = "view root s va"
  have inv: "vm_inv root s" using assms(1) by (simp add: aspace_def)
  have "?v AND VF_PT_PRESENT = 0 \<longleftrightarrow> \<not> bit ?v 0"
    by (simp add: kernel_defs and_one_eq mod_2_eq_odd bit_0)
  moreover have "?v AND ENTRY_PHYS_ADDR_MASK = ?v AND HW_ADDR_MASK"
    by (rule no_bit_52 [OF assms(4)])
  moreover have "((?v AND HW_ADDR_MASK) OR take_bit 12 va) - take_bit 12 va = ?v AND HW_ADDR_MASK"
  proof -
    have "(?v AND HW_ADDR_MASK) AND take_bit 12 va = 0"
      by (intro bit_word_eqI) (auto simp: bit_and_iff bit_hw_addr_mask bit_take_bit_iff)
    then have "(?v AND HW_ADDR_MASK) OR take_bit 12 va = (?v AND HW_ADDR_MASK) + take_bit 12 va"
      by (simp add: disjunctive_add_eq_or)
    then show ?thesis by simp
  qed
  ultimately show ?thesis
    using assms(3) by (simp add: get_physical_address_eq [OF assms(1)] mmu_view [OF inv assms(2)] permits_def)
qed

theorem virt_get_physical_address_agrees_witness:
  "\<exists>s. virt_map 0 0x5000 0x400000 8192 3 demo_virt = Inr ((), s) \<and>
     virt_get_physical_address 0 0x401abc s = Inr (0x6000, s)"
proof -
  obtain s where s: "virt_map 0 0x5000 0x400000 8192 3 demo_virt = Inr ((), s)" "aspace 0 demo_root s"
      "view demo_root s 0x401abc = 0x6003" "quiet demo_virt s"
    by (rule demo_mapped)
  have top: "cr3 s + s_virt_hhdm_offset s = demo_root" using demo_active quiet_fields(5,7) [OF s(4)] by simp
  have c: "canonical 0x401abc" by (simp add: canonical_def)
  have "mmu_translate (mem s) (s_virt_hhdm_offset s) (cr3 s) False False 0x401abc = Some 0x6abc"
    using mmu_view [OF _ top, of False "0x401abc"] s(2,3) c
    by (simp add: aspace_def permits_def HW_ADDR_MASK_def take_bit_eq_mask mask_eq_exp_minus_1)
  then show ?thesis
    using virt_get_physical_address_agrees [OF s(2) top c] s(1,3)
    by (auto simp: take_bit_eq_mask mask_eq_exp_minus_1)
qed

end
