(* ===== verification/VirtInit.thy ===== *)
theory VirtInit
  imports FirstFrames Overlay Mmu
begin

text \<open>
  \<open>virt_init\<close>: the first address space of the kernel. The ranges are mapped one after the other, and the
  address space becomes the active one; what every address translates to in the end.
\<close>

section \<open>Mapping the ranges\<close>

lemma virt_map_overlay:
  assumes "aspace ctx root s" and "range_ok r" and "max_tables (range_pages r) \<le> budget s"
  shows "\<exists>s'. (case r of (p, v, len) \<Rightarrow> virt_map ctx p v len (VF_PT_PRESENT OR VF_PT_WRITABLE) s) = Inr ((), s') \<and>
           aspace ctx root s' \<and> preserves root s s' \<and> view root s' = put_range r (view root s) \<and>
           budget s \<le> budget s' + max_tables (range_pages r)"
proof -
  obtain p v len where r: "r = (p, v, len)" by (cases r)
  let ?fl = "VF_PT_PRESENT OR VF_PT_WRITABLE" and ?n = "iters VIRT_PAGE_SIZE len"
  have len: "unat len \<le> 2 ^ 48" "max_tables ?n \<le> budget s" using assms(2,3) by (simp_all add: r range_ok_def range_pages_def)
  obtain s' where s': "for_step VIRT_PAGE_SIZE 0 len (virt_map_step ctx p v ?fl False) s = Inr ((), s')"
      "map_loop.passed ctx root v p ?fl VIRT_PAGE_SIZE ?n s s'"
      "budget s \<le> budget s' + max_tables ?n"
    by (rule map_range [OF assms(1) len])
  have "?fl AND VF_PD_BIG_PAGE = 0" by (simp add: kernel_defs)
  then have "virt_map ctx p v len ?fl s = Inr ((), s')" using s'(1) by (simp add: virt_map_def)
  moreover have "aspace ctx root s'" "preserves root s s'" using s'(2) unfolding map_loop.passed_def by blast+
  moreover have "view root s' = overlay p v ?n ?fl (view root s)"
    by (rule overlay_eqI [OF iters_page_small(1) [OF len(1)]]) (use s'(2) in \<open>unfold map_loop.passed_def, blast+\<close>)
  ultimately show ?thesis using s'(3) by (simp add: r range_pages_def put_range_def)
qed

lemma preserves_offset: "preserves root s s' \<Longrightarrow> s_virt_hhdm_offset s' = s_virt_hhdm_offset s"
  unfolding preserves_def evolves_def by (elim exE conjE) (rule quiet_fields(5))

lemma map_hhdm_entries_run:
  assumes "aspace ctx root s" and "s_virt_hhdm_offset s = off" and "\<forall>r\<in>set (entry_ranges off es). range_ok r"
    and "ranges_tables (entry_ranges off es) \<le> budget s"
  shows "\<exists>s'. map_hhdm_entries ctx es s = Inr ((), s') \<and> aspace ctx root s' \<and> preserves root s s' \<and>
           view root s' = fold put_range (entry_ranges off es) (view root s) \<and>
           budget s \<le> budget s' + ranges_tables (entry_ranges off es)"
  using assms
proof (induction es arbitrary: s)
  case Nil
  then show ?case using preserves_refl by (simp add: entry_ranges_def) blast
next
  case (Cons e es)
  show ?case
  proof (cases "direct_mapped e")
    case False
    then show ?thesis using Cons by (simp add: entry_ranges_def direct_mapped_def)
  next
    case True
    let ?r = "entry_range off e"
    have rs: "entry_ranges off (e # es) = ?r # entry_ranges off es" using True by (simp add: entry_ranges_def)
    obtain t where t: "virt_map ctx (me_base e) (me_base e + off) (ceilchunku64 (me_length e) VIRT_PAGE_SIZE)
          (VF_PT_PRESENT OR VF_PT_WRITABLE) s = Inr ((), t)"
        "aspace ctx root t" "preserves root s t" "view root t = put_range ?r (view root s)"
        "budget s \<le> budget t + max_tables (range_pages ?r)"
      using virt_map_overlay [OF Cons.prems(1), of ?r] Cons.prems(3,4) unfolding rs by (auto simp: entry_range_def)
    have "s_virt_hhdm_offset t = off" using preserves_offset [OF t(3)] Cons.prems(2) by simp
    then obtain s' where s': "map_hhdm_entries ctx es t = Inr ((), s')" "aspace ctx root s'" "preserves root t s'"
        "view root s' = fold put_range (entry_ranges off es) (view root t)"
        "budget t \<le> budget s' + ranges_tables (entry_ranges off es)"
      using Cons.IH [OF t(2)] Cons.prems(3,4) t(5) unfolding rs by auto
    have "map_hhdm_entries ctx (e # es) s = Inr ((), s')"
      using True t(1) s'(1) Cons.prems(2) by (simp add: direct_mapped_def)
    then show ?thesis
      using s' preserves_trans [OF t(3) s'(3)] t(4,5) unfolding rs by (intro exI [of _ s']) simp
  qed
qed

text \<open>The part of \<open>virt_init\<close> that follows: the ranges go to the tables of the new context.\<close>

definition fill_tables :: "u64 \<Rightarrow> u64 \<Rightarrow> boot_info \<Rightarrow> u64 \<Rightarrow> 'z virt_scheme \<Rightarrow> (unit, 'z virt_scheme) res" where
  "fill_tables kernel_start kernel_end b ctx s =
     (case limine_data_get_memmap_response b of None \<Rightarrow> Inl Fault | Some entries \<Rightarrow>
      bindk (map_hhdm_entries ctx entries s) (\<lambda>_ s.
      case limine_data_get_framebuffer_response b of
        Some (fb # _) \<Rightarrow>
          bindk (virt_map ctx (fb_address fb - s_virt_hhdm_offset s) (fb_address fb)
                   (fb_width fb * fb_height fb * ucast (fb_bpp fb) div BITS_PER_BYTE)
                   (VF_PT_PRESENT OR VF_PT_WRITABLE) s) (\<lambda>_ s.
          let s = ktrace ''Added HHDM map.'' [] s
          in case limine_data_get_executable_address_response b of None \<Rightarrow> Inl Fault | Some ea \<Rightarrow>
             bindk (virt_map ctx (physical_base ea) (virtual_base ea) (kernel_end - kernel_start)
                      (VF_PT_PRESENT OR VF_PT_WRITABLE) s) (\<lambda>_ s.
             let s = ktrace ''Added kernel map.'' [] s
             in Inr ((), virt_ctx_use ctx s)))
      | _ \<Rightarrow> Inl Fault))"

text \<open>The start: three frames, a context and an empty top-level table.\<close>

lemma context_state_order:
  "s\<lparr>s_virt_hhdm_offset := off, s_kernel_pdpt_virt := pd,
     mem := store64 (store64 m (frame_addr f2 + off) (frame_addr f3)) (frame_addr f2 + off + 8) (frame_addr f3 + off)\<rparr>
   = context_state off pd f2 f3 m s"
  "context_state off pd f2 f3 m (s\<lparr>mem := m'\<rparr>) = context_state off pd f2 f3 m s"
  by (cases s rule: virt.cases_scheme, simp add: context_state_def)+

lemma virt_init_start:
  assumes b: "limine_data_hhdm_get_offset b = Some off" and ready: "boot_ready off s" and z: "pml4_zeroed off s"
    and free: "3 \<le> card (free_frames s)"
  obtains t ctx root where "virt_init ks ke b s = fill_tables ks ke b ctx t"
    and "aspace ctx root t" and "view root t = (\<lambda>_. 0)" and "rd64 t ctx + off = root"
    and "\<And>k. k < 8 \<Longrightarrow> kept root t (ctx + of_nat k)" and "ctx \<noteq> 0" and "budget t + 3 = card (free_frames s)"
    and "s_virt_hhdm_offset t = off" and "klogs t = klogs s" and "io t = io s" and "virt.more t = virt.more s"
    and "\<And>x. frame_of (x - off) < covered s \<Longrightarrow> frame_used s (frame_of (x - off)) \<Longrightarrow> \<not> in_bitmap s x \<Longrightarrow>
           mem t x = mem s x \<and> kept root t x"
proof -
  obtain f1 f2 f3 m1 m2 m3 where p: "phys_alloc s = (frame_addr f1, s\<lparr>mem := m1\<rparr>)"
      "phys_alloc (s\<lparr>mem := m1\<rparr>) = (frame_addr f2, s\<lparr>mem := m2\<rparr>)"
      "phys_alloc (s\<lparr>mem := m2\<rparr>) = (frame_addr f3, s\<lparr>mem := m3\<rparr>)" and tk: "taken s f1 f2 f3 m3"
    by (rule three_frames [OF boot_readyD(2) [OF ready] free])
  let ?pd = "frame_addr f1 + off" and ?ctx = "frame_addr f2 + off" and ?root = "frame_addr f3 + off"
  let ?t = "context_state off ?pd f2 f3 m3 s"
  note c = context_state_frames [OF ready tk, where pd = ?pd]
    and sp = context_state_space(1,2,4,5) [OF ready tk z, where pd = ?pd] and nz = context_state_space(3) [OF ready tk z]
  have "frame_addr f1 \<noteq> 0"
    using takenD(3,4) [OF ready tk, of f1] frame_addr_eq_0 [of f1] by simp
  moreover have "phys_alloc (s\<lparr>s_virt_hhdm_offset := off\<rparr>) = (frame_addr f1, s\<lparr>mem := m1, s_virt_hhdm_offset := off\<rparr>)"
    using phys_alloc_virt(1) [where s = s and m = "mem s" and a = "frame_addr f1" and m' = m1 and h = off] p(1) by simp
  moreover note phys_alloc_virt(2) [OF p(2), where h = off and pd = ?pd] phys_alloc_virt(2) [OF p(3), where h = off and pd = ?pd]
  ultimately have run: "virt_init ks ke b s = fill_tables ks ke b ?ctx ?t"
    using b by (simp add: virt_init_def fill_tables_def context_state_order s_phys_to_virt_def Let_def load64_store64_same
        cong: option.case_cong list.case_cong)
  have "kept ?root ?t (?ctx + 8 + of_nat k)" if "k < 8" for k
    using sp(3) [of "8 + k"] that by (simp add: add.assoc)
  then have as: "aspace ?ctx ?root ?t"
    using sp(1) nz c(8) by (simp add: aspace_def ctx_at_def s_virt_get_top_level_def)
  have bu: "budget ?t + 3 = card (free_frames s)"
  proof -
    have "free_frames ?t = free_frames s - {f1, f2, f3}" using c(6) by (auto simp: free_frames_def c(2))
    moreover have "{f1, f2, f3} \<subseteq> free_frames s" "card {f1, f2, f3} = 3" using tk by (simp_all add: taken_def)
    ultimately show ?thesis using card_Diff_subset [of "{f1, f2, f3}" "free_frames s"] free by (simp add: budget_def)
  qed
  have "rd64 ?t ?ctx + off = ?root" "klogs ?t = klogs s" "io ?t = io s" "virt.more ?t = virt.more s"
    by (simp_all add: c(7)) (simp_all add: context_state_def)
  then show ?thesis
    using that [OF run as sp(2) _ _ nz bu c(1) _ _ _ sp(4)] sp(3) by simp
qed

section \<open>Filling the tables\<close>

lemma preserves_kept: "preserves root s s' \<Longrightarrow> kept root s x \<Longrightarrow> mem s' x = mem s x \<and> kept root s' x"
  by (auto simp: preserves_def evolves_def)

lemma preserves_fields:
  assumes "preserves root s s'"
  shows "klogs s' = klogs s" "cr3 s' = cr3 s" "s_virt_hhdm_offset s' = s_virt_hhdm_offset s"
    "s_kernel_pdpt_virt s' = s_kernel_pdpt_virt s" "s_phys_bitmap s' = s_phys_bitmap s"
    "s_phys_bitmap_size s' = s_phys_bitmap_size s" "s_phys_hhdm_offset s' = s_phys_hhdm_offset s"
    "s_phys_addr_space_size s' = s_phys_addr_space_size s" "io s' = io s" "virt.more s' = virt.more s"
  using assms quiet_fields unfolding preserves_def evolves_def by metis+

text \<open>A context becomes the active one.\<close>

lemma virt_ctx_use_active:
  assumes "aspace ctx root s" and "rd64 s ctx + s_virt_hhdm_offset s = root"
  shows "aspace 0 root (virt_ctx_use ctx s)" and "cr3 (virt_ctx_use ctx s) + s_virt_hhdm_offset s = root"
    and "view root (virt_ctx_use ctx s) = view root s" and "budget (virt_ctx_use ctx s) = budget s"
    and "kept root (virt_ctx_use ctx s) = kept root s" and "mem (virt_ctx_use ctx s) = mem s"
proof -
  have f: "mem (virt_ctx_use ctx s) = mem s" "s_phys_bitmap (virt_ctx_use ctx s) = s_phys_bitmap s"
      "s_phys_bitmap_size (virt_ctx_use ctx s) = s_phys_bitmap_size s"
      "s_virt_hhdm_offset (virt_ctx_use ctx s) = s_virt_hhdm_offset s"
    by (simp_all add: virt_ctx_use_def)
  note same = same_vm [OF f]
  show cr3: "cr3 (virt_ctx_use ctx s) + s_virt_hhdm_offset s = root" using assms(2) by (simp add: virt_ctx_use_def)
  then show "aspace 0 root (virt_ctx_use ctx s)"
    using assms(1) f(4) same(1) by (simp add: aspace_def ctx_at_def s_virt_get_top_level_def s_phys_to_virt_def)
  show "view root (virt_ctx_use ctx s) = view root s" "budget (virt_ctx_use ctx s) = budget s"
    "kept root (virt_ctx_use ctx s) = kept root s" "mem (virt_ctx_use ctx s) = mem s"
    by (rule same(3) same(2) same(4) f(1))+
qed

lemma fill_tables_run:
  assumes s: "aspace ctx root s" "s_virt_hhdm_offset s = off" "ctx \<noteq> 0" "rd64 s ctx + off = root"
      "\<And>k. k < 8 \<Longrightarrow> kept root s (ctx + of_nat k)"
    and b: "limine_data_get_memmap_response b = Some es" "limine_data_get_framebuffer_response b = Some (fb # fbs)"
      "limine_data_get_executable_address_response b = Some ea"
    and rs: "\<forall>r\<in>set (boot_ranges off ks ke es fb ea). range_ok r"
      "ranges_tables (boot_ranges off ks ke es fb ea) \<le> budget s"
  shows "\<exists>s'. fill_tables ks ke b ctx s = Inr ((), s') \<and> aspace 0 root s' \<and> cr3 s' + off = root \<and>
           s_virt_hhdm_offset s' = off \<and>
           view root s' = fold put_range (boot_ranges off ks ke es fb ea) (view root s) \<and>
           (\<forall>x. kept root s x \<longrightarrow> mem s' x = mem s x \<and> kept root s' x) \<and>
           budget s \<le> budget s' + ranges_tables (boot_ranges off ks ke es fb ea) \<and>
           io s' = io s \<and> virt.more s' = virt.more s \<and>
           klogs s' = klogs s @ [Klog LL_TRACE ''Added HHDM map.'' [], Klog LL_TRACE ''Added kernel map.'' []]"
proof -
  let ?E = "entry_ranges off es" and ?F = "framebuffer_range off fb" and ?K = "kernel_range ks ke ea"
  have need: "ranges_tables ?E + max_tables (range_pages ?F) + max_tables (range_pages ?K) \<le> budget s"
    using rs(2) by (simp add: boot_ranges_def)
  have ok: "\<forall>r\<in>set ?E. range_ok r" "range_ok ?F" "range_ok ?K" using rs(1) by (auto simp: boot_ranges_def)
  obtain u1 where u1: "map_hhdm_entries ctx es s = Inr ((), u1)" "aspace ctx root u1" "preserves root s u1"
      "view root u1 = fold put_range ?E (view root s)" "budget s \<le> budget u1 + ranges_tables ?E"
    using map_hhdm_entries_run [OF s(1,2) ok(1)] need by auto
  have o1: "s_virt_hhdm_offset u1 = off" using preserves_fields(3) [OF u1(3)] s(2) by simp
  have "max_tables (range_pages ?F) \<le> budget u1" using need u1(5) by linarith
  from virt_map_overlay [OF u1(2) ok(2) this] obtain u2 where
    u2: "virt_map ctx (fb_address fb - off) (fb_address fb)
        (fb_width fb * fb_height fb * ucast (fb_bpp fb) div BITS_PER_BYTE) (VF_PT_PRESENT OR VF_PT_WRITABLE) u1 = Inr ((), u2)"
      "aspace ctx root u2" "preserves root u1 u2" "view root u2 = put_range ?F (view root u1)"
      "budget u1 \<le> budget u2 + max_tables (range_pages ?F)"
    by (auto simp: framebuffer_range_def)
  define v2 where "v2 = ktrace ''Added HHDM map.'' [] u2"
  have v2: "aspace ctx root v2" "budget v2 = budget u2" "view root v2 = view root u2" "kept root v2 = kept root u2"
      "mem v2 = mem u2" "s_virt_hhdm_offset v2 = off"
      "klogs v2 = klogs u2 @ [Klog LL_TRACE ''Added HHDM map.'' []]"
    using u2(2) preserves_fields(3) [OF u2(3)] o1 by (simp_all add: v2_def)
  have "max_tables (range_pages ?K) \<le> budget v2" using need u1(5) u2(5) v2(2) by linarith
  from virt_map_overlay [OF v2(1) ok(3) this] obtain u3 where
    u3: "virt_map ctx (physical_base ea) (virtual_base ea) (ke - ks) (VF_PT_PRESENT OR VF_PT_WRITABLE) v2 = Inr ((), u3)"
      "aspace ctx root u3" "preserves root v2 u3" "view root u3 = put_range ?K (view root v2)"
      "budget v2 \<le> budget u3 + max_tables (range_pages ?K)"
    by (auto simp: kernel_range_def)
  have mem: "mem u3 x = mem s x \<and> kept root u3 x" if x: "kept root s x" for x
  proof -
    have 1: "mem u1 x = mem s x \<and> kept root u1 x" by (rule preserves_kept [OF u1(3) x])
    then have 2: "mem u2 x = mem u1 x \<and> kept root u2 x" using preserves_kept [OF u2(3)] by blast
    then have "kept root v2 x" using v2(4) by simp
    from preserves_kept [OF u3(3) this] 1 2 show ?thesis by (simp add: v2(5))
  qed
  have "rd64 u3 ctx = rd64 s ctx" by (rule load64_cong) (use mem s(5) in blast)
  then have root: "rd64 u3 ctx + off = root" using s(4) by simp
  let ?v = "ktrace ''Added kernel map.'' [] u3"
  let ?r = "virt_ctx_use ctx ?v"
  have o3: "s_virt_hhdm_offset u3 = off" using preserves_fields(3) [OF u3(3)] v2(6) by simp
  have "aspace ctx root ?v" "rd64 ?v ctx + s_virt_hhdm_offset ?v = root" using u3(2) root o3 by simp_all
  note r = virt_ctx_use_active [OF this, simplified]
  have "fill_tables ks ke b ctx s = Inr ((), ?r)"
    using u1(1) u2(1) u3(1) b o1 by (simp add: fill_tables_def Let_def v2_def)
  moreover have "view root ?r = fold put_range (boot_ranges off ks ke es fb ea) (view root s)"
    by (simp add: r(3) u3(4) v2(3) u2(4) u1(4) boot_ranges_def)
  moreover have "klogs u2 = klogs s" using preserves_fields(1) [OF u1(3)] preserves_fields(1) [OF u2(3)] by simp
  then have "klogs ?r = klogs s @ [Klog LL_TRACE ''Added HHDM map.'' [], Klog LL_TRACE ''Added kernel map.'' []]"
    using preserves_fields(1) [OF u3(3)] v2(7) by (simp add: virt_ctx_use_def)
  moreover have "io ?r = io s" "virt.more ?r = virt.more s"
    using preserves_fields(9,10) [OF u1(3)] preserves_fields(9,10) [OF u2(3)] preserves_fields(9,10) [OF u3(3)]
    by (simp_all add: virt_ctx_use_def v2_def)
  moreover have "budget s \<le> budget ?r + ranges_tables (boot_ranges off ks ke es fb ea)"
    using u1(5) u2(5) u3(5) v2(2) by (simp add: r(4) boot_ranges_def)
  moreover have "s_virt_hhdm_offset ?r = off" using o3 by (simp add: virt_ctx_use_def)
  ultimately show ?thesis
    using mem r(1,2,5,6) o3 by (intro exI [of _ ?r]) simp
qed

section \<open>The whole initialisation\<close>

lemma virt_init_spec:
  assumes "boot_ready off s" and "pml4_zeroed off s" and "limine_data_hhdm_get_offset b = Some off"
    and b: "limine_data_get_memmap_response b = Some es" "limine_data_get_framebuffer_response b = Some (fb # fbs)"
      "limine_data_get_executable_address_response b = Some ea"
    and rs: "\<forall>r\<in>set (boot_ranges off ks ke es fb ea). range_ok r"
    and free: "3 + ranges_tables (boot_ranges off ks ke es fb ea) \<le> card (free_frames s)"
  shows "\<exists>s' root. virt_init ks ke b s = Inr ((), s') \<and> aspace 0 root s' \<and> cr3 s' + off = root \<and>
           s_virt_hhdm_offset s' = off \<and>
           view root s' = fold put_range (boot_ranges off ks ke es fb ea) (\<lambda>_. 0) \<and>
           (\<forall>x. frame_of (x - off) < covered s \<longrightarrow> frame_used s (frame_of (x - off)) \<longrightarrow> \<not> in_bitmap s x \<longrightarrow>
              mem s' x = mem s x \<and> kept root s' x) \<and>
           card (free_frames s) \<le> budget s' + 3 + ranges_tables (boot_ranges off ks ke es fb ea) \<and>
           io s' = io s \<and> virt.more s' = virt.more s \<and>
           klogs s' = klogs s @ [Klog LL_TRACE ''Added HHDM map.'' [], Klog LL_TRACE ''Added kernel map.'' []]"
proof -
  have "3 \<le> card (free_frames s)" using free by linarith
  then obtain t ctx root where
    t: "virt_init ks ke b s = fill_tables ks ke b ctx t" "aspace ctx root t" "view root t = (\<lambda>_. 0)" "rd64 t ctx + off = root"
      "\<And>k. k < 8 \<Longrightarrow> kept root t (ctx + of_nat k)" "ctx \<noteq> 0" "budget t + 3 = card (free_frames s)"
      "s_virt_hhdm_offset t = off" "klogs t = klogs s" "io t = io s" "virt.more t = virt.more s"
      "\<And>x. frame_of (x - off) < covered s \<Longrightarrow> frame_used s (frame_of (x - off)) \<Longrightarrow> \<not> in_bitmap s x \<Longrightarrow>
           mem t x = mem s x \<and> kept root t x"
    by (rule virt_init_start [OF assms(3,1,2)]) (rule that; assumption)
  have "ranges_tables (boot_ranges off ks ke es fb ea) \<le> budget t" using free t(7) by linarith
  from fill_tables_run [OF t(2,8,6,4,5) b rs this] obtain s' where
    s': "fill_tables ks ke b ctx t = Inr ((), s')" "aspace 0 root s'" "cr3 s' + off = root" "s_virt_hhdm_offset s' = off"
      "view root s' = fold put_range (boot_ranges off ks ke es fb ea) (view root t)"
      "\<forall>x. kept root t x \<longrightarrow> mem s' x = mem t x \<and> kept root s' x"
      "budget t \<le> budget s' + ranges_tables (boot_ranges off ks ke es fb ea)"
      "klogs s' = klogs t @ [Klog LL_TRACE ''Added HHDM map.'' [], Klog LL_TRACE ''Added kernel map.'' []]"
      "io s' = io t" "virt.more s' = virt.more t" by blast
  have "card (free_frames s) \<le> budget s' + 3 + ranges_tables (boot_ranges off ks ke es fb ea)"
    using t(7) s'(7) by linarith
  moreover have "mem s' x = mem s x \<and> kept root s' x"
    if "frame_of (x - off) < covered s" "frame_used s (frame_of (x - off))" "\<not> in_bitmap s x" for x
    using t(12) [OF that] s'(6) by simp
  ultimately show ?thesis
    using s'(1-5,8-10) t(1,3,9-11) by (intro exI [of _ s'] exI [of _ root]) simp
qed

text \<open>Every entry of the first address space is empty, or present and writable.\<close>

lemma put_range_permits: "V x = 0 \<or> permits False w (V x) \<Longrightarrow> put_range r V x = 0 \<or> permits False w (put_range r V x)"
  by (auto simp: put_range_def overlay_def permits_def bit_or_iff kernel_defs split: prod.split)

lemma fold_put_range_permits:
  "V x = 0 \<or> permits False w (V x) \<Longrightarrow> fold put_range rs V x = 0 \<or> permits False w (fold put_range rs V x)"
proof (induction rs arbitrary: V)
  case (Cons r rs)
  then show ?case using Cons.IH [of "put_range r V"] put_range_permits [of V x w r] by simp
qed simp

lemma boot_view_permits: "permits False w (boot_view off ks ke es fb ea x) \<longleftrightarrow> boot_view off ks ke es fb ea x \<noteq> 0"
  unfolding boot_view_def using fold_put_range_permits [of "\<lambda>_. 0" x w "boot_ranges off ks ke es fb ea"]
  by (auto simp: permits_def)

section \<open>Properties\<close>

text \<open>C4: From a page allocator that is set up, with frames for the tables and a top-level table that
  happens to be zero, \<open>virt_init\<close> returns in an active address space of its own. Every page of the kernel
  image, every page of the memory map's mapped entries and every page of the framebuffer translates to its
  frame (the kernel first, where the two overlap), present and writable, and no other address is mapped.
  The processor can read and write at each address that is mapped, and faults at all others.
  Of the frames that were in use, only the allocator's bitmap has changed.\<close>

theorem virt_init_correct:
  assumes "boot_ready off s" and "pml4_zeroed off s" and "limine_data_hhdm_get_offset b = Some off"
    and "limine_data_get_memmap_response b = Some es" and "limine_data_get_framebuffer_response b = Some (fb # fbs)"
    and "limine_data_get_executable_address_response b = Some ea"
    and direct: "\<forall>r\<in>set (framebuffer_range off fb # entry_ranges off es). direct_range off r"
    and kernel: "range_ok (kernel_range ks ke ea)"
    and "3 + ranges_tables (boot_ranges off ks ke es fb ea) \<le> card (free_frames s)"
  shows "\<exists>s' root. virt_init ks ke b s = Inr ((), s') \<and> aspace 0 root s' \<and> cr3 s' + off = root \<and>
           maps_kernel ks ke ea (view root s') \<and> maps_direct off ks ke es fb ea (view root s') \<and>
           (\<forall>x. (\<forall>r\<in>set (boot_ranges off ks ke es fb ea). \<not> covers r x) \<longrightarrow> view root s' x = 0) \<and>
           (\<forall>write x. mmu_translate (mem s') off (cr3 s') False write x =
              (if canonical x \<and> view root s' x \<noteq> 0
               then Some ((view root s' x AND HW_ADDR_MASK) OR take_bit 12 x) else None)) \<and>
           (\<forall>x. frame_of (x - off) < covered s \<longrightarrow> frame_used s (frame_of (x - off)) \<longrightarrow> \<not> in_bitmap s x \<longrightarrow>
              mem s' x = mem s x)"
proof -
  note ok = boot_ranges_ok [OF direct kernel]
  from virt_init_spec [OF assms(1-6) ok assms(9)] obtain s' root where
    s': "virt_init ks ke b s = Inr ((), s')" "aspace 0 root s'" "cr3 s' + off = root"
      "view root s' = boot_view off ks ke es fb ea" "s_virt_hhdm_offset s' = off"
      "\<forall>x. frame_of (x - off) < covered s \<longrightarrow> frame_used s (frame_of (x - off)) \<longrightarrow> \<not> in_bitmap s x \<longrightarrow>
         mem s' x = mem s x" unfolding boot_view_def by blast
  have inv: "vm_inv root s'" using s'(2) by (simp add: aspace_def)
  have "mmu_translate (mem s') off (cr3 s') False w x =
      (if canonical x \<and> view root s' x \<noteq> 0 then Some ((view root s' x AND HW_ADDR_MASK) OR take_bit 12 x) else None)" for w x
    using mmu_view [OF inv, of w x] s'(3,5) by (simp add: s'(4) boot_view_permits)
  then show ?thesis
    using s' boot_view_maps [OF direct kernel, of "view root s'"] boot_view_elsewhere [of off ks ke es fb ea]
    by (intro exI [of _ s'] exI [of _ root]) simp
qed

definition demo_framebuffer :: framebuffer where
  "demo_framebuffer = \<lparr>fb_address = 0xffff8000fd000000, fb_width = 800, fb_height = 600, fb_pitch = 3200, fb_bpp = 32,
     fb_red_mask_size = 8, fb_red_mask_shift = 16, fb_green_mask_size = 8, fb_green_mask_shift = 8,
     fb_blue_mask_size = 8, fb_blue_mask_shift = 0\<rparr>"

definition demo_answers :: boot_info where
  "demo_answers = demo_boot\<lparr>
     framebuffer_response := Some [demo_framebuffer],
     module_response := Some [\<lparr>lf_address = 0, lf_size = 0, lf_path = 0, lf_string = 0\<rparr>],
     executable_address_response := Some \<lparr>physical_base = 0x10000, virtual_base = 0xffffffff80000000\<rparr>,
     rsdp_response := Some 0xffff800000020000\<rparr>"

lemma demo_free: "free_frames demo_virt = {3..<64}"
  using demo_used by (auto simp: free_frames_def)

lemma demo_boot_ready: "boot_ready demo_hhdm demo_virt"
proof -
  have "frame_of (x - demo_hhdm) = 1" if "in_bitmap demo_virt x" for x
    using demo_pfn(1) [OF that] by (simp add: pfn_def)
  then show ?thesis
    using demo_vm_inv demo_used [of 1] by (auto simp: boot_ready_def vm_inv_def)
qed

lemma demo_pml4_zeroed: "pml4_zeroed demo_hhdm demo_virt"
proof -
  have "mem demo_virt x = 0" if "frame_of (x - demo_hhdm) \<noteq> 1" for x
  proof -
    have "page x \<noteq> page 0xffff800000001000"
      using that demo_pfn(1) [of "0xffff800000001000"] pfn_eq_iff [of demo_virt x "0xffff800000001000"]
      by (simp add: pfn_def aligned_def demo_hhdm_def)
    then show ?thesis using demo_mem by simp
  qed
  then show ?thesis by (auto simp: pml4_zeroed_def demo_free)
qed

lemma demo_ranges:
  "limine_data_get_framebuffer_response demo_answers =
     Some [demo_framebuffer]"
  "limine_data_get_executable_address_response demo_answers = Some \<lparr>physical_base = 0x10000, virtual_base = 0xffffffff80000000\<rparr>"
  "limine_data_hhdm_get_offset demo_answers = Some demo_hhdm" "limine_data_get_memmap_response demo_answers = Some demo_map"
  "entry_ranges demo_hhdm demo_map = [(0, 0xffff800000000000, 0x40000)]"
  "framebuffer_range demo_hhdm demo_framebuffer =
     (0xfd000000, 0xffff8000fd000000, 1920000)"
  "kernel_range 0xffffffff80000000 0xffffffff80020000 \<lparr>physical_base = 0x10000, virtual_base = 0xffffffff80000000\<rparr> =
     (0x10000, 0xffffffff80000000, 0x20000)"
  by (simp_all add: demo_answers_def demo_framebuffer_def demo_boot_def demo_map_def limine_data_hhdm_get_offset_def
      limine_data_get_memmap_response_def limine_data_get_framebuffer_response_def
      limine_data_get_executable_address_response_def entry_ranges_def entry_range_def direct_mapped_def
      framebuffer_range_def kernel_range_def demo_hhdm_def ceilchunku64_def kernel_defs)

lemma demo_iters:
  "iters VIRT_PAGE_SIZE 0x40000 = 64" "iters VIRT_PAGE_SIZE 1920000 = 469" "iters VIRT_PAGE_SIZE 0x20000 = 32"
  by (simp_all add: iters_def kernel_defs)

theorem virt_init_correct_witness:
  "\<exists>s' root. virt_init 0xffffffff80000000 0xffffffff80020000 demo_answers demo_virt = Inr ((), s') \<and> aspace 0 root s' \<and>
     view root s' 0xffffffff80005000 = 0x15003 \<and> view root s' 0xffff800000003000 = 0x3003"
proof -
  have d: "direct_range demo_hhdm (0, 0xffff800000000000, 0x40000)" "direct_range demo_hhdm (0xfd000000, 0xffff8000fd000000, 1920000)"
    by (simp_all add: direct_range_def range_pages_def demo_iters aligned_def) (simp_all add: demo_hhdm_def)
  have c: "\<not> covers (0x10000, 0xffffffff80000000, 0x20000) 0xffff800000003000"
    by (simp add: covers_def range_pages_def demo_iters page_no_def vpn_def take_bit_eq_mask mask_eq_exp_minus_1)
  note t = virt_init_correct [OF demo_boot_ready demo_pml4_zeroed demo_ranges(3,4,1,2), unfolded demo_ranges(5,6),
      of "0xffffffff80000000" "0xffffffff80020000", unfolded demo_ranges(7)]
  obtain s' root where s': "virt_init 0xffffffff80000000 0xffffffff80020000 demo_answers demo_virt = Inr ((), s')" "aspace 0 root s'"
      "\<forall>k<32. view root s' (0xffffffff80000000 + of_nat k * VIRT_PAGE_SIZE) = (0x10000 + of_nat k * VIRT_PAGE_SIZE) OR 3"
      "\<forall>k<64. \<not> covers (0x10000, 0xffffffff80000000, 0x20000) (0xffff800000000000 + of_nat k * VIRT_PAGE_SIZE) \<longrightarrow>
         view root s' (0xffff800000000000 + of_nat k * VIRT_PAGE_SIZE) = (of_nat k * VIRT_PAGE_SIZE) OR 3"
    using t d by (auto simp: maps_kernel_def maps_direct_def demo_free boot_ranges_def demo_ranges range_ok_def range_pages_def demo_iters max_tables_def
        VF_PT_PRESENT_def VF_PT_WRITABLE_def)
  have "view root s' 0xffffffff80005000 = 0x15003" using spec [OF s'(3), of 5] by (simp add: kernel_defs)
  moreover have "view root s' 0xffff800000003000 = 0x3003" using spec [OF s'(4), of 3] c by (simp add: kernel_defs)
  ultimately show ?thesis using s'(1,2) by blast
qed

end
