(* ===== verification/BootProps.thy ===== *)
theory BootProps
  imports Boot VirtInit
begin

text \<open>
  The properties of the boot sequence: what happens when the boot loader has not answered, and the state
  in which the sequence arrives at the set-up of paging.
\<close>

section \<open>The checks and the terminal\<close>

definition answers_wanted :: "boot_info \<Rightarrow> bool" where
  "answers_wanted b \<longleftrightarrow>
     hhdm_response b \<noteq> None \<and> (\<exists>es. memmap_response b = Some es \<and> es \<noteq> []) \<and> paging_mode_response b \<noteq> None \<and>
     (\<exists>ms. module_response b = Some ms \<and> ms \<noteq> []) \<and> executable_address_response b \<noteq> None \<and> rsdp_response b \<noteq> None"

lemma log_modules_klogs: "\<exists>l. log_modules i ms s = s\<lparr>klogs := klogs s @ l\<rparr>"
proof (induction ms arbitrary: i s)
  case Nil
  show ?case by (intro exI [of _ "[]"]) simp
next
  case (Cons f fs)
  let ?t = "kinfo ''    %2llu: %s (%s) @ %0p (size %0p)''
          [KInt (of_nat i), KInt (lf_string f), KInt (lf_path f), KInt (lf_address f), KInt (lf_size f)] s"
  obtain l where "log_modules (Suc i) fs ?t = ?t\<lparr>klogs := klogs ?t @ l\<rparr>" using Cons.IH by blast
  then show ?case by (intro exI [of _ "[Klog LL_INFO ''    %2llu: %s (%s) @ %0p (size %0p)''
          [KInt (of_nat i), KInt (lf_string f), KInt (lf_path f), KInt (lf_address f), KInt (lf_size f)]] @ l"]) simp
qed

lemma list_missing: "(case r of None \<Rightarrow> True | Some xs \<Rightarrow> length xs < 1) \<longleftrightarrow> (\<nexists>xs. r = Some xs \<and> xs \<noteq> [])"
  by (auto simp: Suc_le_eq not_less split: option.split)

lemma wanted_responses:
  "\<exists>l. limine_data_wanted_responses_present b s = (answers_wanted b, s\<lparr>klogs := klogs s @ l\<rparr>) \<and>
     (\<not> answers_wanted b \<longrightarrow> (\<exists>msg. l \<noteq> [] \<and> last l = Klog LL_ERROR msg []))"
  (is "\<exists>l. ?r = _ \<and> _")
proof -
  let ?loaded = "kinfo ''Limine loaded %llu modules:'' [KInt (of_nat (length (the (module_response b))))] s"
  obtain l where "log_modules 0 (the (module_response b)) ?loaded = ?loaded\<lparr>klogs := klogs ?loaded @ l\<rparr>"
    using log_modules_klogs by blast
  then obtain k where k: "log_modules 0 (the (module_response b)) ?loaded = s\<lparr>klogs := klogs s @ k\<rparr>" by simp
  note d = limine_data_wanted_responses_present_def list_missing k Let_def answers_wanted_def
  consider "hhdm_response b = None" | "hhdm_response b \<noteq> None" "\<nexists>es. memmap_response b = Some es \<and> es \<noteq> []"
    | "hhdm_response b \<noteq> None" "\<exists>es. memmap_response b = Some es \<and> es \<noteq> []" "paging_mode_response b = None"
    | "hhdm_response b \<noteq> None" "\<exists>es. memmap_response b = Some es \<and> es \<noteq> []" "paging_mode_response b \<noteq> None"
      "\<nexists>ms. module_response b = Some ms \<and> ms \<noteq> []"
    | "hhdm_response b \<noteq> None" "\<exists>es. memmap_response b = Some es \<and> es \<noteq> []" "paging_mode_response b \<noteq> None"
      "\<exists>ms. module_response b = Some ms \<and> ms \<noteq> []" by blast
  then show ?thesis
  proof cases
    case 5
    consider "executable_address_response b = None" | "executable_address_response b \<noteq> None" "rsdp_response b = None"
      | "executable_address_response b \<noteq> None" "rsdp_response b \<noteq> None" by blast
    then show ?thesis
    proof cases
      case 1
      then show ?thesis using 5
        by (intro exI [of _ "k @ [Klog LL_ERROR ''Limine didn't provide the executable addresses!'' []]"]) (auto simp: d)
    next
      case 2
      then show ?thesis using 5
        by (intro exI [of _ "k @ [Klog LL_ERROR ''ACPI is unavailable! (RSDP response missing)'' []]"]) (auto simp: d)
    next
      case 3
      then show ?thesis using 5 by (intro exI [of _ k]) (auto simp: d)
    qed
  next
    case 1
    then show ?thesis
      by (intro exI [of _ "[Klog LL_ERROR ''Limine didn't provide a HHDM response..?'' []]"]) (simp add: d)
  next
    case 2
    then show ?thesis
      by (intro exI [of _ "[Klog LL_ERROR ''Limine didn't pass a memory map! :('' []]"]) (auto simp: d)
  next
    case 3
    then show ?thesis
      by (intro exI [of _ "[Klog LL_ERROR ''Limine didn't provide a paging mode response!'' []]"]) (auto simp: d)
  next
    case 4
    then show ?thesis
      by (intro exI [of _ "[Klog LL_ERROR ''Limine didn't load any modules!'' []]"]) (auto simp: d)
  qed
qed

lemma term_init_returns:
  assumes "limine_data_bare_minimum_present b"
  shows "\<exists>t'. term_init npf d b t = Some t'"
proof -
  obtain fb fbs p ps where "framebuffer_response b = Some (fb # fbs)" "flanterm_response b = Some (p # ps)"
    using assms
    by (auto simp: limine_data_bare_minimum_present_def not_less Suc_le_eq neq_Nil_conv split: if_splits option.splits)
  moreover have "\<exists>r. kprintf npf d fmt args u = Some r" for fmt args u
    using kvprintf_prints [of npf d fmt args u] by (auto simp: kprintf_def)
  ultimately show ?thesis
    by (simp add: term_init_def limine_data_get_framebuffer_response_def
        limine_data_get_flanterm_fb_init_params_response_def Let_def) (metis option.simps(9))
qed

text \<open>The state with the terminal up and the checks reported.\<close>

lemma kmain_checks:
  assumes "limine_data_bare_minimum_present (e_boot e)"
  shows "\<exists>fl h l. with_term (term_init (e_npf e) (e_device e) (e_boot e)) (s\<lparr>interrupts_enabled := False\<rparr>) =
             Inr ((), s\<lparr>interrupts_enabled := False, k_flanterm := fl, io := h\<rparr>) \<and>
           limine_data_wanted_responses_present (e_boot e) (s\<lparr>interrupts_enabled := False, k_flanterm := fl, io := h\<rparr>) =
             (answers_wanted (e_boot e), s\<lparr>interrupts_enabled := False, k_flanterm := fl, io := h, klogs := klogs s @ l\<rparr>) \<and>
           (\<not> answers_wanted (e_boot e) \<longrightarrow> (\<exists>msg. l \<noteq> [] \<and> last l = Klog LL_ERROR msg []))"
proof -
  obtain t where t: "term_init (e_npf e) (e_device e) (e_boot e) \<lparr>flanterm = k_flanterm s, com = io s\<rparr> = Some t"
    using term_init_returns [OF assms] by blast
  obtain l where "limine_data_wanted_responses_present (e_boot e)
        (s\<lparr>interrupts_enabled := False, k_flanterm := flanterm t, io := com t\<rparr>) =
      (answers_wanted (e_boot e), s\<lparr>interrupts_enabled := False, k_flanterm := flanterm t, io := com t, klogs := klogs s @ l\<rparr>)"
      "\<not> answers_wanted (e_boot e) \<longrightarrow> (\<exists>msg. l \<noteq> [] \<and> last l = Klog LL_ERROR msg [])"
    using wanted_responses [of "e_boot e" "s\<lparr>interrupts_enabled := False, k_flanterm := flanterm t, io := com t\<rparr>"]
    by auto
  then show ?thesis using t by (intro exI [of _ "flanterm t"] exI [of _ "com t"] exI [of _ l]) (simp add: with_term_def)
qed

section \<open>The way to paging\<close>

text \<open>The page allocator as \<open>phys_init\<close> leaves it; \<open>m\<close> is the memory before.\<close>

definition frames_set_up :: "u64 \<Rightarrow> memmap_entry list \<Rightarrow> u64 \<Rightarrow> mem \<Rightarrow> 'z phys_scheme \<Rightarrow> bool" where
  "frames_set_up off es base m t \<longleftrightarrow>
     alloc_wf t \<and> s_phys_bitmap t = base + off \<and> s_phys_bitmap_size t = memmap_bitmap_size es \<and>
     (\<forall>f < 8 * unat (memmap_bitmap_size es). frame_used t f \<longleftrightarrow>
        f = 0 \<or> f \<in> region_frames base (memmap_bitmap_size es * 8) \<or> f \<notin> usable_frames es) \<and>
     (\<forall>f<2 ^ 52. f = 0 \<or> f \<in> region_frames base (memmap_bitmap_size es * 8) \<longrightarrow> frame_used t f) \<and>
     (usable_frames es \<subseteq> {..<8 * unat (memmap_bitmap_size es)} \<longrightarrow> memmap_bitmap_size es \<noteq> 0 \<longrightarrow>
        region_frames base (memmap_bitmap_size es * 8) \<subseteq> {..<covered t} \<and>
        (\<forall>x. \<not> in_bitmap t x \<longrightarrow> mem t x = m x))"

lemma frames_set_up_klogs [simp]: "frames_set_up off es base m (t\<lparr>klogs := l\<rparr>) = frames_set_up off es base m t"
proof -
  have "frame_used (t\<lparr>klogs := l\<rparr>) = frame_used t" "alloc_wf (t\<lparr>klogs := l\<rparr>) = alloc_wf t"
    "covered (t\<lparr>klogs := l\<rparr>) = covered t" "in_bitmap (t\<lparr>klogs := l\<rparr>) = in_bitmap t"
    by (simp_all add: fun_eq_iff frame_used_def bitmap_cell_def alloc_wf_def phys_wf_def covered_def in_bitmap_def)
  then show ?thesis by (simp add: frames_set_up_def)
qed

lemma phys_init_sets_up:
  assumes "limine_data_hhdm_get_offset b = Some off" and "limine_data_get_memmap_response b = Some es"
    and "memmap_ok es" and "aligned 4096 off"
    and "find_bitmap_base es (memmap_bitmap_size es) = Some base" and "base + off \<noteq> 0"
  obtains m where "phys_init b s = Inr ((), s\<lparr>s_phys_hhdm_offset := off, s_phys_addr_space_size := memmap_top es,
        s_phys_bitmap_size := memmap_bitmap_size es, s_phys_bitmap := base + off, mem := m\<rparr>)"
    and "frames_set_up off es base (mem s) (s\<lparr>s_phys_hhdm_offset := off, s_phys_addr_space_size := memmap_top es,
        s_phys_bitmap_size := memmap_bitmap_size es, s_phys_bitmap := base + off, mem := m\<rparr>)"
proof -
  obtain t where t: "phys_init b s = Inr ((), t)" "phys_wf t"
    "only_mem (s\<lparr>s_phys_hhdm_offset := off, s_phys_addr_space_size := memmap_top es,
               s_phys_bitmap_size := memmap_bitmap_size es, s_phys_bitmap := base + off\<rparr>) t"
    "\<forall>f < 8 * unat (memmap_bitmap_size es). frame_used t f \<longleftrightarrow>
       f = 0 \<or> f \<in> region_frames base (memmap_bitmap_size es * 8) \<or> f \<notin> usable_frames es"
    "\<forall>f<2 ^ 52. f = 0 \<or> f \<in> region_frames base (memmap_bitmap_size es * 8) \<longrightarrow> frame_used t f"
    "usable_frames es \<subseteq> {..<8 * unat (memmap_bitmap_size es)} \<longrightarrow> memmap_bitmap_size es \<noteq> 0 \<longrightarrow>
        region_frames base (memmap_bitmap_size es * 8) \<subseteq> {..<covered t} \<and>
        (\<forall>x. \<not> in_bitmap t x \<longrightarrow> mem t x = mem s x)"
    using phys_init_spec [OF assms] by blast
  have "alloc_wf t" using t(2) t(5) [rule_format, of 0] by (simp add: alloc_wf_def)
  then have ok: "frames_set_up off es base (mem s) t"
    using t(4-6) only_mem_fields [OF t(3)] by (simp add: frames_set_up_def)
  obtain m where m: "t = s\<lparr>s_phys_hhdm_offset := off, s_phys_addr_space_size := memmap_top es,
               s_phys_bitmap_size := memmap_bitmap_size es, s_phys_bitmap := base + off, mem := m\<rparr>"
    using t(3) by (rule only_memE) simp
  show ?thesis by (rule that [OF t(1) [unfolded m] ok [unfolded m]])
qed

lemma kmain_to_paging:
  assumes "limine_data_bare_minimum_present (e_boot e)" and "answers_wanted (e_boot e)"
    and b: "limine_data_hhdm_get_offset (e_boot e) = Some off" "limine_data_get_memmap_response (e_boot e) = Some es"
      "memmap_ok es" "aligned 4096 off" "find_bitmap_base es (memmap_bitmap_size es) = Some base" "base + off \<noteq> 0"
    and "length (gdt (k_gdt s)) = GDT_ENTRIES" and "k_idt s = idt_table"
  shows "\<exists>t. kmain e s = kmain_paging e t \<and> \<not> interrupts_enabled t \<and>
           map gdt_encode (gdt (k_gdt t)) =
             [0, 0x00af9b000000ffff, 0x00cf93000000ffff, 0x00affb000000ffff, 0x00cff3000000ffff] \<and>
           (\<forall>n<256. gate_target (k_idt t ! n) = e_handler_addr e n \<and> bit (g_flags (k_idt t ! n)) 7) \<and>
           irq_mask (pic_run PIC1_CMD PIC1_DATA p1 (io t)) = 0xff \<and>
           irq_mask (pic_run PIC2_CMD PIC2_DATA p2 (io t)) = 0xff \<and>
           frames_set_up off es base (mem s) t"
proof -
  obtain fl h l where k: "with_term (term_init (e_npf e) (e_device e) (e_boot e)) (s\<lparr>interrupts_enabled := False\<rparr>) =
             Inr ((), s\<lparr>interrupts_enabled := False, k_flanterm := fl, io := h\<rparr>)"
      "limine_data_wanted_responses_present (e_boot e) (s\<lparr>interrupts_enabled := False, k_flanterm := fl, io := h\<rparr>) =
             (answers_wanted (e_boot e), s\<lparr>interrupts_enabled := False, k_flanterm := fl, io := h, klogs := klogs s @ l\<rparr>)"
    using kmain_checks [OF assms(1), of s] by blast
  define g where "g = gdt_init (e_gdt_addr e) (k_gdt s)"
  define i where "i = idt_init (e_handler_addr e) (idt_table, h)"
  define u where "u = s\<lparr>interrupts_enabled := False, k_flanterm := fl, k_gdt := g, k_idt := fst i, io := snd i,
      klogs := klogs s @ l @ [Klog LL_DEBUG ''hello rats :3'' [], Klog LL_INFO ''gdt inited'' [], Klog LL_INFO ''idt inited'' []]\<rparr>"
  let ?cpuid = "\<lambda>t. kdebug ''cpuid max extended leaf: %08x''
                   [KInt (ucast (cpuid_eax (e_cpuid e) CPUID_MAX_EXTENDED_LEAF 0))]
             (kdebug ''cpuid max leaf:          %08x''
                   [KInt (ucast (cpuid_eax (e_cpuid e) CPUID_MAX_LEAF_AND_VENDOR_ID 0))] (kinfo ''phys inited'' [] t))"
  have run: "kmain e s = bindk (phys_init (e_boot e) u) (\<lambda>_ t. kmain_paging e (?cpuid t))"
    using assms(1,2,10) k
    by (simp add: kmain_def Let_def with_gdt_def with_idt_def u_def g_def i_def split_beta)
  obtain m where m: "phys_init (e_boot e) u = Inr ((), u\<lparr>s_phys_hhdm_offset := off, s_phys_addr_space_size := memmap_top es,
        s_phys_bitmap_size := memmap_bitmap_size es, s_phys_bitmap := base + off, mem := m\<rparr>)"
      "frames_set_up off es base (mem u) (u\<lparr>s_phys_hhdm_offset := off, s_phys_addr_space_size := memmap_top es,
        s_phys_bitmap_size := memmap_bitmap_size es, s_phys_bitmap := base + off, mem := m\<rparr>)" (is "frames_set_up _ _ _ _ ?t")
    by (rule phys_init_sets_up [OF b])
  have f: "k_gdt ?t = g" "k_idt ?t = fst i" "io ?t = snd i" "\<not> interrupts_enabled ?t" "mem u = mem s"
    by (simp_all add: u_def)
  have gates: "gate_target (fst i ! n) = e_handler_addr e n \<and> bit (g_flags (fst i ! n)) 7" if "n < 256" for n
    using idt_init_state [OF that, of "e_handler_addr e" h] by (simp add: i_def Let_def split_beta)
  have pics: "irq_mask (pic_run PIC1_CMD PIC1_DATA p1 (snd i)) = 0xff" "irq_mask (pic_run PIC2_CMD PIC2_DATA p2 (snd i)) = 0xff"
    using idt_init_state [of 0 "e_handler_addr e" h p1 p2] by (simp_all add: i_def Let_def split_beta)
  have "map gdt_encode (gdt g) = [0, 0x00af9b000000ffff, 0x00cf93000000ffff, 0x00affb000000ffff, 0x00cff3000000ffff]"
    using gdt_init_state [OF assms(9), of "e_gdt_addr e"] unfolding g_def Let_def by blast
  moreover have "kmain e s = kmain_paging e (?cpuid ?t)" by (simp only: run m(1)) simp
  moreover have "frames_set_up off es base (mem s) (?cpuid ?t)" using m(2) f(5) by simp
  ultimately show ?thesis
    using f gates pics by (intro exI [of _ "?cpuid ?t"]) simp
qed

section \<open>A concrete environment\<close>

definition demo_environment :: "boot_info \<Rightarrow> environment" where
  "demo_environment b =
     \<lparr>e_boot = b, e_device = \<lparr>answer8 = \<lambda>_ _. 0, answer16 = \<lambda>_ _. 0, answer32 = \<lambda>_ _. 0\<rparr>, e_npf = (\<lambda>_ _. []),
      e_uacpi = \<lparr>setup_early_table_access = (\<lambda>_ _ s. Inr (None, s)), find_madt = (\<lambda>s. Inr (Some 0x1000, s))\<rparr>,
      e_madt_layout = \<lparr>table_length = (\<lambda>_ _. 0x2c), local_interrupt_controller_address = (\<lambda>_ _. 0xfee00000),
        entry_type = (\<lambda>_ _. 0), entry_length = (\<lambda>_ _. 12), override_address = (\<lambda>_ _. 0), type_lapic_address_override = 5\<rparr>,
      e_msrs = (\<lambda>_. 0xfee00900), e_cpuid = (\<lambda>_ _. (0, 0, 0, 0)), e_gdt_addr = 0xffffffff80010000,
      e_handler_addr = (\<lambda>i. 0xffffffff80002000 + of_nat i * 16),
      e_kernel_start = 0xffffffff80000000, e_kernel_end = 0xffffffff80020000\<rparr>"

definition demo_kernel :: kernel where
  "demo_kernel = phys.extend demo_phys
     \<lparr>s_virt_hhdm_offset = 0, s_kernel_pdpt_virt = 0, s_acpi_early_table_buffer = 0, s_local_apic_address_phys = 0,
      s_limine_data_rsdp_phys = 0,
      k_gdt = \<lparr>gdt = replicate 5 (gdt_decode 0), gdtr = \<lparr>gdtr_size = 0, gdtr_offset = 0\<rparr>,
        gdt_register = None, seg_cs = 0, seg_data = 0\<rparr>,
      k_idt = idt_table, k_flanterm = [], interrupts_enabled = True\<rparr>"


section \<open>Properties\<close>



text \<open>With all answers there and room for the bitmap, \<open>kmain\<close> arrives at the set-up of paging with
  interrupts off, its five segment descriptors loaded, every gate leading to its stub, all lines of
  both interrupt controllers masked, and a page allocator in which exactly the usable frames that do not
  hold the bitmap are free.\<close>

theorem kmain_reaches_paging:
  assumes "limine_data_bare_minimum_present (e_boot e)" and "answers_wanted (e_boot e)"
    and "limine_data_hhdm_get_offset (e_boot e) = Some off" and "limine_data_get_memmap_response (e_boot e) = Some es"
    and "memmap_ok es" and "aligned 4096 off"
    and "find_bitmap_base es (memmap_bitmap_size es) = Some base" and "base + off \<noteq> 0"
    and "length (gdt (k_gdt s)) = GDT_ENTRIES" and "k_idt s = idt_table"
  shows "\<exists>t. kmain e s = kmain_paging e t \<and> \<not> interrupts_enabled t \<and>
           map gdt_encode (gdt (k_gdt t)) =
             [0, 0x00af9b000000ffff, 0x00cf93000000ffff, 0x00affb000000ffff, 0x00cff3000000ffff] \<and>
           (\<forall>n<256. gate_target (k_idt t ! n) = e_handler_addr e n \<and> bit (g_flags (k_idt t ! n)) 7) \<and>
           irq_mask (pic_run PIC1_CMD PIC1_DATA p1 (io t)) = 0xff \<and>
           irq_mask (pic_run PIC2_CMD PIC2_DATA p2 (io t)) = 0xff \<and>
           alloc_wf t \<and>
           (\<forall>f < 8 * unat (memmap_bitmap_size es). frame_used t f \<longleftrightarrow>
              f = 0 \<or> f \<in> region_frames base (memmap_bitmap_size es * 8) \<or> f \<notin> usable_frames es)"
  using kmain_to_paging [OF assms, of p1 p2] unfolding frames_set_up_def
  by (elim exE conjE) (intro exI conjI; assumption)

theorem kmain_reaches_paging_witness:
  "\<exists>t. kmain (demo_environment demo_answers) demo_kernel = kmain_paging (demo_environment demo_answers) t \<and> alloc_wf t"
proof -
  have b: "limine_data_bare_minimum_present demo_answers" "answers_wanted demo_answers"
    by (simp_all add: demo_answers_def demo_boot_def limine_data_bare_minimum_present_def answers_wanted_def)
  have m: "limine_data_hhdm_get_offset demo_answers = Some demo_hhdm" "limine_data_get_memmap_response demo_answers = Some demo_map"
    by (simp_all add: demo_answers_def demo_boot_def demo_map_def limine_data_hhdm_get_offset_def limine_data_get_memmap_response_def)
  have k: "length (gdt (k_gdt demo_kernel)) = GDT_ENTRIES" "k_idt demo_kernel = idt_table"
    by (simp_all add: demo_kernel_def phys.defs kernel_defs)
  have e: "e_boot (demo_environment demo_answers) = demo_answers" by (simp add: demo_environment_def)
  show ?thesis
    using kmain_reaches_paging [of "demo_environment demo_answers", unfolded e, OF b m demo_map_ok(3-6) k] by blast
qed

end
