(* ===== verification/Lapic.thy ===== *)
theory Lapic
  imports Prelude
begin

text \<open>
  \<open>src/acpi/lapic.h\<close>: the registers of the local APIC, as offsets in its page.
\<close>

named_theorems lapic_defs

definition LAPIC_REG_ID :: u64 where [lapic_defs]: "LAPIC_REG_ID = 0x0020"
definition LAPIC_REG_VERSION :: u64 where [lapic_defs]: "LAPIC_REG_VERSION = 0x0030"
definition LAPIC_REG_TASK_PRIORITY :: u64 where [lapic_defs]: "LAPIC_REG_TASK_PRIORITY = 0x0080"
definition LAPIC_REG_ARBITRATION_PRIORITY :: u64 where [lapic_defs]: "LAPIC_REG_ARBITRATION_PRIORITY = 0x0090"
definition LAPIC_REG_PROCESSOR_PRIORITY :: u64 where [lapic_defs]: "LAPIC_REG_PROCESSOR_PRIORITY = 0x00a0"
definition LAPIC_REG_EOI :: u64 where [lapic_defs]: "LAPIC_REG_EOI = 0x00b0"
definition LAPIC_REG_REMOTE_READ :: u64 where [lapic_defs]: "LAPIC_REG_REMOTE_READ = 0x00c0"
definition LAPIC_REG_LOGICAL_DESTINATION :: u64 where [lapic_defs]: "LAPIC_REG_LOGICAL_DESTINATION = 0x00d0"
definition LAPIC_REG_DESTINATION_FORMAT :: u64 where [lapic_defs]: "LAPIC_REG_DESTINATION_FORMAT = 0x00e0"
definition LAPIC_REG_SPURIOUS_INTERRUPT_VECTOR :: u64 where [lapic_defs]: "LAPIC_REG_SPURIOUS_INTERRUPT_VECTOR = 0x00f0"
definition LAPIC_REG_ISR_0 :: u64 where [lapic_defs]: "LAPIC_REG_ISR_0 = 0x0100"
definition LAPIC_REG_ISR_1 :: u64 where [lapic_defs]: "LAPIC_REG_ISR_1 = 0x0110"
definition LAPIC_REG_ISR_2 :: u64 where [lapic_defs]: "LAPIC_REG_ISR_2 = 0x0120"
definition LAPIC_REG_ISR_3 :: u64 where [lapic_defs]: "LAPIC_REG_ISR_3 = 0x0130"
definition LAPIC_REG_ISR_4 :: u64 where [lapic_defs]: "LAPIC_REG_ISR_4 = 0x0140"
definition LAPIC_REG_ISR_5 :: u64 where [lapic_defs]: "LAPIC_REG_ISR_5 = 0x0150"
definition LAPIC_REG_ISR_6 :: u64 where [lapic_defs]: "LAPIC_REG_ISR_6 = 0x0160"
definition LAPIC_REG_ISR_7 :: u64 where [lapic_defs]: "LAPIC_REG_ISR_7 = 0x0170"
definition LAPIC_REG_TMR_0 :: u64 where [lapic_defs]: "LAPIC_REG_TMR_0 = 0x0180"
definition LAPIC_REG_TMR_1 :: u64 where [lapic_defs]: "LAPIC_REG_TMR_1 = 0x0190"
definition LAPIC_REG_TMR_2 :: u64 where [lapic_defs]: "LAPIC_REG_TMR_2 = 0x01a0"
definition LAPIC_REG_TMR_3 :: u64 where [lapic_defs]: "LAPIC_REG_TMR_3 = 0x01b0"
definition LAPIC_REG_TMR_4 :: u64 where [lapic_defs]: "LAPIC_REG_TMR_4 = 0x01c0"
definition LAPIC_REG_TMR_5 :: u64 where [lapic_defs]: "LAPIC_REG_TMR_5 = 0x01d0"
definition LAPIC_REG_TMR_6 :: u64 where [lapic_defs]: "LAPIC_REG_TMR_6 = 0x01e0"
definition LAPIC_REG_TMR_7 :: u64 where [lapic_defs]: "LAPIC_REG_TMR_7 = 0x01f0"
definition LAPIC_REG_IRR_0 :: u64 where [lapic_defs]: "LAPIC_REG_IRR_0 = 0x0200"
definition LAPIC_REG_IRR_1 :: u64 where [lapic_defs]: "LAPIC_REG_IRR_1 = 0x0210"
definition LAPIC_REG_IRR_2 :: u64 where [lapic_defs]: "LAPIC_REG_IRR_2 = 0x0220"
definition LAPIC_REG_IRR_3 :: u64 where [lapic_defs]: "LAPIC_REG_IRR_3 = 0x0230"
definition LAPIC_REG_IRR_4 :: u64 where [lapic_defs]: "LAPIC_REG_IRR_4 = 0x0240"
definition LAPIC_REG_IRR_5 :: u64 where [lapic_defs]: "LAPIC_REG_IRR_5 = 0x0250"
definition LAPIC_REG_IRR_6 :: u64 where [lapic_defs]: "LAPIC_REG_IRR_6 = 0x0260"
definition LAPIC_REG_IRR_7 :: u64 where [lapic_defs]: "LAPIC_REG_IRR_7 = 0x0270"
definition LAPIC_REG_ERROR_STATUS :: u64 where [lapic_defs]: "LAPIC_REG_ERROR_STATUS = 0x0280"
definition LAPIC_REG_LVT_CMCI :: u64 where [lapic_defs]: "LAPIC_REG_LVT_CMCI = 0x02f0"
definition LAPIC_REG_ICR_0 :: u64 where [lapic_defs]: "LAPIC_REG_ICR_0 = 0x0300"
definition LAPIC_REG_ICR_1 :: u64 where [lapic_defs]: "LAPIC_REG_ICR_1 = 0x0310"
definition LAPIC_REG_LVT_TIMER :: u64 where [lapic_defs]: "LAPIC_REG_LVT_TIMER = 0x0320"
definition LAPIC_REG_LVT_THERMAL_SENSOR :: u64 where [lapic_defs]: "LAPIC_REG_LVT_THERMAL_SENSOR = 0x0330"
definition LAPIC_REG_PERF_MONITOR_COUNTERS :: u64 where [lapic_defs]: "LAPIC_REG_PERF_MONITOR_COUNTERS = 0x0340"
definition LAPIC_REG_LVT_LINT0 :: u64 where [lapic_defs]: "LAPIC_REG_LVT_LINT0 = 0x0350"
definition LAPIC_REG_LVT_LINT1 :: u64 where [lapic_defs]: "LAPIC_REG_LVT_LINT1 = 0x0360"
definition LAPIC_REG_LVT_ERROR :: u64 where [lapic_defs]: "LAPIC_REG_LVT_ERROR = 0x0370"
definition LAPIC_REG_INITIAL_COUNT :: u64 where [lapic_defs]: "LAPIC_REG_INITIAL_COUNT = 0x0380"
definition LAPIC_REG_CURRENT_COUNT :: u64 where [lapic_defs]: "LAPIC_REG_CURRENT_COUNT = 0x0390"
definition LAPIC_REG_DIVIDE_CONFIGURATION :: u64 where [lapic_defs]: "LAPIC_REG_DIVIDE_CONFIGURATION = 0x03e0"

definition lapic_registers :: "u64 list" where
  "lapic_registers = [
     LAPIC_REG_ID, LAPIC_REG_VERSION, LAPIC_REG_TASK_PRIORITY, LAPIC_REG_ARBITRATION_PRIORITY,
     LAPIC_REG_PROCESSOR_PRIORITY, LAPIC_REG_EOI, LAPIC_REG_REMOTE_READ, LAPIC_REG_LOGICAL_DESTINATION,
     LAPIC_REG_DESTINATION_FORMAT, LAPIC_REG_SPURIOUS_INTERRUPT_VECTOR, LAPIC_REG_ISR_0, LAPIC_REG_ISR_1,
     LAPIC_REG_ISR_2, LAPIC_REG_ISR_3, LAPIC_REG_ISR_4, LAPIC_REG_ISR_5, LAPIC_REG_ISR_6, LAPIC_REG_ISR_7,
     LAPIC_REG_TMR_0, LAPIC_REG_TMR_1, LAPIC_REG_TMR_2, LAPIC_REG_TMR_3, LAPIC_REG_TMR_4, LAPIC_REG_TMR_5,
     LAPIC_REG_TMR_6, LAPIC_REG_TMR_7, LAPIC_REG_IRR_0, LAPIC_REG_IRR_1, LAPIC_REG_IRR_2, LAPIC_REG_IRR_3,
     LAPIC_REG_IRR_4, LAPIC_REG_IRR_5, LAPIC_REG_IRR_6, LAPIC_REG_IRR_7, LAPIC_REG_ERROR_STATUS,
     LAPIC_REG_LVT_CMCI, LAPIC_REG_ICR_0, LAPIC_REG_ICR_1, LAPIC_REG_LVT_TIMER, LAPIC_REG_LVT_THERMAL_SENSOR,
     LAPIC_REG_PERF_MONITOR_COUNTERS, LAPIC_REG_LVT_LINT0, LAPIC_REG_LVT_LINT1, LAPIC_REG_LVT_ERROR,
     LAPIC_REG_INITIAL_COUNT, LAPIC_REG_CURRENT_COUNT, LAPIC_REG_DIVIDE_CONFIGURATION]"

text \<open>They are different 16-byte slots of one page.\<close>

lemma lapic_registers_distinct: "distinct lapic_registers"
  by (simp add: lapic_registers_def lapic_defs)

lemma lapic_register_slot:
  assumes "r \<in> set lapic_registers"
  shows "unat r < 4096" and "unat r mod 16 = 0"
  using assms by (auto simp: lapic_registers_def lapic_defs)

end
