(* ===== verification/VirtAlloc.thy ===== *)
theory VirtAlloc
  imports VirtProps
begin

text \<open>
  \<open>virt_alloc\<close> and \<open>virt_user_alloc\<close>: find room, then take a frame for each page and map it. Both
  only differ in the routine that maps one page, which is the interface \<open>page_mapper\<close>.
\<close>

section \<open>Backing pages with fresh frames\<close>

text \<open>
  \<open>backed fl root s0 s\<close>: the pages that translate differently in \<open>s\<close> than in \<open>s0\<close> are mapped
  with flags \<open>fl\<close> to frames that were free in \<open>s0\<close> and are used in \<open>s\<close>, no frame twice.
\<close>

definition backed :: "u64 \<Rightarrow> u64 \<Rightarrow> 'z virt_scheme \<Rightarrow> 'z virt_scheme \<Rightarrow> bool" where
  "backed fl root s0 s \<longleftrightarrow>
     (\<forall>x. view root s x \<noteq> view root s0 x \<longrightarrow>
        (\<exists>f\<in>free_frames s0 - free_frames s. view root s x = frame_addr f OR fl)) \<and>
     (\<forall>x y. view root s x \<noteq> view root s0 x \<longrightarrow> view root s y \<noteq> view root s0 y \<longrightarrow>
        view root s x = view root s y \<longrightarrow> vpn x = vpn y)"

lemma backed_refl: "backed fl root s s"
  by (simp add: backed_def)

lemma backed_set_page:
  assumes b: "backed fl root s0 s" and f: "f \<in> free_frames s" "f \<notin> free_frames s'"
    and sub: "free_frames s' \<subseteq> free_frames s" "free_frames s \<subseteq> free_frames s0"
    and v: "view root s' = set_page va (frame_addr f OR fl) (view root s)"
    and inj: "\<And>g. g \<in> free_frames s0 \<Longrightarrow> frame_addr g OR fl = frame_addr f OR fl \<Longrightarrow> g = f"
  shows "backed fl root s0 s'"
proof -
  have old: "\<exists>g\<in>free_frames s0 - free_frames s. view root s x = frame_addr g OR fl"
      "view root s x \<noteq> frame_addr f OR fl" if "view root s x \<noteq> view root s0 x" for x
  proof -
    show "\<exists>g\<in>free_frames s0 - free_frames s. view root s x = frame_addr g OR fl"
      using b that unfolding backed_def by blast
    then show "view root s x \<noteq> frame_addr f OR fl" using inj f(1) by auto
  qed
  have one: "\<exists>g\<in>free_frames s0 - free_frames s'. view root s' x = frame_addr g OR fl"
    if "view root s' x \<noteq> view root s0 x" for x
  proof (cases "vpn x = vpn va")
    case True
    then show ?thesis using f sub(2) by (intro bexI [of _ f]) (auto simp: v set_page_def)
  next
    case False
    then show ?thesis using old(1) [of x] that sub(1) by (auto simp: v set_page_def)
  qed
  have chg: "view root s z \<noteq> view root s0 z" "view root s' z = view root s z"
    if "vpn z \<noteq> vpn va" "view root s' z \<noteq> view root s0 z" for z
    using that by (simp_all add: v set_page_def)
  have F: "view root s' z = frame_addr f OR fl" if "vpn z = vpn va" for z
    using that by (simp add: v set_page_def)
  have two: "vpn x = vpn y"
    if xy: "view root s' x \<noteq> view root s0 x" "view root s' y \<noteq> view root s0 y" "view root s' x = view root s' y" for x y
  proof (cases "vpn x = vpn va")
    case x: True
    then have "vpn y = vpn va" using F [OF x] chg [OF _ xy(2)] old(2) [of y] xy(3) by metis
    then show ?thesis using x by simp
  next
    case x: False
    show ?thesis
    proof (cases "vpn y = vpn va")
      case y: True
      then show ?thesis using F [OF y] chg [OF x xy(1)] old(2) [of x] xy(3) by simp
    next
      case y: False
      then show ?thesis
        using b chg [OF x xy(1)] chg [OF y xy(2)] xy(3) unfolding backed_def by metis
    qed
  qed
  from one two show ?thesis unfolding backed_def by blast
qed

text \<open>The frames that backing \<open>n\<close> pages can take: one for each, and those of the tables.\<close>

definition alloc_frames :: "nat \<Rightarrow> nat" where
  "alloc_frames n = n + max_tables n"

section \<open>The interface\<close>

locale page_mapper =
  fixes ctx :: u64 and root :: u64 and fl :: u64
    and mapf :: "u64 \<Rightarrow> u64 \<Rightarrow> 'z virt_scheme \<Rightarrow> (unit, 'z virt_scheme) res"
  assumes flags: "take_bit 12 fl = fl" "fl AND VF_PD_BIG_PAGE = 0"
    and maps: "aspace ctx root s \<Longrightarrow> card (missing root {va} s) \<le> budget s \<Longrightarrow>
      \<exists>s'. mapf phys va s = Inr ((), s') \<and> aspace ctx root s' \<and> preserves root s s' \<and>
           (\<forall>A. finite A \<longrightarrow> va \<in> A \<longrightarrow>
              budget s + card (missing root A s') \<le> budget s' + card (missing root A s)) \<and>
           view root s' = set_page va (phys OR fl) (view root s)"
begin

definition fresh_page :: "u64 \<Rightarrow> 'z virt_scheme \<Rightarrow> (unit, 'z virt_scheme) res" where
  "fresh_page va s =
     (case phys_alloc s of (phys, s) \<Rightarrow>
        if phys = 0
        then hcf (kerror ''Failed to allocate physical memory for a virt_alloc!'' [] s)
        else mapf phys va s)"

lemma fresh_page_ok:
  assumes s: "aspace ctx root s" and s0: "preserves root s0 s" and b: "backed fl root s0 s"
    and free: "Suc 0 + card (missing root {va} s) \<le> budget s"
  shows "\<exists>s' v. fresh_page va s = Inr ((), s') \<and>
           (aspace ctx root s' \<and> preserves root s0 s' \<and> backed fl root s0 s') \<and>
           preserves root s s' \<and>
           (\<forall>A. finite A \<longrightarrow> va \<in> A \<longrightarrow>
              budget s + card (missing root A s') \<le> budget s' + card (missing root A s) + Suc 0) \<and>
           (\<exists>f\<in>free_frames s0. v = frame_addr f OR fl) \<and>
           view root s' = (\<lambda>x. if vpn x = vpn va then v else view root s x)"
proof -
  have inv: "vm_inv root s" using s by (simp add: aspace_def)
  have sub: "free_frames t \<subseteq> free_frames r" if "preserves root r t" for r t :: "'z virt_scheme"
    using that by (auto simp: preserves_def evolves_def)
  show ?thesis
    using vm_invD(2) [OF inv]
  proof (cases rule: phys_alloc_cases)
    case full
    then have "free_frames s = {}" by (auto simp: free_frames_def)
    then show ?thesis using free by (simp add: budget_def)
  next
    case (frame f)
    let ?s1 = "phys_mark_used (frame_addr f) s"
    have f40: "f < 2 ^ 40" by (rule frame_bound [OF vm_invD(2) [OF inv] frame(1)])
    have ff: "f \<in> free_frames s" using frame(1,2) by (simp add: free_frames_def)
    have f1: "free_frames ?s1 = free_frames s - {f}"
      using free_frames_mark [OF vm_invD(2) [OF inv]] f40 by simp
    note m = mark_used_step [OF inv frame(1,2)]
    note s1 = aspace_evolves [OF s m(1)]
    have less: "card (missing root A ?s1) \<le> card (missing root A s)" if "finite A" for A
      by (rule card_mono [OF finite_missing [OF that] missing_evolves [OF m(1)]])
    have "card (missing root {va} ?s1) \<le> budget ?s1" using free s1(3) less [of "{va}"] by simp
    from maps [OF s1(1) this, of "frame_addr f"] obtain s' where
      s': "mapf (frame_addr f) va ?s1 = Inr ((), s')" "aspace ctx root s'" "preserves root ?s1 s'"
        "\<And>A. finite A \<Longrightarrow> va \<in> A \<Longrightarrow> budget ?s1 + card (missing root A s') \<le> budget s' + card (missing root A ?s1)"
        "view root s' = set_page va (frame_addr f OR fl) (view root s)"
      unfolding m(2) by blast
    have p: "preserves root s s'" by (rule preserves_trans [OF s1(2) s'(3)])
    have nf: "f \<notin> free_frames s'" using sub [OF s'(3)] f1 by blast
    have "covered s = covered s0"
      using s0 quiet_fields(9) [of s0 s] by (auto simp: preserves_def evolves_def)
    then have inj: "g = f" if "g \<in> free_frames s0" "frame_addr g OR fl = frame_addr f OR fl" for g
      using that frame_bound [OF vm_invD(2) [OF inv]] by (intro entry_of_frame_inj [OF flags _ f40]) (simp_all add: free_frames_def)
    have "backed fl root s0 s'"
      by (rule backed_set_page [OF b ff nf sub [OF p] sub [OF s0] s'(5) inj])
    moreover have "frame_addr f \<noteq> 0"
      using frame(2) vm_invD(3) [OF inv] f40 frame_addr_eq_0 [of f] by auto
    then have "fresh_page va s = Inr ((), s')" using frame(4) s'(1) by (simp add: fresh_page_def)
    moreover have "preserves root s0 s'" by (rule preserves_trans [OF s0 p])
    moreover have "budget s + card (missing root A s') \<le> budget s' + card (missing root A s) + Suc 0"
      if "finite A" "va \<in> A" for A using s1(3) s'(4) [OF that] less [OF that(1)] by linarith
    moreover have "\<exists>g\<in>free_frames s0. frame_addr f OR fl = frame_addr g OR fl" using ff sub [OF s0] by blast
    ultimately show ?thesis
      using s'(2,5) p unfolding set_page_def by blast
  qed
qed

end


sublocale page_mapper \<subseteq> fresh_loop: page_writer
    "\<lambda>s. aspace ctx root s \<and> preserves root s0 s \<and> backed fl root s0 s" "view root" budget "preserves root" vpn
    "\<lambda>i. base + i" "\<lambda>i v. \<exists>f\<in>free_frames s0. v = frame_addr f OR fl" "Suc 0" "\<lambda>A s. card (missing root A s)"
    "\<lambda>i. fresh_page (base + i)"
  for s0 base
  by unfold_locales
    (elim conjE, erule preserves_refl, fact preserves_trans, fact card_missing_mono, elim conjE, rule fresh_page_ok)

text \<open>
  What the two allocators promise: the lowest page-stepped address below \<open>limit\<close> with room, its
  pages mapped with flags \<open>fl\<close> to different frames that were free, all else as before; or 0 and no
  change when there is no room.
\<close>

definition alloc_outcome ::
    "u64 \<Rightarrow> u64 \<Rightarrow> u64 \<Rightarrow> u64 \<Rightarrow> u64 \<Rightarrow> 'z virt_scheme \<Rightarrow> u64 \<Rightarrow> 'z virt_scheme \<Rightarrow> bool" where
  "alloc_outcome root fl len start limit s a s' \<longleftrightarrow>
     (let n = iters VIRT_PAGE_SIZE len; pg = (\<lambda>k. a + of_nat k * VIRT_PAGE_SIZE) in
      (\<exists>k. a = start + of_nat k * VIRT_PAGE_SIZE \<and> unat start + 4096 * k < unat limit \<and>
          unmapped_at root len s a \<and>
          (\<forall>j<k. \<not> unmapped_at root len s (start + of_nat j * VIRT_PAGE_SIZE)) \<and>
          (\<forall>j<n. \<exists>f\<in>free_frames s - free_frames s'. view root s' (pg j) = frame_addr f OR fl) \<and>
          (\<forall>i<n. \<forall>j<n. view root s' (pg i) = view root s' (pg j) \<longrightarrow> i = j) \<and>
          (\<forall>x. (\<forall>j<n. vpn x \<noteq> vpn (pg j)) \<longrightarrow> view root s' x = view root s x) \<and>
          (\<forall>x. kept root s x \<longrightarrow> mem s' x = mem s x)) \<or>
      (a = 0 \<and> s' = s \<and> (\<forall>k. unat start + 4096 * k < unat limit \<longrightarrow>
          \<not> unmapped_at root len s (start + of_nat k * VIRT_PAGE_SIZE))))"

context page_mapper
begin

lemma fresh_range:
  assumes "aspace ctx root s" and "unat len \<le> 2 ^ 48" and "alloc_frames (iters VIRT_PAGE_SIZE len) \<le> budget s"
  obtains s' where "for_step VIRT_PAGE_SIZE 0 len (\<lambda>i. fresh_page (base + i)) s = Inr ((), s')"
    and "fresh_loop.passed s base VIRT_PAGE_SIZE (iters VIRT_PAGE_SIZE len) s s'"
    and "budget s \<le> budget s' + alloc_frames (iters VIRT_PAGE_SIZE len)"
proof -
  note need = card_missing_pages [of root base "iters VIRT_PAGE_SIZE len" s, unfolded pages_def]
  have "\<exists>s'. for_step VIRT_PAGE_SIZE 0 len (\<lambda>i. fresh_page (base + i)) s = Inr ((), s') \<and>
      fresh_loop.passed s base VIRT_PAGE_SIZE (iters VIRT_PAGE_SIZE len) s s'"
    by (rule fresh_loop.range_loop [OF _ iters_page_small(2) [OF assms(2)]])
      (use assms(1,3) preserves_refl [OF assms(1)] need in
        \<open>auto simp: page_step backed_refl alloc_frames_def fresh_loop.targets_def\<close>)
  then obtain s' where s': "for_step VIRT_PAGE_SIZE 0 len (\<lambda>i. fresh_page (base + i)) s = Inr ((), s')"
      "fresh_loop.passed s base VIRT_PAGE_SIZE (iters VIRT_PAGE_SIZE len) s s'" by blast
  moreover have "budget s \<le> budget s' + alloc_frames (iters VIRT_PAGE_SIZE len)"
    using fresh_loop.passed_free [OF s'(2)] need by (simp add: alloc_frames_def fresh_loop.targets_def)
  ultimately show ?thesis by (rule that)
qed

lemma fresh_range_outcome:
  assumes s: "aspace ctx root s" and len: "unat len \<le> 2 ^ 48" and un: "unmapped_at root len s a"
    and s': "fresh_loop.passed s a VIRT_PAGE_SIZE (iters VIRT_PAGE_SIZE len) s s'"
  shows "\<forall>j<iters VIRT_PAGE_SIZE len. \<exists>f\<in>free_frames s - free_frames s'.
           view root s' (a + of_nat j * VIRT_PAGE_SIZE) = frame_addr f OR fl"
    and "\<forall>i<iters VIRT_PAGE_SIZE len. \<forall>j<iters VIRT_PAGE_SIZE len.
           view root s' (a + of_nat i * VIRT_PAGE_SIZE) = view root s' (a + of_nat j * VIRT_PAGE_SIZE) \<longrightarrow> i = j"
proof -
  have inv: "vm_inv root s" using s by (simp add: aspace_def)
  have b: "backed fl root s s'" using s' by (simp add: fresh_loop.passed_def)
  have chg: "view root s' (a + of_nat j * VIRT_PAGE_SIZE) \<noteq> view root s (a + of_nat j * VIRT_PAGE_SIZE)"
    if j: "j < iters VIRT_PAGE_SIZE len" for j
  proof -
    have "\<exists>f\<in>free_frames s. view root s' (a + of_nat j * VIRT_PAGE_SIZE) = frame_addr f OR fl"
      using s' j unfolding fresh_loop.passed_def by blast
    then obtain f where f: "f \<in> free_frames s" "view root s' (a + of_nat j * VIRT_PAGE_SIZE) = frame_addr f OR fl"
      by blast
    have ff: "f < covered s" "\<not> frame_used s f" using f(1) by (simp_all add: free_frames_def)
    have f40: "f < 2 ^ 40" by (rule frame_bound [OF vm_invD(2) [OF inv] ff(1)])
    have "f \<noteq> 0" using ff(2) vm_invD(3) [OF inv] by metis
    then have "frame_addr f \<noteq> 0" using frame_addr_eq_0 [of f] f40 by simp
    then have "frame_addr f OR fl \<noteq> 0" using entry_of_frame(1) [OF f40 flags] by auto
    then show ?thesis using f(2) un j by (simp add: unmapped_at_def)
  qed
  show "\<forall>j<iters VIRT_PAGE_SIZE len. \<exists>f\<in>free_frames s - free_frames s'.
           view root s' (a + of_nat j * VIRT_PAGE_SIZE) = frame_addr f OR fl"
    using b chg unfolding backed_def by blast
  show "\<forall>i<iters VIRT_PAGE_SIZE len. \<forall>j<iters VIRT_PAGE_SIZE len.
           view root s' (a + of_nat i * VIRT_PAGE_SIZE) = view root s' (a + of_nat j * VIRT_PAGE_SIZE) \<longrightarrow> i = j"
    using b chg vpn_pages_inj [OF len] unfolding backed_def by blast
qed

lemma place_fresh:
  assumes "aspace ctx root s" and "unat len \<le> 2 ^ 48" and "alloc_frames (iters VIRT_PAGE_SIZE len) \<le> budget s"
    and "unat limit + 4096 \<le> 2 ^ 64"
  shows "\<exists>a s'. returns (place_range ctx len limit (\<lambda>a i. fresh_page (a + i)) start s) = Inr (a, s') \<and>
           aspace ctx root s' \<and> alloc_outcome root fl len start limit s a s' \<and>
           preserves root s s' \<and> budget s \<le> budget s' + alloc_frames (iters VIRT_PAGE_SIZE len)"
  using place_range_spec [OF assms(1,2,4), where addr = start and fill = "\<lambda>a i. fresh_page (a + i)"]
proof (elim disjE exE conjE)
  fix k
  let ?a = "start + of_nat k * VIRT_PAGE_SIZE"
  assume k: "unat start + 4096 * k < unat limit" "unmapped_at root len s ?a"
    "\<forall>j<k. \<not> unmapped_at root len s (start + of_nat j * VIRT_PAGE_SIZE)"
    and r: "place_range ctx len limit (\<lambda>a i. fresh_page (a + i)) start s =
      Some (bindk (for_step VIRT_PAGE_SIZE 0 len (\<lambda>i. fresh_page (?a + i)) s) (\<lambda>_ s''. Inr (?a, s'')))"
  obtain s' where s': "for_step VIRT_PAGE_SIZE 0 len (\<lambda>i. fresh_page (?a + i)) s = Inr ((), s')"
      "fresh_loop.passed s ?a VIRT_PAGE_SIZE (iters VIRT_PAGE_SIZE len) s s'"
      "budget s \<le> budget s' + alloc_frames (iters VIRT_PAGE_SIZE len)"
    by (rule fresh_range [OF assms(1-3)])
  have other: "\<forall>x. (\<forall>j<iters VIRT_PAGE_SIZE len. vpn x \<noteq> vpn (?a + of_nat j * VIRT_PAGE_SIZE)) \<longrightarrow>
      view root s' x = view root s x" and p: "preserves root s s'"
    using s'(2) unfolding fresh_loop.passed_def by blast+
  then have kept: "\<forall>x. kept root s x \<longrightarrow> mem s' x = mem s x" by (auto simp: preserves_def evolves_def)
  have "alloc_outcome root fl len start limit s ?a s'"
    using k fresh_range_outcome [OF assms(1,2) k(2) s'(2)] other kept
    unfolding alloc_outcome_def Let_def by blast
  moreover have "aspace ctx root s'" using s'(2) by (simp add: fresh_loop.passed_def)
  ultimately show ?thesis using r s'(1,3) p by (simp add: returns_def)
next
  assume "\<forall>k. unat start + 4096 * k < unat limit \<longrightarrow>
      \<not> unmapped_at root len s (start + of_nat k * VIRT_PAGE_SIZE)"
    and "place_range ctx len limit (\<lambda>a i. fresh_page (a + i)) start s = Some (Inr (0, s))"
  then show ?thesis using assms(1) preserves_refl [OF assms(1)] by (simp add: returns_def alloc_outcome_def Let_def)
qed

end

section \<open>Both allocators\<close>

lemma iters_one: "iters VIRT_PAGE_SIZE VIRT_PAGE_SIZE = 1"
  by (simp add: iters_def kernel_defs)

lemma pages_one: "pages a (iters VIRT_PAGE_SIZE VIRT_PAGE_SIZE) = {a}"
  by (simp add: pages_def iters_one lessThan_Suc)

lemmas iters_one' = iters_one [unfolded VIRT_PAGE_SIZE_def]

interpretation kernel_pages: page_mapper ctx root "VF_PT_PRESENT OR VF_PT_WRITABLE"
    "\<lambda>phys va. virt_map ctx phys va VIRT_PAGE_SIZE (VF_PT_PRESENT OR VF_PT_WRITABLE)"
  for ctx root
proof (unfold_locales, goal_cases)
  case (3 s va phys)
  let ?fl = "VF_PT_PRESENT OR VF_PT_WRITABLE"
  have len: "unat VIRT_PAGE_SIZE \<le> 2 ^ 48" by (simp add: page_step)
  have free: "card (missing root (pages va (iters VIRT_PAGE_SIZE VIRT_PAGE_SIZE)) s) \<le> budget s"
    using 3(2) by (simp add: pages_one)
  obtain s' where
    "for_step VIRT_PAGE_SIZE 0 VIRT_PAGE_SIZE (virt_map_step ctx phys va ?fl False) s = Inr ((), s')"
    "map_loop.passed ctx root va phys ?fl VIRT_PAGE_SIZE (iters VIRT_PAGE_SIZE VIRT_PAGE_SIZE) s s'"
    by (rule map_range_exact [OF 3(1) len free])
  then show ?case
    by (intro exI [of _ s'])
      (simp add: virt_map_def map_loop.passed_def map_loop.targets_def iters_one' lessThan_Suc set_page_def fun_eq_iff kernel_defs)
qed (simp_all add: kernel_defs take_bit_eq_mask mask_eq_exp_minus_1)

interpretation user_pages: page_mapper ctx root "VF_PT_PRESENT OR VF_PT_USER OR VF_PT_WRITABLE"
    "\<lambda>phys va. virt_map_user ctx phys va VIRT_PAGE_SIZE (VF_PT_PRESENT OR VF_PT_USER OR VF_PT_WRITABLE)"
  for ctx root
proof (unfold_locales, goal_cases)
  case (3 s va phys)
  let ?fl = "VF_PT_PRESENT OR VF_PT_USER OR VF_PT_WRITABLE"
  have len: "unat VIRT_PAGE_SIZE \<le> 2 ^ 48" by (simp add: page_step)
  have free: "card (missing root (pages va (iters VIRT_PAGE_SIZE VIRT_PAGE_SIZE)) s) \<le> budget s"
    using 3(2) by (simp add: pages_one)
  obtain s' where
    "for_step VIRT_PAGE_SIZE 0 VIRT_PAGE_SIZE (virt_map_user_step ctx phys va ?fl False) s = Inr ((), s')"
    "map_user_loop.passed ctx root va phys ?fl VIRT_PAGE_SIZE (iters VIRT_PAGE_SIZE VIRT_PAGE_SIZE) s s'"
    by (rule map_user_range_exact [OF 3(1) len free])
  then show ?case
    by (intro exI [of _ s'])
      (simp add: virt_map_user_def map_user_loop.passed_def map_user_loop.targets_def iters_one' lessThan_Suc set_page_def fun_eq_iff kernel_defs)
qed (simp_all add: kernel_defs take_bit_eq_mask mask_eq_exp_minus_1)

lemma virt_alloc_spec:
  assumes "aspace ctx root s" and "unat len \<le> 2 ^ 48" and "alloc_frames (iters VIRT_PAGE_SIZE len) \<le> budget s"
  shows "\<exists>a s'. virt_alloc ctx len s = Inr (a, s') \<and> aspace ctx root s' \<and>
           alloc_outcome root (VF_PT_PRESENT OR VF_PT_WRITABLE) len
             (s_virt_hhdm_offset s + VIRT_PAGE_SIZE) 0xffffffffffff0000 s a s' \<and>
           preserves root s s' \<and> budget s \<le> budget s' + alloc_frames (iters VIRT_PAGE_SIZE len)"
proof -
  have step: "virt_alloc_step ctx = (\<lambda>a i. kernel_pages.fresh_page ctx (a + i))"
    by (simp add: fun_eq_iff virt_alloc_step_def kernel_pages.fresh_page_def)
  show ?thesis
    unfolding virt_alloc_def step by (rule kernel_pages.place_fresh [OF assms]) simp
qed

lemma virt_user_alloc_spec:
  assumes "aspace ctx root s" and "unat len \<le> 2 ^ 48" and "alloc_frames (iters VIRT_PAGE_SIZE len) \<le> budget s"
  shows "\<exists>a s'. virt_user_alloc ctx len s = Inr (a, s') \<and> aspace ctx root s' \<and>
           alloc_outcome root (VF_PT_PRESENT OR VF_PT_USER OR VF_PT_WRITABLE) len
             0x100000 (s_virt_hhdm_offset s) s a s' \<and>
           preserves root s s' \<and> budget s \<le> budget s' + alloc_frames (iters VIRT_PAGE_SIZE len)"
proof -
  have inv: "vm_inv root s" using assms(1) by (simp add: aspace_def)
  have "table_page s root" by (rule vm_invD(8) [OF inv, of "[]"]) simp_all
  then have "0 < covered s" by (auto simp: table_page_def kpage_def)
  then have lim: "unat (s_virt_hhdm_offset s) + 4096 \<le> 2 ^ 64" using vm_invD(6) [OF inv] by linarith
  have step: "virt_user_alloc_step ctx = (\<lambda>a i. user_pages.fresh_page ctx (a + i))"
    by (simp add: fun_eq_iff virt_user_alloc_step_def user_pages.fresh_page_def)
  show ?thesis
    unfolding virt_user_alloc_def step by (rule user_pages.place_fresh [OF assms lim])
qed

text \<open>C6: \<open>virt_alloc\<close> always ends. With a free frame for each page and those
  its tables can need it either returns the lowest address behind the start of the direct map that has room, each page present, writable and backed by
  a frame of its own that was free before, everything else unchanged; or there is no room, and it
  returns 0 and changes nothing.\<close>

theorem virt_alloc_correct:
  assumes "aspace ctx root s" and "unat len \<le> 2 ^ 48" and "alloc_frames (iters VIRT_PAGE_SIZE len) \<le> budget s"
  shows "\<exists>a s'. virt_alloc ctx len s = Inr (a, s') \<and> aspace ctx root s' \<and>
           alloc_outcome root (VF_PT_PRESENT OR VF_PT_WRITABLE) len
             (s_virt_hhdm_offset s + VIRT_PAGE_SIZE) 0xffffffffffff0000 s a s'"
  using virt_alloc_spec [OF assms] by blast

theorem virt_alloc_correct_witness:
  "\<exists>a s'. virt_alloc 0 8192 demo_virt = Inr (a, s') \<and>
     alloc_outcome demo_root 3 8192 (demo_hhdm + 4096) 0xffffffffffff0000 demo_virt a s'"
  using virt_alloc_correct [OF demo_aspace, of 8192] by (auto simp: demo_budget iters_two' alloc_frames_def max_tables_def kernel_defs)

text \<open>\<open>virt_user_alloc\<close> does the same below the direct map, from 1 MiB on, with pages that user
  code may access.\<close>

theorem virt_user_alloc_correct:
  assumes "aspace ctx root s" and "unat len \<le> 2 ^ 48" and "alloc_frames (iters VIRT_PAGE_SIZE len) \<le> budget s"
  shows "\<exists>a s'. virt_user_alloc ctx len s = Inr (a, s') \<and> aspace ctx root s' \<and>
           alloc_outcome root (VF_PT_PRESENT OR VF_PT_USER OR VF_PT_WRITABLE) len
             0x100000 (s_virt_hhdm_offset s) s a s'"
  using virt_user_alloc_spec [OF assms] by blast

theorem virt_user_alloc_correct_witness:
  "\<exists>a s'. virt_user_alloc 0 8192 demo_virt = Inr (a, s') \<and>
     alloc_outcome demo_root 7 8192 0x100000 demo_hhdm demo_virt a s'"
  using virt_user_alloc_correct [OF demo_aspace, of 8192] by (auto simp: demo_budget iters_two' alloc_frames_def max_tables_def kernel_defs)

end
