(* ===== verification/VirtCtx.thy ===== *)
theory VirtCtx
  imports VirtAlloc
begin

text \<open>
  A page from \<open>virt_alloc\<close>, and the new context that \<open>virt_ctx_new\<close> makes of one.
\<close>

section \<open>A page in an unmapped place\<close>

lemma page_size_eq: "VIRT_PAGE_SIZE = 4096"
  by (simp add: kernel_defs)

lemma aligned_pages: "aligned 4096 a \<Longrightarrow> aligned 4096 (a + of_nat q * 4096)"
proof -
  assume "aligned 4096 a"
  then have "(unat a + q * 4096) mod 4096 = 0" by (auto elim: aligned_cases)
  moreover have "unat (a + of_nat q * 4096) = (unat a + q * 4096) mod (4096 * 2 ^ 52)"
    by (simp add: unat_word_ariths unat_of_nat mod_simps)
  ultimately have "unat (a + of_nat q * 4096) mod 4096 = 0" by (simp only: mod_mult2_eq) simp
  then show ?thesis by (simp add: aligned_def mod_eq_0_iff_dvd)
qed

text \<open>A page that is put into an unmapped place leaves everything mapped where it was.\<close>

definition keeps_mapped :: "u64 \<Rightarrow> 'z virt_scheme \<Rightarrow> 'z virt_scheme \<Rightarrow> bool" where
  "keeps_mapped root s s' \<longleftrightarrow> (\<forall>x. view root s x \<noteq> 0 \<longrightarrow> view root s' x = view root s x)"

lemma keeps_mapped_refl [simp]: "keeps_mapped root s s"
  by (simp add: keeps_mapped_def)

lemma keeps_mapped_trans: "keeps_mapped root s t \<Longrightarrow> keeps_mapped root t u \<Longrightarrow> keeps_mapped root s u"
  by (simp add: keeps_mapped_def)

lemma keeps_mapped_room:
  assumes "unmapped_at root len s a"
    and "\<And>x. \<forall>k<iters VIRT_PAGE_SIZE len. vpn x \<noteq> vpn (a + of_nat k * VIRT_PAGE_SIZE) \<Longrightarrow> view root s' x = view root s x"
  shows "keeps_mapped root s s'"
  unfolding keeps_mapped_def
proof (intro allI impI)
  fix x assume x: "view root s x \<noteq> 0"
  have "vpn x \<noteq> vpn (a + of_nat k * VIRT_PAGE_SIZE)" if "k < iters VIRT_PAGE_SIZE len" for k
    using x assms(1) that view_cong unfolding unmapped_at_def by metis
  then show "view root s' x = view root s x" using assms(2) by blast
qed

text \<open>A page of room above the start of the direct map.\<close>

definition has_room :: "u64 \<Rightarrow> 'z virt_scheme \<Rightarrow> bool" where
  "has_room root s \<longleftrightarrow> (\<exists>k. unat (s_virt_hhdm_offset s + VIRT_PAGE_SIZE) + 4096 * k < unat (0xffffffffffff0000 :: u64) \<and>
     view root s (s_virt_hhdm_offset s + VIRT_PAGE_SIZE + of_nat k * VIRT_PAGE_SIZE) = 0)"

lemma unat_page_steps:
  assumes "unat (a :: u64) + 4096 * k < 2 ^ 64"
  shows "unat (a + of_nat k * VIRT_PAGE_SIZE) = unat a + 4096 * k"
proof -
  have "unat (of_nat k * VIRT_PAGE_SIZE :: u64) = 4096 * k"
    using assms by (simp add: VIRT_PAGE_SIZE_def unat_word_ariths unat_of_nat)
  then show ?thesis using assms by (simp add: unat_add_no_wrap)
qed

lemma alloc_page_room:
  assumes "aspace 0 root s" and "4 \<le> budget s" and "has_room root s" and "VIRT_PAGE_SIZE \<le> s_virt_hhdm_offset s + VIRT_PAGE_SIZE"
  shows "\<exists>a s'. virt_alloc 0 VIRT_PAGE_SIZE s = Inr (a, s') \<and> a \<noteq> 0 \<and> aspace 0 root s' \<and> keeps_mapped root s s' \<and>
           preserves root s s' \<and> budget s \<le> budget s' + 4 \<and> aligned 4096 a \<and> view root s a = 0 \<and>
           (\<exists>g\<in>free_frames s - free_frames s'. view root s' a = frame_addr g OR (VF_PT_PRESENT OR VF_PT_WRITABLE))"
proof -
  let ?start = "s_virt_hhdm_offset s + VIRT_PAGE_SIZE"
  have len: "unat VIRT_PAGE_SIZE \<le> 2 ^ 48" by (simp add: page_step)
  have four: "alloc_frames (iters VIRT_PAGE_SIZE VIRT_PAGE_SIZE) = 4" by (simp add: iters_one alloc_frames_def max_tables_def)
  have um: "unmapped_at root VIRT_PAGE_SIZE s a \<longleftrightarrow> view root s a = 0" for a
    by (simp add: unmapped_at_def iters_one)
  obtain a s' where r: "virt_alloc 0 VIRT_PAGE_SIZE s = Inr (a, s')" "aspace 0 root s'"
      "alloc_outcome root (VF_PT_PRESENT OR VF_PT_WRITABLE) VIRT_PAGE_SIZE ?start 0xffffffffffff0000 s a s'"
      "preserves root s s'" "budget s \<le> budget s' + 4"
    using virt_alloc_spec [OF assms(1) len] assms(2) unfolding four by blast
  obtain k where k: "a = ?start + of_nat k * VIRT_PAGE_SIZE" "unat ?start + 4096 * k < unat (0xffffffffffff0000 :: u64)"
      "unmapped_at root VIRT_PAGE_SIZE s a"
      "\<And>x. \<forall>j<iters VIRT_PAGE_SIZE VIRT_PAGE_SIZE. vpn x \<noteq> vpn (a + of_nat j * VIRT_PAGE_SIZE) \<Longrightarrow> view root s' x = view root s x"
      "\<forall>j<iters VIRT_PAGE_SIZE VIRT_PAGE_SIZE. \<exists>g\<in>free_frames s - free_frames s'.
         view root s' (a + of_nat j * VIRT_PAGE_SIZE) = frame_addr g OR (VF_PT_PRESENT OR VF_PT_WRITABLE)"
    using r(3) assms(3) unfolding alloc_outcome_def Let_def has_room_def um by blast
  have "unat (0xffffffffffff0000 :: u64) \<le> 2 ^ 64" by simp
  then have "unat a = unat ?start + 4096 * k" unfolding k(1) using k(2) by (intro unat_page_steps) linarith
  moreover have "4096 \<le> unat ?start" using assms(4) by (simp add: word_le_nat_alt page_step)
  ultimately have "a \<noteq> 0" by (metis unat_0 add_is_0 le_zero_eq zero_neq_numeral)
  moreover have "keeps_mapped root s s'" by (rule keeps_mapped_room [OF k(3,4)])
  moreover have "aligned 4096 (s_virt_hhdm_offset s + VIRT_PAGE_SIZE)"
    using assms(1) by (intro aligned_add) (simp_all add: aspace_def vm_inv_def, simp_all add: aligned_def page_step)
  then have "aligned 4096 a" using aligned_pages [of ?start k] by (simp add: k(1) page_size_eq)
  moreover have "view root s a = 0" using k(3) by (simp add: um)
  moreover have "\<exists>g\<in>free_frames s - free_frames s'. view root s' a = frame_addr g OR (VF_PT_PRESENT OR VF_PT_WRITABLE)"
    using k(5) by (simp add: iters_one)
  ultimately show ?thesis using r by blast
qed


section \<open>Writing to a page of one's own\<close>

text \<open>A write outside the tables and the bitmap changes nothing but the page it goes to.\<close>

lemma own_write:
  fixes s :: "'z virt_scheme" and v :: u64
  assumes inv: "vm_inv root s" and p: "aligned 8 p"
    and tables: "\<And>q t. valid_path q \<Longrightarrow> tbl_of s root q = Some t \<Longrightarrow> page t \<noteq> page p"
    and bitmap: "\<And>x. in_bitmap s x \<Longrightarrow> page x \<noteq> page p"
  defines "s' \<equiv> wr64 p v s"
  shows "vm_inv root s'" and "view root s' = view root s" and "kept root s' = kept root s"
    and "free_frames s' = free_frames s" and "valid_path q \<Longrightarrow> tbl_of s' root q = tbl_of s root q"
proof -
  note d = vm_invD [OF inv]
  have f: "s_virt_hhdm_offset s' = s_virt_hhdm_offset s" "s_phys_bitmap s' = s_phys_bitmap s" "covered s' = covered s"
    "in_bitmap s' = in_bitmap s" "phys_wf s' = phys_wf s" "pfn s' = pfn s"
    by (simp_all add: s'_def covered_def in_bitmap_def phys_wf_def pfn_def fun_eq_iff)
  have m: "mem s' x = mem s x" if "page x \<noteq> page p" for x
    using store64_other_page [OF p that] by (simp add: s'_def)
  have rd: "rd64 s' (t + 8 * i) = rd64 s (t + 8 * i)" if q: "valid_path q" "tbl_of s root q = Some t" and i: "i < 512" for q t i
  proof (rule load64_cong)
    fix k :: nat assume k: "k < 8"
    have al: "aligned 4096 t" using d(8) [OF q] by (simp add: table_page_def)
    have "page (t + 8 * i + of_nat k) = page (t + 8 * i)"
      by (rule cell_page [OF aligned_offset [OF al index_offset(3,2) [OF i]] k])
    also have "\<dots> = page t" by (rule page_offset [OF al index_offset(2) [OF i]])
    finally show "mem s' (t + 8 * i + of_nat k) = mem s (t + 8 * i + of_nat k)" using m tables [OF q] by simp
  qed
  have tb: "tbl_of s' root q = tbl_of s root q" if "valid_path q" for q
    unfolding f(1) by (rule tbl_same [OF _ that]) (rule rd)
  then show "valid_path q \<Longrightarrow> tbl_of s' root q = tbl_of s root q" .
  have fu: "frame_used s' g = frame_used s g" if "g < covered s" for g
    by (rule frame_used_cong [OF d(2) that f(2)]) (rule m [OF bitmap])
  then have kp: "kpage s' = kpage s" by (auto simp: kpage_def fun_eq_iff f)
  show ff: "free_frames s' = free_frames s" using fu by (auto simp: free_frames_def f)
  have tp: "table_page s' = table_page s" by (simp add: table_page_def fun_eq_iff kp f)
  show "kept root s' = kept root s" using tb by (auto simp: kept_def fun_eq_iff kp f)
  show "view root s' = view root s"
    unfolding view_def using tb [OF valid_pt_path] rd [OF valid_pt_path _ index_less(4)]
    by (auto simp: fun_eq_iff split: option.split)
  have root: "table_page s root" by (rule d(8) [of "[]"]) simp_all
  then have "0 < covered s" by (auto simp: table_page_def kpage_def)
  then have "frame_used s' 0" using fu d(3) by blast
  then have "alloc_wf s'" using d(2) by (simp add: alloc_wf_def f)
  moreover have "dir_entry (rd64 s' (t + 8 * i))"
    if q: "valid_path q" "length q \<le> 2" "tbl_of s' root q = Some t" "i < 512" for q t i
    using d(10) [OF q(1,2) _ q(4)] rd [OF q(1) _ q(4)] tb [OF q(1)] q(3) by simp
  ultimately show "vm_inv root s'"
    using d(4-9) tb unfolding vm_inv_def f kp tp by simp
qed

end
