(* ===== verification/AcpiProps.thy ===== *)
theory AcpiProps
  imports Acpi Lapic VirtCtx
begin

text \<open>
  The properties of \<open>src/acpi/\<close>: when the walk over the MADT ends and what it finds, and what the
  mapping services promise to uACPI.
\<close>

section \<open>The entries of the MADT\<close>

text \<open>The offsets the walk reaches from one of them.\<close>

inductive reaches :: "madt_layout \<Rightarrow> mem \<Rightarrow> u64 \<Rightarrow> u64 \<Rightarrow> u64 \<Rightarrow> bool"
  for L m madt where
  here: "off < ucast (table_length L m madt) \<Longrightarrow> reaches L m madt off off"
| further: "off < ucast (table_length L m madt) \<Longrightarrow>
     reaches L m madt (off + ucast (entry_length L m (madt + off))) o' \<Longrightarrow> reaches L m madt off o'"

inductive_simps reaches_iff: "reaches L m madt off o'"

definition overrides :: "madt_layout \<Rightarrow> mem \<Rightarrow> u64 \<Rightarrow> u64 \<Rightarrow> bool" where
  "overrides L m madt off \<longleftrightarrow> entry_type L m (madt + off) = type_lapic_address_override L"

text \<open>The last entry that overrides the address decides, or the default when there is none.\<close>

definition lapic_of :: "madt_layout \<Rightarrow> mem \<Rightarrow> u64 \<Rightarrow> u64 \<Rightarrow> u64 \<Rightarrow> u64 \<Rightarrow> bool" where
  "lapic_of L m madt off dflt r \<longleftrightarrow>
     (r = dflt \<and> (\<forall>x. reaches L m madt off x \<longrightarrow> \<not> overrides L m madt x)) \<or>
     (\<exists>x. reaches L m madt off x \<and> overrides L m madt x \<and> r = override_address L m (madt + x) \<and>
          (\<forall>y. reaches L m madt off y \<longrightarrow> overrides L m madt y \<longrightarrow> y \<le> x))"

lemma entry_step:
  assumes "(off :: u64) < ucast (table_length L m madt)"
  shows "unat (off + ucast (entry_length L m e)) = unat off + unat (entry_length L m e)"
    and "unat off < 2 ^ 32"
proof -
  have o: "unat off < unat (table_length L m madt)"
    using assms by (simp add: word_less_nat_alt unat_ucast_u64)
  also have "\<dots> < 2 ^ 32" using unsigned_less [of "table_length L m madt", where ?'a = nat] by simp
  finally show o: "unat off < 2 ^ 32" .
  have e: "unat (ucast (entry_length L m e) :: u64) = unat (entry_length L m e)"
    by (simp add: unat_ucast_u64)
  have "unat (entry_length L m e) < 2 ^ 8" using unsigned_less [of "entry_length L m e", where ?'a = nat] by simp
  with o show "unat (off + ucast (entry_length L m e)) = unat off + unat (entry_length L m e)"
    by (subst unat_add_no_wrap) (simp_all only: e, simp)
qed

lemma reaches_le: "reaches L m madt off x \<Longrightarrow> off \<le> x"
proof (induction off x rule: reaches.induct)
  case (further off x)
  then show ?case using entry_step(1) [OF further(1), of "madt + off"] by (simp add: word_le_nat_alt)
qed simp

text \<open>An entry of length 0 is read again and again.\<close>

lemma madt_walk_zero:
  assumes "off < ucast (table_length L m madt)" and "entry_length L m (madt + off) = 0"
  shows "madt_walk L m madt off acc = None"
proof (rule ccontr)
  assume "madt_walk L m madt off acc \<noteq> None"
  then obtain r where "madt_walk L m madt off acc = Some r" by blast
  then have "L = L \<and> m = m \<and> madt = madt \<longrightarrow> off \<noteq> off"
    by (rule madt_walk.raw_induct [where P = "\<lambda>L' m' madt' x _ _. L' = L \<and> m' = m \<and> madt' = madt \<longrightarrow> x \<noteq> off", rotated])
      (use assms in \<open>auto simp: Let_def split: if_splits; blast\<close>)
  then show False by simp
qed

lemma madt_walk_cases:
  "if \<exists>x. reaches L m madt off x \<and> entry_length L m (madt + x) = 0
   then madt_walk L m madt off acc = None
   else \<exists>r. madt_walk L m madt off acc = Some r \<and> lapic_of L m madt off acc r"
proof (induction "2 ^ 33 - unat off" arbitrary: off acc rule: less_induct)
  case less
  let ?n = "off + ucast (entry_length L m (madt + off))"
  show ?case
  proof (cases "off < ucast (table_length L m madt)")
    case False
    then have "\<not> reaches L m madt off x" for x by (subst reaches_iff) simp
    moreover have "madt_walk L m madt off acc = Some acc" using False by (subst madt_walk.simps) simp
    ultimately show ?thesis by (simp add: lapic_of_def)
  next
    case True
    have r: "reaches L m madt off x \<longleftrightarrow> x = off \<or> reaches L m madt ?n x" for x
      using True by (subst reaches_iff) auto
    show ?thesis
    proof (cases "entry_length L m (madt + off) = 0")
      case zero: True
      then show ?thesis using madt_walk_zero [OF True zero] r by auto
    next
      case False
      then have u: "unat (entry_length L m (madt + off)) \<noteq> 0" by (simp add: unat_eq_0)
      note st = entry_step(1) [OF True, of "madt + off"] entry_step(2) [OF True]
      let ?acc = "if overrides L m madt off then override_address L m (madt + off) else acc"
      have run: "madt_walk L m madt off acc = madt_walk L m madt ?n ?acc"
        using True by (subst madt_walk.simps) (simp add: overrides_def Let_def)
      have "2 ^ 33 - unat ?n < 2 ^ 33 - unat off" using st u by simp
      note IH = less [OF this, of ?acc]
      have ex: "(\<exists>x. reaches L m madt off x \<and> entry_length L m (madt + x) = 0) \<longleftrightarrow>
          (\<exists>x. reaches L m madt ?n x \<and> entry_length L m (madt + x) = 0)"
        by (auto simp: r False)
      have "off < y" if "reaches L m madt ?n y" for y
        using reaches_le [OF that] st u by (simp add: word_le_nat_alt word_less_nat_alt)
      then have "lapic_of L m madt off acc v" if "lapic_of L m madt ?n ?acc v" for v
        using that unfolding lapic_of_def r by (auto split: if_splits intro: less_imp_le)
      then show ?thesis using IH unfolding ex run by (auto split: if_splits)
    qed
  qed
qed

section \<open>Pages and bytes\<close>


lemma floorchunk_of_page:
  assumes "aligned 4096 t" and "unat r < 4096"
  shows "floorchunku64 (t + r) VIRT_PAGE_SIZE = t"
proof (rule unsigned_word_eqI)
  obtain x where "unat t = 4096 * x" using assms(1) by (rule aligned_cases)
  then show "unat (floorchunku64 (t + r) VIRT_PAGE_SIZE) = unat t"
    using assms(2) by (simp add: unat_floorchunk page_step unat_offset [OF assms])
qed

lemma vpn_page: "page x = page y \<Longrightarrow> vpn x = vpn y"
  by (simp add: vpn_def page_def)

text \<open>The offset of an address in its page, and the page of each byte of a range.\<close>

definition page_rest :: "u64 \<Rightarrow> u64" where
  "page_rest addr = addr - floorchunku64 addr VIRT_PAGE_SIZE"

lemma unat_page_rest: "unat (page_rest addr) = unat addr mod 4096"
proof -
  have "page_rest addr = addr mod VIRT_PAGE_SIZE"
    using floorchunk_add_rest [of addr VIRT_PAGE_SIZE] unfolding page_rest_def by (metis add_diff_cancel_left')
  then show ?thesis by (simp add: unat_mod page_step)
qed


definition map_pages :: "u64 \<Rightarrow> u64 \<Rightarrow> nat" where
  "map_pages addr len = (unat len + unat addr mod 4096 + 4095) div 4096"

lemma actual_len:
  assumes "unat len \<le> 2 ^ 47"
  shows "iters VIRT_PAGE_SIZE (ceilchunku64 (len + page_rest addr) VIRT_PAGE_SIZE) = map_pages addr len"
    and "unat (ceilchunku64 (len + page_rest addr) VIRT_PAGE_SIZE) \<le> 2 ^ 48"
proof -
  have m: "unat addr mod 4096 < 4096" by simp
  have u: "unat (len + page_rest addr) = unat len + unat addr mod 4096"
    using assms m by (subst unat_add_no_wrap) (simp_all add: unat_page_rest)
  have c: "unat (ceilchunku64 (len + page_rest addr) VIRT_PAGE_SIZE) = map_pages addr len * 4096"
    using assms m by (subst unat_ceilchunk) (simp_all add: page_step u map_pages_def)
  then show "iters VIRT_PAGE_SIZE (ceilchunku64 (len + page_rest addr) VIRT_PAGE_SIZE) = map_pages addr len"
    by (simp add: iters_def page_step)
  have "map_pages addr len * 4096 \<le> unat len + unat addr mod 4096 + 4095"
    unfolding map_pages_def by (rule div_times_less_eq_dividend)
  then show "unat (ceilchunku64 (len + page_rest addr) VIRT_PAGE_SIZE) \<le> 2 ^ 48"
    unfolding c using assms m by simp
qed



section \<open>The mapping services\<close>

text \<open>The first page-stepped address behind the start of the direct map whose range is unmapped.\<close>

definition first_room :: "u64 \<Rightarrow> u64 \<Rightarrow> 'z virt_scheme \<Rightarrow> u64 \<Rightarrow> bool" where
  "first_room root len s a \<longleftrightarrow>
     (\<exists>k. a = s_virt_hhdm_offset s + VIRT_PAGE_SIZE + of_nat k * VIRT_PAGE_SIZE \<and>
        unat (s_virt_hhdm_offset s + VIRT_PAGE_SIZE) + 4096 * k < unat (0xffffffffffff0000 :: u64) \<and>
        unmapped_at root len s a \<and>
        (\<forall>j<k. \<not> unmapped_at root len s (s_virt_hhdm_offset s + VIRT_PAGE_SIZE + of_nat j * VIRT_PAGE_SIZE)))"

lemma first_room_unique: "first_room root len s a \<Longrightarrow> first_room root len s b \<Longrightarrow> a = b"
  unfolding first_room_def by (metis linorder_neqE_nat)

lemma first_room_aligned:
  assumes "vm_inv root s" and "first_room root len s a"
  shows "aligned 4096 a"
proof -
  from assms(2) obtain k where "a = s_virt_hhdm_offset s + of_nat (Suc k) * 4096"
    unfolding first_room_def by (auto simp: page_size_eq algebra_simps)
  moreover have "aligned 4096 (s_virt_hhdm_offset s)" using assms(1) by (simp add: vm_inv_def)
  ultimately show ?thesis using aligned_pages [of "s_virt_hhdm_offset s" "Suc k"] by simp
qed

lemma map_anywhere_room:
  assumes "aspace ctx root s" and "unat len \<le> 2 ^ 48" and "max_tables (iters VIRT_PAGE_SIZE len) \<le> budget s"
  obtains (mapped) a s' where "virt_map_anywhere ctx phys len flags s = Inr (a, s')" and "first_room root len s a"
      and "aspace ctx root s'"
      and "\<And>k. k < iters VIRT_PAGE_SIZE len \<Longrightarrow>
             view root s' (a + of_nat k * VIRT_PAGE_SIZE) = (phys + of_nat k * VIRT_PAGE_SIZE) OR flags"
      and "\<And>x. \<forall>k<iters VIRT_PAGE_SIZE len. vpn x \<noteq> vpn (a + of_nat k * VIRT_PAGE_SIZE) \<Longrightarrow>
             view root s' x = view root s x"
      and "quiet s s'" and "\<And>x. kept root s x \<Longrightarrow> mem s' x = mem s x"
  | (full) "virt_map_anywhere ctx phys len flags s = Inr (0, s)" and "\<nexists>a. first_room root len s a"
proof -
  from map_anywhere_spec [OF assms, of phys flags] obtain a s' where
    run: "virt_map_anywhere ctx phys len flags s = Inr (a, s')" and
    out: "first_room root len s a \<and> aspace ctx root s' \<and>
        (\<forall>k<iters VIRT_PAGE_SIZE len.
           view root s' (a + of_nat k * VIRT_PAGE_SIZE) = (phys + of_nat k * VIRT_PAGE_SIZE) OR flags) \<and>
        (\<forall>x. (\<forall>k<iters VIRT_PAGE_SIZE len. vpn x \<noteq> vpn (a + of_nat k * VIRT_PAGE_SIZE)) \<longrightarrow>
           view root s' x = view root s x) \<and>
        quiet s s' \<and> (\<forall>x. kept root s x \<longrightarrow> mem s' x = mem s x) \<or>
      a = 0 \<and> s' = s \<and> (\<nexists>a. first_room root len s a)"
    unfolding first_room_def by blast
  from out show ?thesis
  proof
    assume "first_room root len s a \<and> aspace ctx root s' \<and>
        (\<forall>k<iters VIRT_PAGE_SIZE len.
           view root s' (a + of_nat k * VIRT_PAGE_SIZE) = (phys + of_nat k * VIRT_PAGE_SIZE) OR flags) \<and>
        (\<forall>x. (\<forall>k<iters VIRT_PAGE_SIZE len. vpn x \<noteq> vpn (a + of_nat k * VIRT_PAGE_SIZE)) \<longrightarrow>
           view root s' x = view root s x) \<and>
        quiet s s' \<and> (\<forall>x. kept root s x \<longrightarrow> mem s' x = mem s x)"
    then show thesis using run by (intro mapped [of a s']) blast+
  next
    assume "a = 0 \<and> s' = s \<and> (\<nexists>a. first_room root len s a)"
    then show thesis using run by (intro full) simp_all
  qed
qed

abbreviation map_len :: "u64 \<Rightarrow> u64 \<Rightarrow> u64" where
  "map_len addr len \<equiv> ceilchunku64 (len + page_rest addr) VIRT_PAGE_SIZE"

lemma kernel_map_run:
  "uacpi_kernel_map addr len s =
     bindk (virt_map_anywhere 0 (floorchunku64 addr VIRT_PAGE_SIZE) (map_len addr len)
              (VF_PT_PRESENT OR VF_PT_WRITABLE) s) (\<lambda>a s. Inr (a + page_rest addr, s))"
  by (simp add: uacpi_kernel_map_def page_rest_def Let_def)

lemma kernel_unmap_run:
  assumes "aligned 4096 a"
  shows "uacpi_kernel_unmap (a + page_rest addr) len = virt_unmap 0 a (map_len addr len)"
proof -
  have "unat (page_rest addr) < 4096" by (simp add: unat_page_rest)
  from floorchunk_of_page [OF assms this] show ?thesis by (simp add: uacpi_kernel_unmap_def fun_eq_iff Let_def)
qed


text \<open>Unmapping what \<open>uacpi_kernel_map\<close> returned gives back the translation of every address, if
  there was room for the mapping.\<close>

theorem uacpi_kernel_map_unmap_roundtrip:
  assumes "aspace 0 root s" and "unat len \<le> 2 ^ 47" and "max_tables (map_pages addr len) \<le> budget s"
    and "first_room root (map_len addr len) s a"
  shows "\<exists>p s' s''. uacpi_kernel_map addr len s = Inr (p, s') \<and> uacpi_kernel_unmap p len s' = Inr ((), s'') \<and>
           view root s'' = view root s"
proof -
  let ?l = "map_len addr len" and ?b = "floorchunku64 addr VIRT_PAGE_SIZE" and ?fl = "VF_PT_PRESENT OR VF_PT_WRITABLE"
  have len: "unat ?l \<le> 2 ^ 48" and n: "iters VIRT_PAGE_SIZE ?l = map_pages addr len"
    using actual_len [OF assms(2)] by simp_all
  show ?thesis
  proof (cases rule: map_anywhere_room [OF assms(1) len assms(3) [folded n], of ?b ?fl, case_names mapped full])
    case (mapped v s')
    have al: "aligned 4096 v" using mapped(2) assms(1) by (auto simp: aspace_def intro: first_room_aligned)
    obtain s'' where s'': "virt_unmap 0 v ?l s' = Inr ((), s'')"
        "unmap_loop.passed 0 root v VIRT_PAGE_SIZE (iters VIRT_PAGE_SIZE ?l) s' s''"
      by (rule unmap_range [OF mapped(3) len])
    have "view root s'' = view root s"
      by (rule unmapped_again [OF _ mapped(5) s''(2)]) (use mapped(2) in \<open>auto simp: first_room_def\<close>)
    then show ?thesis using mapped(1) s''(1) by (simp add: kernel_map_run kernel_unmap_run [OF al])
  qed (use assms(4) in blast)
qed


section \<open>States that differ in other components only\<close>

lemma same_first_room:
  assumes "mem t = mem s" "s_virt_hhdm_offset t = s_virt_hhdm_offset s"
  shows "first_room root len t a = first_room root len s a"
  by (simp add: first_room_def unmapped_at_def same_view [OF assms] assms)

lemma same_first_room_klogs [simp]: "first_room root len (s\<lparr>klogs := l\<rparr>) a = first_room root len s a"
  by (rule same_first_room; simp)

section \<open>A concrete machine\<close>

definition demo_acpi :: acpi where
  "demo_acpi = virt.extend demo_virt (acpi.fields 0 0xfee00000 0)"

lemma demo_acpi_fields [simp]:
  "mem demo_acpi = mem demo_virt" "cr3 demo_acpi = cr3 demo_virt" "s_phys_bitmap demo_acpi = s_phys_bitmap demo_virt"
  "s_phys_bitmap_size demo_acpi = s_phys_bitmap_size demo_virt"
  "s_phys_hhdm_offset demo_acpi = s_phys_hhdm_offset demo_virt"
  "s_phys_addr_space_size demo_acpi = s_phys_addr_space_size demo_virt"
  "s_virt_hhdm_offset demo_acpi = s_virt_hhdm_offset demo_virt"
  "s_local_apic_address_phys demo_acpi = 0xfee00000" "s_limine_data_rsdp_phys demo_acpi = 0"
  by (simp_all add: demo_acpi_def virt.defs acpi.defs)

lemma demo_acpi_space:
  "aspace 0 demo_root demo_acpi" "budget demo_acpi = 61" "view demo_root demo_acpi x = 0"
proof -
  have "aspace 0 demo_root demo_acpi = aspace 0 demo_root demo_virt" "budget demo_acpi = budget demo_virt"
    "view demo_root demo_acpi = view demo_root demo_virt"
    by (rule same_space; simp only: demo_acpi_fields)+
  then show "aspace 0 demo_root demo_acpi" "budget demo_acpi = 61" "view demo_root demo_acpi x = 0"
    using demo_aspace demo_budget by simp_all
qed

lemma demo_room:
  assumes "\<And>x. view demo_root s x = 0" and "s_virt_hhdm_offset s = demo_hhdm"
  shows "first_room demo_root len s (demo_hhdm + 4096)"
  unfolding first_room_def unmapped_at_def
  by (rule exI [of _ 0]) (simp add: assms page_size_eq, simp add: demo_hhdm_def)

definition demo_uacpi :: "acpi uacpi" where
  "demo_uacpi = \<lparr>setup_early_table_access = (\<lambda>_ _ s. Inr (None, s)), find_madt = (\<lambda>s. Inr (Some 0x1000, s))\<rparr>"

text \<open>A table of three entries of twelve bytes, the second of which overrides the address.\<close>

definition demo_madt :: "madt_layout" where
  "demo_madt = \<lparr>table_length = (\<lambda>_ _. 0x50), local_interrupt_controller_address = (\<lambda>_ _. 0xfee00000),
     entry_type = (\<lambda>_ e. if e = 0x1038 then 5 else 0), entry_length = (\<lambda>_ _. 12),
     override_address = (\<lambda>_ _. 0x1fee00000), type_lapic_address_override = 5\<rparr>"

lemma demo_madt_simps [simp]:
  "table_length demo_madt m a = 0x50" "local_interrupt_controller_address demo_madt m a = 0xfee00000"
  "entry_type demo_madt m a = (if a = 0x1038 then 5 else 0)" "entry_length demo_madt m a = 12"
  "override_address demo_madt m a = 0x1fee00000" "type_lapic_address_override demo_madt = 5"
  by (simp_all add: demo_madt_def)

lemma demo_reaches:
  "reaches demo_madt m 0x1000 off x \<longleftrightarrow> off < 0x50 \<and> (x = off \<or> reaches demo_madt m 0x1000 (off + 12) x)"
  by (subst reaches_iff) auto

lemma demo_madt_entries: "reaches demo_madt m 0x1000 0x2c x \<longleftrightarrow> x = 0x2c \<or> x = 0x38 \<or> x = 0x44"
  by (simp add: demo_reaches [of _ "0x2c"] demo_reaches [of _ "0x38"] demo_reaches [of _ "0x44"] demo_reaches [of _ "0x50"])

section \<open>Properties\<close>

text \<open>C35: Once uACPI has been set up and has found the MADT, \<open>acpi_init\<close> ends exactly when no entry
  that the walk reaches has length 0. Then the address of the local APIC is that of the last entry that
  overrides it, or the one in the header of the table. With an entry of length 0 it never ends.\<close>

theorem acpi_init_madt:
  assumes "virt_alloc 0 VIRT_PAGE_SIZE s = Inr (buf, s1)"
    and "setup_early_table_access u buf VIRT_PAGE_SIZE (s1\<lparr>s_acpi_early_table_buffer := buf\<rparr>) = Inr (None, s2)"
    and "find_madt u s2 = Inr (Some madt, s3)"
  shows "if \<exists>x. reaches L (mem s3) madt 0x2c x \<and> entry_length L (mem s3) (madt + x) = 0
         then acpi_init u L s = Inl Spin
         else \<exists>s'. acpi_init u L s = Inr ((), s') \<and> mem s' = mem s3 \<and>
                lapic_of L (mem s3) madt 0x2c (ucast (local_interrupt_controller_address L (mem s3) madt))
                  (acpi_get_lapic_address s')"
  using madt_walk_cases [of L "mem s3" madt "0x2c" "ucast (local_interrupt_controller_address L (mem s3) madt)"]
  by (auto simp: acpi_init_def assms acpi_get_lapic_address_def split: if_splits)

theorem acpi_init_madt_witness:
  "\<exists>s'. acpi_init demo_uacpi demo_madt demo_acpi = Inr ((), s') \<and> acpi_get_lapic_address s' = 0x1fee00000"
proof -
  obtain buf s1 where a: "virt_alloc 0 VIRT_PAGE_SIZE demo_acpi = Inr (buf, s1)"
    using virt_alloc_spec [OF demo_acpi_space(1), of VIRT_PAGE_SIZE] by (auto simp: demo_acpi_space iters_one alloc_frames_def max_tables_def page_step)
  from acpi_init_madt [OF a, of demo_uacpi _ "0x1000" _ demo_madt]
  obtain s' m where "acpi_init demo_uacpi demo_madt demo_acpi = Inr ((), s')"
    "lapic_of demo_madt m 0x1000 0x2c 0xfee00000 (acpi_get_lapic_address s')"
    by (auto simp: demo_uacpi_def demo_madt_entries)
  then show ?thesis
    by (auto simp: lapic_of_def demo_madt_entries overrides_def)
qed

text \<open>The local APIC's page goes to the first room, or nowhere; what was mapped stays mapped.\<close>

lemma lapic_init_run:
  assumes "aspace 0 root s" and "3 \<le> budget s"
  defines "phys \<equiv> s_local_apic_address_phys s"
  shows "\<exists>a s'. lapic_init msrs s =
             (if bit (msrs MSR_APIC_BASE) 11 then Inr ((), s')
              else Inl (Hcf (kerror ''The APIC was disabled! We cannot re-enable it.'' [] s'))) \<and>
           klogs s' = klogs s @
             [Klog LL_INFO ''The local APIC lies at the physical address %0p, '' [KInt phys],
              Kprintf (''and is mapped to %0p.'' @ [CHR 10]) [KInt a],
              Klog LL_INFO ''The APIC MSR says the APIC is located at %0p.'' [KInt (take_bit 32 (msrs MSR_APIC_BASE))]] \<and>
           aspace 0 root s' \<and> keeps_mapped root s s' \<and> virt.more s' = virt.more s \<and>
           (first_room root VIRT_PAGE_SIZE s a \<and> view root s' a = phys OR 0x1b \<or>
            a = 0 \<and> (\<nexists>a. first_room root VIRT_PAGE_SIZE s a))"
proof -
  let ?s = "kinfo ''The local APIC lies at the physical address %0p, '' [KInt phys] s"
  let ?fl = "VF_PT_PRESENT OR VF_PT_WRITABLE OR VF_PT_WRITE_THROUGH OR VF_PT_CACHE_DISABLE"
  have fl: "?fl = 0x1b" by (simp add: kernel_defs)
  have bit11: "take_bit 32 w AND 0x800 = 0 \<longleftrightarrow> \<not> bit w 11" for w :: u64
    using and_exp_eq_0_iff_not_bit [of "take_bit 32 w" 11] by (simp add: bit_take_bit_iff)
  have len: "unat VIRT_PAGE_SIZE \<le> 2 ^ 48" by (simp add: page_step)
  define reported where "reported a t =
      t\<lparr>klogs := klogs t @ [Kprintf (''and is mapped to %0p.'' @ [CHR 10]) [KInt a],
         Klog LL_INFO ''The APIC MSR says the APIC is located at %0p.'' [KInt (take_bit 32 (msrs MSR_APIC_BASE))]]\<rparr>"
    for a and t :: "'a acpi_scheme"
  note [simp] = reported_def
  have run: "lapic_init msrs s = bindk (virt_map_anywhere 0 phys VIRT_PAGE_SIZE ?fl ?s) (\<lambda>a t.
      if \<not> bit (msrs MSR_APIC_BASE) 11
      then Inl (Hcf (kerror ''The APIC was disabled! We cannot re-enable it.'' [] (reported a t)))
      else Inr ((), reported a t))"
    by (simp add: lapic_init_def phys_def acpi_get_lapic_address_def msr_read_def Let_def bit11 hcf_def
        MSR_APIC_BASE_FLAGS_ENABLED_def cong: if_cong)
  have "aspace 0 root ?s" "max_tables (iters VIRT_PAGE_SIZE VIRT_PAGE_SIZE) \<le> budget ?s"
    using assms(1,2) by (simp_all add: iters_one max_tables_def)
  note room = map_anywhere_room [OF this(1) len this(2), of phys ?fl, case_names mapped full]
  show ?thesis
  proof (cases rule: room)
    case (mapped a s')
    have "unmapped_at root VIRT_PAGE_SIZE s a" using mapped(2) by (auto simp: first_room_def unmapped_at_def)
    from keeps_mapped_room [OF this] have "keeps_mapped root s s'" using mapped(5) by simp
    then show ?thesis using mapped(1-3) mapped(4) [of 0] quiet_fields(8,13) [OF mapped(6)]
      unfolding run by (intro exI [of _ a] exI [of _ "reported a s'"]) (simp add: fl iters_one keeps_mapped_def)
  next
    case full
    then show ?thesis using assms(1) unfolding run
      by (intro exI [of _ 0] exI [of _ "reported 0 ?s"]) (simp add: keeps_mapped_def)
  qed
qed

text \<open>C36: \<open>lapic_init\<close> maps the page of the local APIC, with every one of its registers, uncached at the
  first free address, reports the addresses, and then either returns or, when the enable bit of the base register is clear, stops the
  machine with a message. What it reports as the base is only the low half of the register.\<close>

theorem lapic_init_correct:
  assumes "aspace 0 root s" and "3 \<le> budget s"
  defines "phys \<equiv> s_local_apic_address_phys s"
  shows "\<exists>a s'. lapic_init msrs s =
             (if bit (msrs MSR_APIC_BASE) 11 then Inr ((), s')
              else Inl (Hcf (kerror ''The APIC was disabled! We cannot re-enable it.'' [] s'))) \<and>
           klogs s' = klogs s @
             [Klog LL_INFO ''The local APIC lies at the physical address %0p, '' [KInt phys],
              Kprintf (''and is mapped to %0p.'' @ [CHR 10]) [KInt a],
              Klog LL_INFO ''The APIC MSR says the APIC is located at %0p.'' [KInt (take_bit 32 (msrs MSR_APIC_BASE))]] \<and>
           (first_room root VIRT_PAGE_SIZE s a \<and> aspace 0 root s' \<and>
              (\<forall>r\<in>set lapic_registers. view root s' (a + r) = phys OR 0x1b) \<or>
            a = 0 \<and> (\<nexists>a. first_room root VIRT_PAGE_SIZE s a))"
proof -
  from lapic_init_run [OF assms(1,2), of msrs, folded phys_def] obtain a s' where
    run: "lapic_init msrs s =
             (if bit (msrs MSR_APIC_BASE) 11 then Inr ((), s')
              else Inl (Hcf (kerror ''The APIC was disabled! We cannot re-enable it.'' [] s')))"
      "klogs s' = klogs s @
             [Klog LL_INFO ''The local APIC lies at the physical address %0p, '' [KInt phys],
              Kprintf (''and is mapped to %0p.'' @ [CHR 10]) [KInt a],
              Klog LL_INFO ''The APIC MSR says the APIC is located at %0p.'' [KInt (take_bit 32 (msrs MSR_APIC_BASE))]]"
    and s': "aspace 0 root s'"
      "first_room root VIRT_PAGE_SIZE s a \<and> view root s' a = phys OR 0x1b \<or> a = 0 \<and> (\<nexists>a. first_room root VIRT_PAGE_SIZE s a)"
    by (elim exE conjE) (rule that; assumption)
  have "view root s' (a + r) = view root s' a" if "first_room root VIRT_PAGE_SIZE s a" "r \<in> set lapic_registers" for r
    using first_room_aligned [OF _ that(1)] assms(1) page_offset [OF _ lapic_register_slot(1) [OF that(2)], of a]
    by (intro view_cong vpn_page) (simp add: aspace_def)
  then show ?thesis using run s' by (intro exI [of _ a] exI [of _ s']) auto
qed

theorem lapic_init_correct_witness:
  "\<exists>s'. lapic_init (\<lambda>_. 0xfee00900) demo_acpi = Inr ((), s') \<and>
     view demo_root s' (demo_hhdm + 4096 + LAPIC_REG_EOI) = 0xfee0001b"
proof -
  have eoi: "LAPIC_REG_EOI \<in> set lapic_registers" by (simp add: lapic_registers_def)
  note room = demo_room [OF demo_acpi_space(3) demo_acpi_fields(7) [unfolded demo_virt_fields(5)]]
  have b: "bit (0xfee00900 :: u64) 11" by simp
  from lapic_init_correct [OF demo_acpi_space(1), of "\<lambda>_. 0xfee00900"]
  obtain a s' where "lapic_init (\<lambda>_. 0xfee00900) demo_acpi = Inr ((), s')"
    "first_room demo_root VIRT_PAGE_SIZE demo_acpi a" "view demo_root s' (a + LAPIC_REG_EOI) = 0xfee0001b"
    using room b eoi by (auto simp: demo_acpi_space)
  then show ?thesis using first_room_unique [OF _ room] by metis
qed


theorem uacpi_kernel_map_unmap_roundtrip_witness:
  "\<exists>p s' s''. uacpi_kernel_map 0x5123 0x2000 demo_virt = Inr (p, s') \<and>
     uacpi_kernel_unmap p 0x2000 s' = Inr ((), s'') \<and> view demo_root s'' = view demo_root demo_virt"
  by (rule uacpi_kernel_map_unmap_roundtrip [OF demo_aspace])
    (simp_all add: map_pages_def max_tables_def demo_budget, rule demo_room, simp_all)


end
