(* ===== verification/BootRun.thy ===== *)
theory BootRun
  imports BootProps AcpiProps
begin

text \<open>
  The whole boot sequence, from the entry of \<open>kmain\<close> to its idle loop: the components' results put
  together, and the contract with uACPI under which the sequence gets through.
\<close>

section \<open>The frames that are left for paging\<close>




section \<open>The contract with uACPI\<close>




lemma same_space_acpi [simp]:
  "aspace ctx root (s\<lparr>s_acpi_early_table_buffer := b\<rparr>) = aspace ctx root s"
  "budget (s\<lparr>s_acpi_early_table_buffer := b\<rparr>) = budget s"
  "view root (s\<lparr>s_acpi_early_table_buffer := b\<rparr>) = view root s"
  "aspace ctx root (s\<lparr>s_local_apic_address_phys := b\<rparr>) = aspace ctx root s"
  "budget (s\<lparr>s_local_apic_address_phys := b\<rparr>) = budget s"
  "view root (s\<lparr>s_local_apic_address_phys := b\<rparr>) = view root s"
  by (rule same_space; simp)+

lemma keeps_mapped_view: "view root s' = view root t' \<Longrightarrow> view root s = view root t \<Longrightarrow> keeps_mapped root s s' = keeps_mapped root t t'"
  by (simp add: keeps_mapped_def)



section \<open>From paging to the idle loop\<close>


section \<open>Properties\<close>







end
