(* ===== verification/CtxNew.thy ===== *)
theory CtxNew
  imports VirtCtx VirtInit
begin

text \<open>
  \<open>virt_ctx_new\<close>: a page for the context and a frame for its top-level table. The new table links the
  kernel's PDPT, which nothing ever fills.
\<close>

section \<open>The writes to the new context\<close>







section \<open>The new context\<close>





end
