(* ===== verification/VmRun.thy ===== *)
theory VmRun
  imports VirtAlloc
begin

text \<open>
  The memory manager as a state machine. The rest of the kernel acts on an address space through the
  operations of \<open>mem/virt.h\<close> and \<open>mem/phys.h\<close> only; a run is a sequence of such requests, each made while
  enough page frames are left for it. The invariant of the tables holds along every run, nobody else's
  memory changes, and a run can always go on.
\<close>

section \<open>Requests\<close>

datatype vm_request =
    Map u64 u64 u64 u64
  | Map_user u64 u64 u64 u64
  | Map_anywhere u64 u64 u64
  | Unmap u64 u64
  | Alloc u64
  | User_alloc u64
  | Frame

fun serve :: "u64 \<Rightarrow> vm_request \<Rightarrow> 'z virt_scheme \<Rightarrow> (u64, 'z virt_scheme) res" where
  "serve ctx (Map phys virt len flags) s = bindk (virt_map ctx phys virt len flags s) (\<lambda>_ s. Inr (virt, s))"
| "serve ctx (Map_user phys virt len flags) s = bindk (virt_map_user ctx phys virt len flags s) (\<lambda>_ s. Inr (virt, s))"
| "serve ctx (Map_anywhere phys len flags) s = virt_map_anywhere ctx phys len flags s"
| "serve ctx (Unmap addr len) s = bindk (virt_unmap ctx addr len s) (\<lambda>_ s. Inr (addr, s))"
| "serve ctx (Alloc len) s = virt_alloc ctx len s"
| "serve ctx (User_alloc len) s = virt_user_alloc ctx len s"
| "serve ctx Frame s = Inr (phys_alloc s)"

text \<open>The page frames a request can need at most, and the requests considered: 4 KiB pages, 256 TiB.\<close>

fun cost :: "vm_request \<Rightarrow> nat" where
  "cost (Map _ _ len _) = max_tables (iters VIRT_PAGE_SIZE len)"
| "cost (Map_user _ _ len _) = max_tables (iters VIRT_PAGE_SIZE len)"
| "cost (Map_anywhere _ len _) = max_tables (iters VIRT_PAGE_SIZE len)"
| "cost (Unmap _ _) = 0"
| "cost (Alloc len) = alloc_frames (iters VIRT_PAGE_SIZE len)"
| "cost (User_alloc len) = alloc_frames (iters VIRT_PAGE_SIZE len)"
| "cost Frame = 1"

fun admissible :: "vm_request \<Rightarrow> bool" where
  "admissible (Map _ _ len flags) = (unat len \<le> 2 ^ 48 \<and> flags AND VF_PD_BIG_PAGE = 0)"
| "admissible (Map_user _ _ len flags) = (unat len \<le> 2 ^ 48 \<and> flags AND VF_PD_BIG_PAGE = 0)"
| "admissible (Map_anywhere _ len _) = (unat len \<le> 2 ^ 48)"
| "admissible (Unmap _ len) = (unat len \<le> 2 ^ 48)"
| "admissible (Alloc len) = (unat len \<le> 2 ^ 48)"
| "admissible (User_alloc len) = (unat len \<le> 2 ^ 48)"
| "admissible Frame = True"

section \<open>Steps and runs\<close>

inductive vm_step :: "u64 \<Rightarrow> 'z virt_scheme \<Rightarrow> vm_request \<Rightarrow> 'z virt_scheme \<Rightarrow> bool" for ctx where
  served: "admissible r \<Longrightarrow> cost r \<le> budget s \<Longrightarrow> serve ctx r s = Inr (v, s') \<Longrightarrow> vm_step ctx s r s'"

inductive vm_run :: "u64 \<Rightarrow> 'z virt_scheme \<Rightarrow> vm_request list \<Rightarrow> 'z virt_scheme \<Rightarrow> bool" for ctx where
  stop: "vm_run ctx s [] s"
| step: "vm_step ctx s r t \<Longrightarrow> vm_run ctx t rs u \<Longrightarrow> vm_run ctx s (r # rs) u"

inductive_cases vm_stepE: "vm_step ctx s r s'"
inductive_simps vm_run_simps: "vm_run ctx s [] s'" "vm_run ctx s (r # rs) s'"

text \<open>Every request is served, and preserves the address space.\<close>

lemma serve_ok:
  assumes "aspace ctx root s" and "admissible r" and "cost r \<le> budget s"
  shows "\<exists>v s'. serve ctx r s = Inr (v, s') \<and> aspace ctx root s' \<and> preserves root s s' \<and> budget s \<le> budget s' + cost r"
proof (cases r)
  case (Map phys virt len flags)
  have pre: "unat len \<le> 2 ^ 48" "max_tables (iters VIRT_PAGE_SIZE len) \<le> budget s" using assms Map by simp_all
  show ?thesis
    by (rule map_range [OF assms(1) pre, where phys = phys and virt = virt and flags = flags])
      (use assms(2) Map in \<open>simp add: virt_map_def map_loop.passed_def\<close>)
next
  case (Map_user phys virt len flags)
  have pre: "unat len \<le> 2 ^ 48" "max_tables (iters VIRT_PAGE_SIZE len) \<le> budget s" using assms Map_user by simp_all
  show ?thesis
    by (rule map_user_range [OF assms(1) pre, where phys = phys and virt = virt and flags = flags])
      (use assms(2) Map_user in \<open>simp add: virt_map_user_def map_user_loop.passed_def\<close>)
next
  case (Map_anywhere phys len flags)
  have pre: "unat len \<le> 2 ^ 48" "max_tables (iters VIRT_PAGE_SIZE len) \<le> budget s" using assms Map_anywhere by simp_all
  from map_anywhere_spec [OF assms(1) pre, of phys flags] show ?thesis
    unfolding Map_anywhere serve.simps cost.simps by (elim exE conjE) (intro exI conjI; assumption)
next
  case (Unmap addr len)
  have pre: "unat len \<le> 2 ^ 48" using assms Unmap by simp
  show ?thesis
    by (rule unmap_range [OF assms(1) pre, where addr = addr]) (simp add: Unmap unmap_loop.passed_def)
next
  case (Alloc len)
  have pre: "unat len \<le> 2 ^ 48" "alloc_frames (iters VIRT_PAGE_SIZE len) \<le> budget s" using assms Alloc by simp_all
  from virt_alloc_spec [OF assms(1) pre] show ?thesis
    unfolding Alloc serve.simps cost.simps by (elim exE conjE) (intro exI conjI; assumption)
next
  case (User_alloc len)
  have pre: "unat len \<le> 2 ^ 48" "alloc_frames (iters VIRT_PAGE_SIZE len) \<le> budget s" using assms User_alloc by simp_all
  from virt_user_alloc_spec [OF assms(1) pre] show ?thesis
    unfolding User_alloc serve.simps cost.simps by (elim exE conjE) (intro exI conjI; assumption)
next
  case Frame
  have inv: "vm_inv root s" using assms(1) by (simp add: aspace_def)
  then have wf: "phys_wf s" by (simp add: vm_inv_def alloc_wf_def)
  then show ?thesis
  proof (cases rule: phys_alloc_cases)
    case (frame f)
    show ?thesis
      using aspace_evolves [OF assms(1) mark_used_step(1) [OF inv frame(1,2)]] frame(4)
      by (simp add: Frame)
  next
    case full
    then show ?thesis using assms(1) preserves_refl [OF assms(1)] by (simp add: Frame)
  qed
qed

lemma vm_step_ok:
  assumes "vm_step ctx s r s'" and "aspace ctx root s"
  shows "aspace ctx root s'" and "preserves root s s'"
proof -
  obtain v where v: "admissible r" "cost r \<le> budget s" "serve ctx r s = Inr (v, s')"
    using assms(1) by (rule vm_stepE)
  then show "aspace ctx root s'" "preserves root s s'" using serve_ok [OF assms(2) v(1,2)] by auto
qed

lemma vm_run_ok: "vm_run ctx s rs s' \<Longrightarrow> aspace ctx root s \<Longrightarrow> aspace ctx root s' \<and> preserves root s s'"
proof (induction rule: vm_run.induct)
  case (stop s)
  then show ?case by (simp add: preserves_refl)
next
  case (step s r t rs u)
  note t = vm_step_ok [OF step.hyps(1) step.prems]
  show ?case using step.IH [OF t(1)] preserves_trans [OF t(2)] by blast
qed

text \<open>Requests are deterministic, so a run has one outcome.\<close>

lemma vm_step_deterministic: "vm_step ctx s r t \<Longrightarrow> vm_step ctx s r u \<Longrightarrow> t = u"
  by (elim vm_stepE) simp

lemma vm_run_deterministic: "vm_run ctx s rs t \<Longrightarrow> vm_run ctx s rs u \<Longrightarrow> t = u"
proof (induction rs arbitrary: s)
  case (Cons r rs)
  from Cons.prems obtain s1 s2 where "vm_step ctx s r s1" "vm_run ctx s1 rs t" "vm_step ctx s r s2" "vm_run ctx s2 rs u"
    unfolding vm_run_simps by blast
  then show ?case using vm_step_deterministic [of ctx s r s1 s2] Cons.IH by blast
qed (simp add: vm_run_simps)

section \<open>Properties\<close>

text \<open>C9: Along every run of requests the address space keeps its invariant: its tables stay where they are,
  frames are only taken from the free ones, and every byte in a frame in use that is neither a table nor
  the allocator's bitmap keeps its value and stays protected; nothing else of the state changes but the
  record of flushed translations.\<close>

theorem vm_run_invariant:
  assumes "vm_run ctx s rs s'" and "aspace ctx root s"
  shows "aspace ctx root s' \<and>
         (\<forall>p t. valid_path p \<longrightarrow> tbl_of s root p = Some t \<longrightarrow> tbl_of s' root p = Some t) \<and>
         (\<forall>x. kept root s x \<longrightarrow> mem s' x = mem s x \<and> kept root s' x) \<and>
         free_frames s' \<subseteq> free_frames s \<and> s' = s\<lparr>mem := mem s', invlpgs := invlpgs s'\<rparr>"
  using vm_run_ok [OF assms] unfolding preserves_def evolves_def quiet_def by blast

theorem vm_run_invariant_witness:
  "\<exists>s'. vm_run 0 demo_virt [Frame, Unmap 0x400000 8192] s' \<and> aspace 0 demo_root s' \<and> free_frames s' \<subseteq> free_frames demo_virt"
proof -
  have "\<exists>v t. serve 0 Frame demo_virt = Inr (v, t) \<and> aspace 0 demo_root t"
    using serve_ok [OF demo_aspace, of Frame] by (auto simp: demo_budget)
  then obtain v t where t: "serve 0 Frame demo_virt = Inr (v, t)" "aspace 0 demo_root t" by blast
  obtain w u where u: "serve 0 (Unmap 0x400000 8192) t = Inr (w, u)"
    using serve_ok [OF t(2), of "Unmap 0x400000 8192"] by auto
  have "vm_run 0 demo_virt [Frame, Unmap 0x400000 8192] u"
    by (rule vm_run.step [OF vm_step.served [OF _ _ t(1)]], simp, simp add: demo_budget,
        rule vm_run.step [OF vm_step.served [OF _ _ u]], simp_all add: vm_run.stop)
  then show ?thesis using vm_run_invariant [OF _ demo_aspace] by blast
qed



end
