(* ===== verification/VmSpec.thy ===== *)
theory VmSpec
  imports VmRun Overlay
begin

text \<open>
  What the memory manager promises, without its tables: an address space is a function from addresses to
  entries and a set of free page frames. The operations of \<open>src/mem/virt.c\<close> implement this machine.
\<close>

section \<open>The abstract address space\<close>

record address_space =
  entries :: "u64 \<Rightarrow> u64"
  free_set :: "nat set"

text \<open>\<open>n\<close> pages from \<open>a\<close> on get new entries.\<close>

definition remap :: "u64 \<Rightarrow> nat \<Rightarrow> (nat \<Rightarrow> u64) \<Rightarrow> (u64 \<Rightarrow> u64) \<Rightarrow> u64 \<Rightarrow> u64" where
  "remap a n g V x = (if page_no a x < n then g (page_no a x) else V x)"

definition room :: "nat \<Rightarrow> (u64 \<Rightarrow> u64) \<Rightarrow> u64 \<Rightarrow> bool" where
  "room n V a \<longleftrightarrow> (\<forall>k<n. V (a + of_nat k * VIRT_PAGE_SIZE) = 0)"

text \<open>The lowest room at a page-stepped address between two limits.\<close>

definition first_room :: "u64 \<Rightarrow> u64 \<Rightarrow> nat \<Rightarrow> (u64 \<Rightarrow> u64) \<Rightarrow> u64 \<Rightarrow> bool" where
  "first_room start limit n V a \<longleftrightarrow>
     (\<exists>k. a = start + of_nat k * VIRT_PAGE_SIZE \<and> unat start + 4096 * k < unat limit \<and> room n V a \<and>
        (\<forall>j<k. \<not> room n V (start + of_nat j * VIRT_PAGE_SIZE)))"

definition no_room :: "u64 \<Rightarrow> u64 \<Rightarrow> nat \<Rightarrow> (u64 \<Rightarrow> u64) \<Rightarrow> bool" where
  "no_room start limit n V \<longleftrightarrow>
     (\<forall>k. unat start + 4096 * k < unat limit \<longrightarrow> \<not> room n V (start + of_nat k * VIRT_PAGE_SIZE))"

text \<open>Pages backed by frames that were free, each by one of its own.\<close>

definition backed_pages :: "u64 \<Rightarrow> nat \<Rightarrow> u64 \<Rightarrow> address_space \<Rightarrow> address_space \<Rightarrow> bool" where
  "backed_pages a n fl A B \<longleftrightarrow>
     (\<exists>f. inj_on f {..<n} \<and> f ` {..<n} \<subseteq> free_set A - free_set B \<and>
        entries B = remap a n (\<lambda>k. frame_addr (f k) OR fl) (entries A))"

text \<open>
  The requests, with their result. Tables may use up free frames, so that all that is said of these is that
  none becomes free. \<open>h\<close> is the start of the direct map.
\<close>

abbreviation pages_of :: "u64 \<Rightarrow> nat" where
  "pages_of len \<equiv> iters VIRT_PAGE_SIZE len"

inductive promise :: "u64 \<Rightarrow> address_space \<Rightarrow> vm_request \<Rightarrow> u64 \<Rightarrow> address_space \<Rightarrow> bool" for h A where
  Map: "entries B = remap virt (pages_of len) (\<lambda>k. (phys + of_nat k * VIRT_PAGE_SIZE) OR flags) (entries A) \<Longrightarrow>
    free_set B \<subseteq> free_set A \<Longrightarrow> promise h A (Map phys virt len flags) virt B"
| Map_user: "entries B = remap virt (pages_of len) (\<lambda>_. phys OR flags) (entries A) \<Longrightarrow>
    free_set B \<subseteq> free_set A \<Longrightarrow> promise h A (Map_user phys virt len flags) virt B"
| Unmap: "entries B = remap addr (pages_of len) (\<lambda>_. 0) (entries A) \<Longrightarrow>
    free_set B \<subseteq> free_set A \<Longrightarrow> promise h A (Unmap addr len) addr B"
| Map_anywhere: "first_room (h + VIRT_PAGE_SIZE) 0xffffffffffff0000 (pages_of len) (entries A) a \<Longrightarrow>
    entries B = remap a (pages_of len) (\<lambda>k. (phys + of_nat k * VIRT_PAGE_SIZE) OR flags) (entries A) \<Longrightarrow>
    free_set B \<subseteq> free_set A \<Longrightarrow> promise h A (Map_anywhere phys len flags) a B"
| Map_nowhere: "no_room (h + VIRT_PAGE_SIZE) 0xffffffffffff0000 (pages_of len) (entries A) \<Longrightarrow>
    promise h A (Map_anywhere phys len flags) 0 A"
| Alloc: "first_room (h + VIRT_PAGE_SIZE) 0xffffffffffff0000 (pages_of len) (entries A) a \<Longrightarrow>
    backed_pages a (pages_of len) (VF_PT_PRESENT OR VF_PT_WRITABLE) A B \<Longrightarrow>
    free_set B \<subseteq> free_set A \<Longrightarrow> promise h A (Alloc len) a B"
| Alloc_none: "no_room (h + VIRT_PAGE_SIZE) 0xffffffffffff0000 (pages_of len) (entries A) \<Longrightarrow>
    promise h A (Alloc len) 0 A"
| User_alloc: "first_room 0x100000 h (pages_of len) (entries A) a \<Longrightarrow>
    backed_pages a (pages_of len) (VF_PT_PRESENT OR VF_PT_USER OR VF_PT_WRITABLE) A B \<Longrightarrow>
    free_set B \<subseteq> free_set A \<Longrightarrow> promise h A (User_alloc len) a B"
| User_alloc_none: "no_room 0x100000 h (pages_of len) (entries A) \<Longrightarrow> promise h A (User_alloc len) 0 A"
| Frame: "f \<in> free_set A \<Longrightarrow> \<forall>g\<in>free_set A. f \<le> g \<Longrightarrow>
    promise h A Frame (frame_addr f) (A\<lparr>free_set := free_set A - {f}\<rparr>)"
| Frame_none: "free_set A = {} \<Longrightarrow> promise h A Frame 0 A"

inductive promises :: "u64 \<Rightarrow> address_space \<Rightarrow> vm_request list \<Rightarrow> address_space \<Rightarrow> bool" for h where
  stop: "promises h A [] A"
| step: "promise h A r v B \<Longrightarrow> promises h B rs C \<Longrightarrow> promises h A (r # rs) C"

section \<open>The implementation\<close>

definition abstract_space :: "u64 \<Rightarrow> 'z virt_scheme \<Rightarrow> address_space" where
  "abstract_space root s = \<lparr>entries = view root s, free_set = free_frames s\<rparr>"

lemma abstract_simps [simp]:
  "entries (abstract_space root s) = view root s" "free_set (abstract_space root s) = free_frames s"
  by (simp_all add: abstract_space_def)

lemma remap_eqI:
  assumes "n \<le> 2 ^ 36" and "\<And>x y. vpn x = vpn y \<Longrightarrow> V' x = V' y"
    and "\<And>k. k < n \<Longrightarrow> V' (a + of_nat k * VIRT_PAGE_SIZE) = g k"
    and "\<And>x. \<forall>k<n. vpn x \<noteq> vpn (a + of_nat k * VIRT_PAGE_SIZE) \<Longrightarrow> V' x = V x"
  shows "V' = remap a n g V"
proof
  fix x
  show "V' x = remap a n g V x"
  proof (cases "page_no a x < n")
    case True
    then have "vpn x = vpn (a + of_nat (page_no a x) * VIRT_PAGE_SIZE)"
      using page_no_eq [OF page_no_less [of a x], of x a] by simp
    then show ?thesis using assms(2) [of x] assms(3) [OF True] True by (simp add: remap_def)
  next
    case False
    have "vpn x \<noteq> vpn (a + of_nat k * VIRT_PAGE_SIZE)" if "k < n" for k
      using page_no_eq [of k x a] that False assms(1) by auto
    then have "\<forall>k<n. vpn x \<noteq> vpn (a + of_nat k * VIRT_PAGE_SIZE)" by blast
    then show ?thesis using assms(4) False by (simp add: remap_def)
  qed
qed

lemma unmapped_room: "unmapped_at root len s a \<longleftrightarrow> room (pages_of len) (view root s) a"
  by (simp add: unmapped_at_def room_def)

lemma preserves_frees: "preserves root s s' \<Longrightarrow> free_frames s' \<subseteq> free_frames s"
  by (auto simp: preserves_def evolves_def)

lemma alloc_promise:
  assumes "unat len \<le> 2 ^ 48" and "alloc_outcome root fl len start limit s a s'" and "preserves root s s'"
  shows "first_room start limit (pages_of len) (view root s) a \<and>
           backed_pages a (pages_of len) fl (abstract_space root s) (abstract_space root s') \<or>
         no_room start limit (pages_of len) (view root s) \<and> a = 0 \<and> s' = s"
proof (cases "a = 0 \<and> s' = s \<and> no_room start limit (pages_of len) (view root s)")
  case False
  let ?pg = "\<lambda>k. a + of_nat k * VIRT_PAGE_SIZE"
  from assms(2) False have first: "first_room start limit (pages_of len) (view root s) a"
    and b: "\<forall>j<pages_of len. \<exists>f\<in>free_frames s - free_frames s'. view root s' (?pg j) = frame_addr f OR fl"
      "\<forall>i<pages_of len. \<forall>j<pages_of len. view root s' (?pg i) = view root s' (?pg j) \<longrightarrow> i = j"
      "\<forall>x. (\<forall>j<pages_of len. vpn x \<noteq> vpn (?pg j)) \<longrightarrow> view root s' x = view root s x"
    unfolding alloc_outcome_def Let_def unmapped_room first_room_def no_room_def by blast+
  from b(1) obtain f where f: "\<And>j. j < pages_of len \<Longrightarrow> f j \<in> free_frames s - free_frames s'"
      "\<And>j. j < pages_of len \<Longrightarrow> view root s' (?pg j) = frame_addr (f j) OR fl" by metis
  have "inj_on f {..<pages_of len}" using b(2) f(2) by (auto intro!: inj_onI)
  moreover have "view root s' = remap a (pages_of len) (\<lambda>k. frame_addr (f k) OR fl) (view root s)"
    by (rule remap_eqI [OF iters_page_small(1) [OF assms(1)]]) (erule view_cong, erule f(2), use b(3) in blast)
  ultimately have "backed_pages a (pages_of len) fl (abstract_space root s) (abstract_space root s')"
    using f(1) unfolding backed_pages_def by (intro exI [of _ f]) auto
  then show ?thesis using first by blast
qed blast

lemma remap_view:
  assumes "unat len \<le> 2 ^ 48"
    and "\<forall>k<pages_of len. view root s' (a + of_nat k * VIRT_PAGE_SIZE) = g k"
    and "\<forall>x. (\<forall>k<pages_of len. vpn x \<noteq> vpn (a + of_nat k * VIRT_PAGE_SIZE)) \<longrightarrow> view root s' x = view root s x"
  shows "view root s' = remap a (pages_of len) g (view root s)"
  by (rule remap_eqI [OF iters_page_small(1) [OF assms(1)]]) (erule view_cong, use assms(2,3) in blast, use assms(3) in blast)

text \<open>Each operation keeps its promise.\<close>

lemma map_promise:
  assumes "unat len \<le> 2 ^ 48" and "map_loop.passed ctx root virt phys flags VIRT_PAGE_SIZE (pages_of len) s s'"
  shows "promise h (abstract_space root s) (Map phys virt len flags) virt (abstract_space root s')"
proof (rule promise.Map)
  show "entries (abstract_space root s') =
      remap virt (pages_of len) (\<lambda>k. (phys + of_nat k * VIRT_PAGE_SIZE) OR flags) (entries (abstract_space root s))"
    unfolding abstract_simps by (rule remap_view [OF assms(1)]) (use assms(2) in \<open>simp_all add: map_loop.passed_def\<close>)
qed (use assms(2) preserves_frees in \<open>auto simp: map_loop.passed_def\<close>)

lemma map_user_promise:
  assumes "unat len \<le> 2 ^ 48" and "map_user_loop.passed ctx root virt phys flags VIRT_PAGE_SIZE (pages_of len) s s'"
  shows "promise h (abstract_space root s) (Map_user phys virt len flags) virt (abstract_space root s')"
proof (rule promise.Map_user)
  show "entries (abstract_space root s') =
      remap virt (pages_of len) (\<lambda>_. phys OR flags) (entries (abstract_space root s))"
    unfolding abstract_simps by (rule remap_view [OF assms(1)]) (use assms(2) in \<open>simp_all add: map_user_loop.passed_def\<close>)
qed (use assms(2) preserves_frees in \<open>auto simp: map_user_loop.passed_def\<close>)

lemma unmap_promise:
  assumes "unat len \<le> 2 ^ 48" and "unmap_loop.passed ctx root addr VIRT_PAGE_SIZE (pages_of len) s s'"
  shows "promise h (abstract_space root s) (Unmap addr len) addr (abstract_space root s')"
proof (rule promise.Unmap)
  show "entries (abstract_space root s') = remap addr (pages_of len) (\<lambda>_. 0) (entries (abstract_space root s))"
    unfolding abstract_simps by (rule remap_view [OF assms(1)]) (use assms(2) in \<open>simp_all add: unmap_loop.passed_def\<close>)
qed (use assms(2) preserves_frees in \<open>auto simp: unmap_loop.passed_def\<close>)

lemma frame_promise:
  assumes "vm_inv root s" and "phys_alloc s = (v, s')"
  shows "promise h (abstract_space root s) Frame v (abstract_space root s')"
  using vm_invD(2) [OF assms(1)]
proof (cases rule: phys_alloc_cases)
  case (frame f)
  have "f < 2 ^ 52" using frame_bound [OF vm_invD(2) [OF assms(1)] frame(1)] by simp
  then have "abstract_space root s' = (abstract_space root s)\<lparr>free_set := free_frames s - {f}\<rparr>"
    using assms(2) frame(4) mark_used_step(2) [OF assms(1) frame(1,2)] free_frames_mark [OF vm_invD(2) [OF assms(1)]]
    by (auto simp: abstract_space_def)
  moreover have "f \<in> free_frames s" "\<forall>g\<in>free_frames s. f \<le> g"
    using frame(1-3) by (auto simp: free_frames_def not_less [symmetric])
  ultimately show ?thesis using promise.Frame [of f "abstract_space root s" h] assms(2) frame(4) by auto
next
  case full
  then have "free_frames s = {}" by (auto simp: free_frames_def)
  then show ?thesis using promise.Frame_none [of "abstract_space root s" h] assms(2) full by auto
qed

lemma serve_promise:
  assumes s: "aspace ctx root s" and r: "admissible r" "cost r \<le> budget s" and run: "serve ctx r s = Inr (v, s')"
  shows "promise (s_virt_hhdm_offset s) (abstract_space root s) r v (abstract_space root s')"
proof (cases r)
  case (Map phys virt len flags)
  with r have pre: "unat len \<le> 2 ^ 48" "max_tables (pages_of len) \<le> budget s" by simp_all
  show ?thesis
    by (rule map_range [OF s pre, where phys = phys and virt = virt and flags = flags])
      (use run r(1) Map map_promise [OF pre(1)] in \<open>auto simp: virt_map_def\<close>)
next
  case (Map_user phys virt len flags)
  with r have pre: "unat len \<le> 2 ^ 48" "max_tables (pages_of len) \<le> budget s" by simp_all
  show ?thesis
    by (rule map_user_range [OF s pre, where phys = phys and virt = virt and flags = flags])
      (use run r(1) Map_user map_user_promise [OF pre(1)] in \<open>auto simp: virt_map_user_def\<close>)
next
  case (Unmap addr len)
  with r have pre: "unat len \<le> 2 ^ 48" by simp
  show ?thesis
    by (rule unmap_range [OF s pre, where addr = addr]) (use run Unmap unmap_promise [OF pre] in auto)
next
  case (Map_anywhere phys len flags)
  with r have pre: "unat len \<le> 2 ^ 48" "max_tables (pages_of len) \<le> budget s" by simp_all
  let ?start = "s_virt_hhdm_offset s + VIRT_PAGE_SIZE" and ?V = "view root s"
  from map_anywhere_spec [OF s pre, of phys flags] run Map_anywhere
  have "preserves root s s'"
    and "first_room ?start 0xffffffffffff0000 (pages_of len) ?V v \<and>
           view root s' = remap v (pages_of len) (\<lambda>k. (phys + of_nat k * VIRT_PAGE_SIZE) OR flags) ?V \<or>
         no_room ?start 0xffffffffffff0000 (pages_of len) ?V \<and> v = 0 \<and> s' = s"
    unfolding first_room_def no_room_def unmapped_room [symmetric]
    by (auto intro!: remap_view [OF pre(1)])
  then show ?thesis
    unfolding Map_anywhere abstract_simps [of root s, symmetric] abstract_simps [of root s', symmetric]
    by (elim disjE conjE) (rule promise.Map_anywhere, assumption+, simp add: preserves_frees, simp add: promise.Map_nowhere)
next
  case (Alloc len)
  with r have pre: "unat len \<le> 2 ^ 48" "alloc_frames (pages_of len) \<le> budget s" by simp_all
  from virt_alloc_spec [OF s pre] run Alloc
  have "alloc_outcome root (VF_PT_PRESENT OR VF_PT_WRITABLE) len (s_virt_hhdm_offset s + VIRT_PAGE_SIZE) 0xffffffffffff0000 s v s'"
    and p: "preserves root s s'" by auto
  from alloc_promise [OF pre(1) this] show ?thesis
    unfolding Alloc abstract_simps [of root s, symmetric]
    by (elim disjE conjE) (rule promise.Alloc, assumption+, simp add: preserves_frees [OF p], simp add: promise.Alloc_none)
next
  case (User_alloc len)
  with r have pre: "unat len \<le> 2 ^ 48" "alloc_frames (pages_of len) \<le> budget s" by simp_all
  from virt_user_alloc_spec [OF s pre] run User_alloc
  have "alloc_outcome root (VF_PT_PRESENT OR VF_PT_USER OR VF_PT_WRITABLE) len 0x100000 (s_virt_hhdm_offset s) s v s'"
    and p: "preserves root s s'" by auto
  from alloc_promise [OF pre(1) this] show ?thesis
    unfolding User_alloc abstract_simps [of root s, symmetric]
    by (elim disjE conjE) (rule promise.User_alloc, assumption+, simp add: preserves_frees [OF p], simp add: promise.User_alloc_none)
next
  case Frame
  then show ?thesis using run s frame_promise by (auto simp: aspace_def)
qed

lemma vm_run_promises:
  "vm_run ctx s rs s' \<Longrightarrow> aspace ctx root s \<Longrightarrow>
     promises (s_virt_hhdm_offset s) (abstract_space root s) rs (abstract_space root s')"
proof (induction rule: vm_run.induct)
  case (stop s)
  show ?case by (rule promises.stop)
next
  case (step s r t rs u)
  obtain v where v: "admissible r" "cost r \<le> budget s" "serve ctx r s = Inr (v, t)"
    using step.hyps(1) by (rule vm_stepE)
  note t = vm_step_ok [OF step.hyps(1) step.prems]
  have "s_virt_hhdm_offset t = s_virt_hhdm_offset s"
    using t(2) quiet_fields(5) [of s t] by (auto simp: preserves_def evolves_def)
  then show ?case
    using promises.step [OF serve_promise [OF step.prems v]] step.IH [OF t(1)] by simp
qed

section \<open>Properties\<close>

text \<open>C11: The memory manager refines the abstract address space: every run of requests on the page tables is
  a run of the abstract machine between the translations and the sets of free frames that the memory
  stands for at its two ends, and each request gives a result the machine promises: ranges remapped
  exactly, the lowest room found or truly none, allocated pages backed by distinct frames that were free,
  the lowest free frame handed out.\<close>

theorem vm_run_refines:
  assumes "vm_run ctx s rs s'" and "aspace ctx root s"
  shows "promises (s_virt_hhdm_offset s) (abstract_space root s) rs (abstract_space root s')"
  by (rule vm_run_promises [OF assms])

inductive_cases promises_consE: "promises h A (r # rs) C"
inductive_cases promises_nilE: "promises h A [] C"
inductive_cases promise_MapE: "promise h A (Map phys virt len flags) v B"

theorem vm_run_refines_witness:
  "\<exists>s'. vm_run 0 demo_virt [Map 0x5000 0x400000 8192 3] s' \<and>
     view demo_root s' = remap 0x400000 2 (\<lambda>k. (0x5000 + of_nat k * 0x1000) OR 3) (\<lambda>_. 0)"
proof -
  let ?r = "Map 0x5000 0x400000 8192 3"
  have ok: "admissible ?r" "cost ?r \<le> budget demo_virt"
    by (simp_all add: demo_budget iters_two max_tables_def VF_PD_BIG_PAGE_def)
  then obtain v u where u: "serve 0 ?r demo_virt = Inr (v, u)" using serve_ok [OF demo_aspace] by blast
  have run: "vm_run 0 demo_virt [?r] u" by (rule vm_run.step [OF vm_step.served [OF ok u] vm_run.stop])
  have "view demo_root demo_virt = (\<lambda>_. 0)" by (simp add: fun_eq_iff)
  then have "view demo_root u = remap 0x400000 2 (\<lambda>k. (0x5000 + of_nat k * 0x1000) OR 3) (\<lambda>_. 0)"
    using vm_run_refines [OF run demo_aspace]
    by (auto elim!: promises_consE promises_nilE promise_MapE simp: iters_two) (simp add: VIRT_PAGE_SIZE_def)
  then show ?thesis using run by blast
qed

end
