(* ===== verification/Tlb.thy ===== *)
theory Tlb
  imports VmRun Mmu
begin

text \<open>
  The translation look-aside buffer of the processor, which may hold entries of the page tables after
  they were changed until \<open>invlpg\<close> drops them. The operations of \<open>src/mem/virt.c\<close> on the active address space (\<open>ctx\<close>
  is \<open>NULL\<close>) flush the pages whose translation they change.
\<close>

section \<open>What an operation has to flush\<close>






section \<open>The loops flush\<close>











section \<open>Requests flush\<close>




section \<open>The buffer\<close>









section \<open>Properties\<close>



end
