(* ===== verification/IdtAsm.thy ===== *)
theory IdtAsm
  imports Idt
begin

text \<open>
  \<open>src/int/idt.asm\<close>: the stubs around \<open>idt_int_handler\<close>. The
  stack lies in memory and grows downwards; the processor has pushed \<open>ss\<close>, \<open>rsp\<close>, \<open>rflags\<close>, \<open>cs\<close>, \<open>rip\<close> and,
  for some vectors, an error code.
\<close>

section \<open>The stubs\<close>

record cpu =
  rax :: u64
  rbx :: u64
  rcx :: u64
  rdx :: u64
  rsi :: u64
  rdi :: u64
  rbp :: u64
  r8 :: u64
  r9 :: u64
  r10 :: u64
  r11 :: u64
  r12 :: u64
  r13 :: u64
  r14 :: u64
  r15 :: u64
  rsp :: u64
  stack :: mem

definition push :: "u64 \<Rightarrow> cpu \<Rightarrow> cpu" where
  "push v c = c\<lparr>rsp := rsp c - 8, stack := store64 (stack c) (rsp c - 8) v\<rparr>"







section \<open>Values on the stack\<close>





lemma push_simps [simp]:
  "rax (push v c) = rax c" "rbx (push v c) = rbx c" "rcx (push v c) = rcx c" "rdx (push v c) = rdx c"
  "rsi (push v c) = rsi c" "rdi (push v c) = rdi c" "rbp (push v c) = rbp c" "r8 (push v c) = r8 c"
  "r9 (push v c) = r9 c" "r10 (push v c) = r10 c" "r11 (push v c) = r11 c" "r12 (push v c) = r12 c"
  "r13 (push v c) = r13 c" "r14 (push v c) = r14 c" "r15 (push v c) = r15 c" "rsp (push v c) = rsp c - 8"
  by (simp_all add: push_def)

lemma stack_push [simp]: "stack (push v c) = store64 (stack c) (rsp c - 8) v"
  by (simp add: push_def)





lemma saved_regs [simp]:
  "rsp (c\<lparr>rbp := v, rdi := w\<rparr>) = rsp c" "stack (c\<lparr>rbp := v, rdi := w\<rparr>) = stack c"
  by simp_all








section \<open>Properties\<close>





end
