(* ===== verification/StacktraceProps.thy ===== *)
theory StacktraceProps
  imports Stacktrace Idt
begin

text \<open>
  The properties of \<open>src/debug/stacktrace.c\<close>: the parser of addresses, the look-up in the symbol map,
  and that a trace ends whatever the stack holds.
\<close>

section \<open>Strings in memory, byte by byte\<close>

lemma cstr_iff:
  "cstr m p cs \<longleftrightarrow> (\<forall>i<length cs. m (p + of_nat i) = cs ! i) \<and> 0 \<notin> set cs \<and> m (p + of_nat (length cs)) = 0"
proof (induction cs arbitrary: p)
  case (Cons c cs)
  have "(\<forall>i<Suc (length cs). m (p + of_nat i) = (c # cs) ! i) \<longleftrightarrow>
      m p = c \<and> (\<forall>i<length cs. m (p + 1 + of_nat i) = cs ! i)"
    by (auto simp: less_Suc_eq_0_disj algebra_simps)
  then show ?case by (auto simp: Cons.IH algebra_simps)
qed simp

lemma cstr_append:
  "cstr m p (xs @ ys) \<longleftrightarrow> (\<forall>i<length xs. m (p + of_nat i) = xs ! i) \<and> 0 \<notin> set xs \<and> cstr m (p + of_nat (length xs)) ys"
  by (induction xs arbitrary: p) (auto simp: less_Suc_eq_0_disj algebra_simps)

text \<open>A range of bytes outside the 64 bytes of a buffer, and memories that agree outside of it.\<close>

definition off_buffer :: "u64 \<Rightarrow> u64 \<Rightarrow> nat \<Rightarrow> bool" where
  "off_buffer fn p n \<longleftrightarrow> (\<forall>j\<le>n. 64 \<le> unat (p + of_nat j - fn))"

definition same_off :: "u64 \<Rightarrow> mem \<Rightarrow> mem \<Rightarrow> bool" where
  "same_off fn m m' \<longleftrightarrow> (\<forall>a. 64 \<le> unat (a - fn) \<longrightarrow> m' a = m a)"

lemma same_off_refl [simp]: "same_off fn m m"
  by (simp add: same_off_def)

lemma same_off_trans: "same_off fn m m' \<Longrightarrow> same_off fn m' m'' \<Longrightarrow> same_off fn m m''"
  by (simp add: same_off_def)

lemma cstr_same_off: "cstr m p cs \<Longrightarrow> same_off fn m m' \<Longrightarrow> off_buffer fn p (length cs) \<Longrightarrow> cstr m' p cs"
  by (auto simp: cstr_iff same_off_def off_buffer_def)

lemma off_buffer_sub:
  "off_buffer fn p n \<Longrightarrow> k + l \<le> n \<Longrightarrow> off_buffer fn (p + of_nat k) l"
proof -
  assume o: "off_buffer fn p n" and k: "k + l \<le> n"
  have "64 \<le> unat (p + of_nat (k + j) - fn)" if "j \<le> l" for j
    using o k that unfolding off_buffer_def by (auto dest!: spec [of _ "k + j"])
  then show ?thesis by (simp add: off_buffer_def add_ac)
qed

lemma put_bytes_same_off: "length bs \<le> 64 \<Longrightarrow> same_off fn m (put_bytes m fn bs)"
  by (simp add: same_off_def put_bytes_def)

section \<open>Numbers\<close>

definition number_of_digits :: "u8 list \<Rightarrow> u64" where
  "number_of_digits ds = fold (\<lambda>c n. add_digit c (push_bit 4 n)) ds 0"

lemma pointer_to_number_digits:
  assumes "length ds = 16" and "\<And>i. i < 16 \<Longrightarrow> m (p + of_nat i) = ds ! i"
  shows "s_pointer_to_number m p = number_of_digits ds"
proof -
  have "ds = map (\<lambda>i. m (p + of_nat i)) [0..<16]"
    using assms by (intro nth_equalityI) simp_all
  then show ?thesis by (simp add: s_pointer_to_number_def number_of_digits_def fold_map comp_def)
qed

text \<open>The digit of a value below 16, in upper or lower case.\<close>

definition hex_char :: "bool \<Rightarrow> u8 \<Rightarrow> u8" where
  "hex_char upper d = (if d < 10 then 0x30 + d else if upper then 0x37 + d else 0x57 + d)"

definition nibble :: "u64 \<Rightarrow> nat \<Rightarrow> u8" where
  "nibble n i = ucast (take_bit 4 (drop_bit (60 - 4 * i) n))"

lemma add_digit_hex:
  assumes "unat d < 16"
  shows "add_digit (hex_char upper d) x = x + ucast d"
proof -
  have u: "unat (c + d) = unat c + unat d" if "unat c < 240" for c :: u8
    using that assms by (simp add: unat_word_ariths)
  show ?thesis
  proof (cases "d < 10")
    case True
    then have "unat d < 10" by (simp add: word_less_nat_alt)
    then show ?thesis using True by (simp add: hex_char_def add_digit_def word_le_nat_alt u)
  next
    case False
    then have d: "10 \<le> unat d" by (simp add: word_less_nat_alt)
    then have "unat (d - 10) = unat d - 10" by (simp add: unat_sub_if')
    then have "ucast (d - 10) + 10 = (ucast d :: u64)"
      using d assms by (simp add: word_unat_eq_iff unat_word_ariths unat_ucast_u64)
    then show ?thesis
      using False d assms by (cases upper) (simp_all add: hex_char_def add_digit_def word_le_nat_alt u)
  qed
qed

lemma digits_step:
  assumes "k < 16"
  shows "push_bit 4 (drop_bit (64 - 4 * k) n) + ucast (nibble n k) = (drop_bit (60 - 4 * k) n :: u64)"
proof -
  let ?x = "drop_bit (60 - 4 * k) n"
  have "drop_bit (64 - 4 * k) n = drop_bit 4 ?x" using assms by (simp add: drop_bit_drop_bit)
  moreover have "ucast (nibble n k) = take_bit 4 ?x"
    unfolding nibble_def by (intro bit_word_eqI) (auto simp: bit_ucast_iff bit_take_bit_iff)
  moreover have "push_bit 4 (drop_bit 4 ?x) + take_bit 4 ?x = ?x" by (rule bits_ident)
  ultimately show ?thesis by simp
qed


section \<open>The symbol map\<close>

text \<open>A line: the digits of an address, a separator, a name.\<close>

record map_line =
  ml_digits :: "u8 list"
  ml_sep :: u8
  ml_name :: "u8 list"

definition line_bytes :: "map_line \<Rightarrow> u8 list" where
  "line_bytes l = ml_digits l @ ml_sep l # ml_name l @ [10]"

definition line_wf :: "map_line \<Rightarrow> bool" where
  "line_wf l \<longleftrightarrow> length (ml_digits l) = 16 \<and> {0, 10} \<inter> (set (ml_digits l) \<union> {ml_sep l} \<union> set (ml_name l)) = {}"

definition map_text :: "map_line list \<Rightarrow> u8 list" where
  "map_text ls = concat (map line_bytes ls)"

lemma map_text_simps [simp]: "map_text [] = []" "map_text (l # ls) = line_bytes l @ map_text ls"
  by (simp_all add: map_text_def)

definition line_addr :: "map_line \<Rightarrow> u64" where
  "line_addr l = number_of_digits (ml_digits l)"

text \<open>The name of the last line before the first address beyond the one looked up.\<close>

definition symbol_name :: "u64 \<Rightarrow> map_line list \<Rightarrow> u8 list option" where
  "symbol_name ret ls =
     (case takeWhile (\<lambda>l. line_addr l \<le> ret) ls of [] \<Rightarrow> None | l # ls' \<Rightarrow> Some (take 63 (ml_name (last (l # ls')))))"

lemma line_length: "line_wf l \<Longrightarrow> length (line_bytes l) = length (ml_name l) + 18"
  by (simp add: line_wf_def line_bytes_def)

text \<open>What the walk reads and writes on one line.\<close>

lemma line_read:
  assumes l: "line_wf l" and c: "cstr m p (line_bytes l @ rest)"
  shows "strchr m p 10 = Some (p + of_nat (17 + length (ml_name l)))"
    and "s_pointer_to_number m p = line_addr l"
proof -
  have no: "10 \<notin> set (ml_digits l @ ml_sep l # ml_name l)" and len: "length (ml_digits l) = 16"
    using l by (auto simp: line_wf_def)
  have "takeWhile (\<lambda>c. c \<noteq> 10) ((ml_digits l @ ml_sep l # ml_name l) @ 10 # rest) =
      (ml_digits l @ ml_sep l # ml_name l) @ takeWhile (\<lambda>c. c \<noteq> 10) (10 # rest)"
    by (rule takeWhile_append2) (use no in auto)
  then have "length (takeWhile (\<lambda>c. c \<noteq> 10) (line_bytes l @ rest)) = 17 + length (ml_name l)"
    using len by (simp add: line_bytes_def)
  moreover have "10 \<in> set (line_bytes l @ rest)" by (simp add: line_bytes_def)
  ultimately show "strchr m p 10 = Some (p + of_nat (17 + length (ml_name l)))"
    unfolding strchr_cstr [OF c] by simp
  show "s_pointer_to_number m p = line_addr l"
    unfolding line_addr_def
    by (rule pointer_to_number_digits) (use c len in \<open>simp_all add: line_bytes_def cstr_append\<close>)
qed

lemma line_write:
  assumes l: "line_wf l" and c: "cstr m p (line_bytes l @ rest)"
    and off: "off_buffer fn p (length (line_bytes l @ rest))" and short: "length (line_bytes l @ rest) < 2 ^ 63"
  defines "e \<equiv> p + of_nat (17 + length (ml_name l))"
  shows "(strncpy fn (p + 17) 63 (m(e := 0)))(e := 10) = put_bytes m fn (take 63 (ml_name l) @ [0])"
proof -
  let ?n = "ml_name l"
  have inj: "of_nat i \<noteq> (of_nat j :: u64)" if "i < j" "j < 2 ^ 63" for i j
    using that by (simp add: word_unat_eq_iff unat_of_nat)
  have "cstr m p (((ml_digits l @ [ml_sep l]) @ ?n) @ 10 # rest)" using c by (simp add: line_bytes_def)
  then have bytes: "\<forall>i<17 + length ?n. m (p + of_nat i) = ((ml_digits l @ [ml_sep l]) @ ?n) ! i"
    and e10: "m e = 10"
    using l unfolding cstr_append [of _ _ _ "10 # rest"] by (auto simp: line_wf_def e_def algebra_simps)
  have nb: "m (p + 17 + of_nat i) = ?n ! i" if "i < length ?n" for i
    using bytes [rule_format, of "17 + i"] that l by (simp add: line_wf_def nth_append algebra_simps)
  have src: "cstr (m(e := 0)) (p + 17) ?n"
    unfolding cstr_iff
  proof (intro conjI allI impI)
    fix i assume i: "i < length ?n"
    have "p + 17 + of_nat i \<noteq> e"
      using inj [of "17 + i" "17 + length ?n"] i short line_length [OF l] by (simp add: e_def algebra_simps)
    then show "(m(e := 0)) (p + 17 + of_nat i) = ?n ! i" using nb [OF i] by simp
  next
    show "0 \<notin> set ?n" using l by (auto simp: line_wf_def)
    show "(m(e := 0)) (p + 17 + of_nat (length ?n)) = 0" by (simp add: e_def algebra_simps)
  qed
  have off17: "off_buffer fn (p + of_nat 17) (length ?n)"
    by (rule off_buffer_sub [OF off]) (use line_length [OF l] in simp)
  have "strncpy fn (p + 17) 63 (m(e := 0)) = put_bytes (m(e := 0)) fn (take (unat (63 :: u64)) ?n @ [0])"
  proof (rule strncpy_cstr [OF src])
    show "length ?n < 2 ^ 64" using short line_length [OF l] by simp
    fix j k :: nat assume jk: "j \<le> min (unat (63 :: u64)) (length ?n)" "k \<le> length ?n"
    have "64 \<le> unat (p + 17 + of_nat k - fn)" using off17 jk(2) by (simp add: off_buffer_def)
    moreover have "unat (fn + of_nat j - fn) < 64" using jk(1) by (simp add: unat_of_nat)
    ultimately show "fn + of_nat j \<noteq> p + 17 + of_nat k" by (metis not_le)
  qed
  moreover have "(put_bytes (m(e := 0)) fn bs)(e := 10) = put_bytes m fn bs" if "length bs \<le> 64" for bs
  proof -
    have "64 \<le> unat (e - fn)" using off line_length [OF l]
      by (auto simp: off_buffer_def e_def dest!: spec [of _ "17 + length (ml_name l)"])
    then show ?thesis using that e10 by (auto simp: put_bytes_def fun_eq_iff)
  qed
  ultimately show ?thesis by simp
qed


lemma strchr_end: "cstr m p [] \<Longrightarrow> strchr m p ch = Some 0"
  using strchr_cstr [of m p "[]"] by simp

lemma sless_of_nat:
  assumes "i < 2 ^ 63" and "j < 2 ^ 63"
  shows "(of_nat i :: u64) <s of_nat j \<longleftrightarrow> i < j"
proof -
  have "sint (of_nat k :: u64) = int k" if "k < 2 ^ 63" for k
    using that by (simp add: sint_uint uint_nat unat_of_nat signed_take_bit_int_eq_self)
  then show ?thesis using assms by (simp add: word_sless_alt)
qed

text \<open>One round of the loop, and the loop: it leaves the name of the right line in the buffer and
  nothing else changed.\<close>

lemma symbol_loop_line:
  assumes l: "line_wf l" and c: "cstr m (data + of_nat done) (line_bytes l @ rest)"
    and off: "off_buffer fn (data + of_nat done) (length (line_bytes l @ rest))"
    and sz: "sz = of_nat (done + length (line_bytes l @ rest))" "done + length (line_bytes l @ rest) < 2 ^ 63"
    and data: "0 < unat data" "unat data + (done + length (line_bytes l @ rest)) < 2 ^ 64"
  shows "symbol_loop fn ret data sz (data + of_nat done) m =
     (if ret < line_addr l then Some (Some m)
      else symbol_loop fn ret data sz (data + of_nat (done + length (line_bytes l)))
             (put_bytes m fn (take 63 (ml_name l) @ [0])))"
proof -
  let ?p = "data + of_nat done" and ?e = "data + of_nat (done + 17 + length (ml_name l))"
  note len = line_length [OF l]
  have e: "?p + of_nat (17 + length (ml_name l)) = ?e" by (simp add: add.assoc)
  have e1: "?e + 1 = data + of_nat (done + length (line_bytes l))" by (simp add: len algebra_simps)
  have nz: "data + of_nat j \<noteq> 0" if "j \<le> done + length (line_bytes l @ rest)" for j
  proof -
    have "unat (data + of_nat j) = unat data + j"
      using that data(2) by (subst unat_add_no_wrap) (simp_all add: unat_of_nat)
    then show ?thesis using data(1) by (metis add_is_0 unat_0 less_numeral_extra(3))
  qed
  have "10 <s ?e - data" using sless_of_nat [of 10 "done + 17 + length (ml_name l)"] sz(2) len by simp
  moreover have "of_nat done <s sz \<longleftrightarrow> done < done + length (line_bytes l @ rest)"
    unfolding sz(1) by (rule sless_of_nat) (use sz(2) in simp_all)
  then have "?p - data <s sz" using len by simp
  moreover have "?p \<noteq> 0" "?e \<noteq> 0" using nz [of "done"] nz [of "done + 17 + length (ml_name l)"] len by simp_all
  moreover note line_read [OF l c, unfolded e]
  moreover have "(strncpy fn (?p + 17) 63 (m(?e := 0)))(?e := 10) = put_bytes m fn (take 63 (ml_name l) @ [0])"
    by (rule line_write [OF l c off, unfolded e]) (use sz(2) in simp)
  ultimately show ?thesis unfolding e1 [symmetric] by (subst symbol_loop.simps) (simp add: Let_def)
qed

lemma symbol_loop_lines:
  assumes "\<forall>l\<in>set ls. line_wf l" and "cstr m (data + of_nat done) (map_text ls)"
    and "off_buffer fn (data + of_nat done) (length (map_text ls))"
    and "sz = of_nat (done + length (map_text ls))" and "done + length (map_text ls) < 2 ^ 63"
    and "0 < unat data" and "unat data + (done + length (map_text ls)) < 2 ^ 64"
  shows "\<exists>m'. symbol_loop fn ret data sz (data + of_nat done) m = Some (Some m') \<and> same_off fn m m' \<and>
           (case symbol_name ret ls of None \<Rightarrow> m' = m | Some name \<Rightarrow> cstr m' fn name)"
  using assms(1-5,7)
proof (induction ls arbitrary: m "done")
  case Nil
  then have "\<not> of_nat done <s sz" using Nil by (simp add: sless_of_nat)
  then show ?case using Nil by (subst symbol_loop.simps) (simp add: strchr_end symbol_name_def)
next
  case (Cons l ls)
  have l: "line_wf l" and c: "cstr m (data + of_nat done) (line_bytes l @ map_text ls)" using Cons.prems by simp_all
  let ?d = "done + length (line_bytes l)" and ?m = "put_bytes m fn (take 63 (ml_name l) @ [0])"
  have run: "symbol_loop fn ret data sz (data + of_nat done) m =
      (if ret < line_addr l then Some (Some m) else symbol_loop fn ret data sz (data + of_nat ?d) ?m)"
    by (rule symbol_loop_line [OF l c]) (use Cons.prems(3-6) assms(6) in simp_all)
  show ?case
  proof (cases "line_addr l \<le> ret")
    case False
    then have "ret < line_addr l" by simp
    then show ?thesis using False by (simp add: run symbol_name_def)
  next
    case True
    have s: "same_off fn m ?m" by (rule put_bytes_same_off) simp
    have "cstr m (data + of_nat ?d) (map_text ls)" using c by (simp add: cstr_append add.assoc)
    moreover have o: "off_buffer fn (data + of_nat ?d) (length (map_text ls))"
      using off_buffer_sub [OF Cons.prems(3), of "length (line_bytes l)" "length (map_text ls)"] by (simp add: add.assoc)
    ultimately have "cstr ?m (data + of_nat ?d) (map_text ls)" by (rule cstr_same_off [OF _ s])
    then obtain m' where m': "symbol_loop fn ret data sz (data + of_nat ?d) ?m = Some (Some m')" "same_off fn ?m m'"
        "case symbol_name ret ls of None \<Rightarrow> m' = ?m | Some name \<Rightarrow> cstr m' fn name"
      using Cons.IH [of ?m ?d] Cons.prems o by (auto simp: add.assoc)
    have name: "cstr ?m fn (take 63 (ml_name l))"
      by (rule cstr_put_bytes) (use l in \<open>auto simp: line_wf_def dest: in_set_takeD\<close>)
    have "symbol_name ret (l # ls) = (case symbol_name ret ls of None \<Rightarrow> Some (take 63 (ml_name l)) | Some x \<Rightarrow> Some x)"
      using True by (simp add: symbol_name_def split: list.split)
    then show ?thesis
      using True m' name same_off_trans [OF s m'(2)] unfolding run by (auto split: option.splits)
  qed
qed

section \<open>A kernel with a symbol map\<close>

definition bytes_of :: "string \<Rightarrow> u8 list" where
  "bytes_of str = map (\<lambda>c. of_nat (of_char c)) str"

definition handler_name :: "u8 list" where
  "handler_name = bytes_of ''idt_common_handler''"

definition map_label :: "u8 list" where
  "map_label = bytes_of ''debug symbol map''"

text \<open>A string that is not empty and does not overlap the buffer.\<close>

definition string_at :: "u64 \<Rightarrow> mem \<Rightarrow> u64 \<Rightarrow> u8 list \<Rightarrow> bool" where
  "string_at fn m p cs \<longleftrightarrow> cs \<noteq> [] \<and> cstr m p cs \<and> off_buffer fn p (length cs)"

lemma string_at_same_off: "string_at fn m p cs \<Longrightarrow> same_off fn m m' \<Longrightarrow> string_at fn m' p cs"
  using cstr_same_off by (auto simp: string_at_def)

definition map_file :: "u64 \<Rightarrow> mem \<Rightarrow> limine_file \<Rightarrow> map_line list \<Rightarrow> bool" where
  "map_file fn m f ls \<longleftrightarrow>
     (\<forall>l\<in>set ls. line_wf l) \<and> cstr m (lf_address f) (map_text ls) \<and> off_buffer fn (lf_address f) (length (map_text ls)) \<and>
     lf_size f = of_nat (length (map_text ls)) \<and> length (map_text ls) < 2 ^ 63 \<and>
     0 < unat (lf_address f) \<and> unat (lf_address f) + length (map_text ls) < 2 ^ 64"

definition map_loaded :: "symbols \<Rightarrow> boot_info \<Rightarrow> map_line list \<Rightarrow> mem \<Rightarrow> bool" where
  "map_loaded sy b ls m \<longleftrightarrow>
     string_at (function_name sy) m (lit_debug_symbol_map sy) map_label \<and>
     string_at (function_name sy) m (lit_idt_common_handler sy) handler_name \<and>
     (\<exists>before f after. module_response b = Some (before @ f # after) \<and>
        (\<forall>g\<in>set before. \<exists>cs. string_at (function_name sy) m (lf_string g) cs \<and> cmp_bytes cs map_label \<noteq> 0) \<and>
        string_at (function_name sy) m (lf_string f) map_label \<and> map_file (function_name sy) m f ls)"

lemma map_loaded_same_off:
  assumes "map_loaded sy b ls m" and "same_off (function_name sy) m m'"
  shows "map_loaded sy b ls m'"
proof -
  have "map_file (function_name sy) m' f ls" if "map_file (function_name sy) m f ls" for f
    using that cstr_same_off [OF _ assms(2)] by (auto simp: map_file_def)
  then show ?thesis
    using assms(1) string_at_same_off [OF _ assms(2)] unfolding map_loaded_def by blast
qed

lemma cmp_bytes_same [simp]: "cmp_bytes cs cs = 0"
  by (simp add: cmp_bytes_zero_iff)

lemma strcmp_string_at:
  assumes "string_at fn m a cs" and "string_at fn m b ds"
  shows "strcmp m a b = Some (cmp_bytes cs ds)"
proof -
  obtain x xs y ys where "cs = x # xs" "ds = y # ys"
    using assms by (cases cs; cases ds) (auto simp: string_at_def)
  then show ?thesis using assms strcmp_cstr [of m a x xs b y ys] by (simp add: string_at_def)
qed

lemma find_symbol_map_before:
  assumes "string_at fn m lit map_label" and "string_at fn m (lf_string f) map_label"
    and "\<forall>g\<in>set before. \<exists>cs. string_at fn m (lf_string g) cs \<and> cmp_bytes cs map_label \<noteq> 0"
  shows "find_symbol_map m lit (before @ f # after) = Some (Some f)"
  using assms(3)
proof (induction before)
  case Nil
  then show ?case using strcmp_string_at [OF assms(2,1)] by simp
next
  case (Cons g before)
  then obtain cs where "string_at fn m (lf_string g) cs" "cmp_bytes cs map_label \<noteq> 0" by auto
  then show ?case using strcmp_string_at [OF _ assms(1)] Cons by simp
qed

text \<open>\<open>strncmp\<close> always ends, and tells whether the name counts as that of the handler.\<close>

lemma strncmp_from_total: "i < n \<Longrightarrow> \<exists>d. strncmp_from m a b n i = Some d"
proof (induction "unat n - unat i" arbitrary: a b i rule: less_induct)
  case less
  have dec: "unat n - unat (i + 1) < unat n - unat i"
    using less.prems word_Suc_less [OF less.prems] by (simp add: word_less_nat_alt)
  show ?case
  proof (cases "m a = m b \<and> m (a + 1) \<noteq> 0 \<and> m (b + 1) \<noteq> 0 \<and> i + 1 < n")
    case True
    then show ?thesis using less.hyps [OF dec] by (subst strncmp_from.simps) (simp add: Let_def)
  next
    case False
    then show ?thesis by (subst strncmp_from.simps) (auto simp: Let_def)
  qed
qed

definition counts_as_handler :: "u8 list \<Rightarrow> bool" where
  "counts_as_handler name \<longleftrightarrow> name \<noteq> [] \<and> (prefix name handler_name \<or> prefix handler_name name)"

lemma handler_name_cases: obtains xs where "handler_name = 0x69 # xs" "length handler_name = 18"
  by (simp add: handler_name_def bytes_of_def)

lemma strncmp_handler:
  assumes "string_at fn m lit handler_name" and "cstr m fn name" and "length name \<le> 63"
  shows "\<exists>d. strncmp m lit fn 63 = Some d \<and> (d = 0 \<longleftrightarrow> counts_as_handler name)"
proof -
  obtain xs where h: "handler_name = 0x69 # xs" "length handler_name = 18" by (rule handler_name_cases)
  show ?thesis
  proof (cases "name = []")
    case True
    have "m lit = 0x69" using assms(1) unfolding string_at_def h(1) by simp
    then show ?thesis
      using assms(2) True
      by (simp add: strncmp_def strncmp_from.simps [of m lit] counts_as_handler_def Let_def)
  next
    case False
    have "strncmp m lit fn 63 = Some (cmp_bytes (take (unat (63 :: u64)) handler_name) (take (unat (63 :: u64)) name))"
      by (rule strncmp_cstr) (use assms False in \<open>simp_all add: string_at_def\<close>)
    then show ?thesis
      using assms(3) h(2) False by (auto simp: cmp_bytes_zero_iff counts_as_handler_def)
  qed
qed

lemma name_text_cstr:
  assumes "cstr m fn name" and "length name \<le> 63"
  shows "name_text m fn = map (\<lambda>b. char_of (unat b)) name"
proof -
  let ?l = "map (\<lambda>k. m (fn + of_nat k)) [0..<64]"
  have "take (length name) ?l = name"
    using assms by (intro nth_equalityI) (simp_all add: cstr_iff)
  moreover have "drop (length name) ?l = 0 # drop (Suc (length name)) ?l"
    using assms by (subst Cons_nth_drop_Suc [symmetric]) (simp_all add: cstr_iff del: upt_Suc)
  ultimately have "?l = name @ 0 # drop (Suc (length name)) ?l" by (metis append_take_drop_id)
  moreover have "takeWhile (\<lambda>b. b \<noteq> 0) (name @ 0 # r) = name" for r
    using cstr_nonzero [OF assms(1)] by (subst takeWhile_append2) auto
  ultimately show ?thesis unfolding name_text_def by metis
qed

lemma symbol_name_length: "symbol_name ret ls = Some name \<Longrightarrow> length name \<le> 63"
  by (auto simp: symbol_name_def split: list.splits)

text \<open>What one look-up does.\<close>

lemma lookup:
  assumes "map_loaded sy b ls (mem s)"
  defines "fn \<equiv> function_name sy"
  shows "\<exists>m' h. s_print_function_name sy b ret skip s =
             Inr ((), s\<lparr>mem := m', s_was_common_handler := h,
                        klogs := klogs s @ (if skip then [] else [Kprintf ''%s'' [KStr (name_text m' fn)]])\<rparr>) \<and>
           same_off fn (mem s) m' \<and>
           (case symbol_name ret ls of
              None \<Rightarrow> m' = mem s
            | Some name \<Rightarrow> cstr m' fn name \<and> name_text m' fn = map (\<lambda>b. char_of (unat b)) name \<and>
                (h \<longleftrightarrow> counts_as_handler name))"
proof -
  obtain before f after where mods: "module_response b = Some (before @ f # after)"
      and find: "find_symbol_map (mem s) (lit_debug_symbol_map sy) (before @ f # after) = Some (Some f)"
      and f: "map_file fn (mem s) f ls" and lit: "string_at fn (mem s) (lit_idt_common_handler sy) handler_name"
    using assms(1) find_symbol_map_before [of fn "mem s"] unfolding map_loaded_def fn_def by blast
  have "\<exists>m'. symbol_loop fn ret (lf_address f) (lf_size f) (lf_address f + of_nat 0) (mem s) = Some (Some m') \<and>
      same_off fn (mem s) m' \<and> (case symbol_name ret ls of None \<Rightarrow> m' = mem s | Some name \<Rightarrow> cstr m' fn name)"
    by (rule symbol_loop_lines) (use f in \<open>simp_all add: map_file_def\<close>)
  then obtain m' where m': "symbol_loop fn ret (lf_address f) (lf_size f) (lf_address f) (mem s) = Some (Some m')"
      "same_off fn (mem s) m'" "case symbol_name ret ls of None \<Rightarrow> m' = mem s | Some name \<Rightarrow> cstr m' fn name"
    by auto
  obtain d where d: "strncmp m' (lit_idt_common_handler sy) fn 63 = Some d"
    using strncmp_from_total [of 0 63 m' "lit_idt_common_handler sy" fn] by (auto simp: strncmp_def)
  have run: "s_print_function_name sy b ret skip s =
      Inr ((), s\<lparr>mem := m', s_was_common_handler := (d = 0),
                 klogs := klogs s @ (if skip then [] else [Kprintf ''%s'' [KStr (name_text m' fn)]])\<rparr>)"
    using find m'(1) d unfolding s_print_function_name_def limine_data_get_module_response_def mods fn_def by simp
  have "case symbol_name ret ls of None \<Rightarrow> m' = mem s
      | Some name \<Rightarrow> cstr m' fn name \<and> name_text m' fn = map (\<lambda>b. char_of (unat b)) name \<and>
          (d = 0 \<longleftrightarrow> counts_as_handler name)"
  proof (cases "symbol_name ret ls")
    case (Some name)
    then have n: "cstr m' fn name" "length name \<le> 63" using m'(3) symbol_name_length by auto
    show ?thesis
      using strncmp_handler [OF string_at_same_off [OF lit m'(2)] n] d n name_text_cstr [OF n] Some by auto
  qed (use m'(3) in simp)
  then show ?thesis using run m'(2) by blast
qed

section \<open>One frame\<close>

lemma lookup_step:
  assumes "map_loaded sy b ls (mem s)"
  obtains t where "s_print_function_name sy b ret skip s = Inr ((), t)" and "map_loaded sy b ls (mem t)"
    and "same_off (function_name sy) (mem s) (mem t)" and "set (klogs s) \<subseteq> set (klogs t)"
    and "length (klogs t) \<le> length (klogs s) + 1"
    and "\<And>name. symbol_name ret ls = Some name \<Longrightarrow> s_was_common_handler t = counts_as_handler name"
proof -
  obtain m' h where l: "s_print_function_name sy b ret skip s =
      Inr ((), s\<lparr>mem := m', s_was_common_handler := h,
        klogs := klogs s @ (if skip then [] else [Kprintf ''%s'' [KStr (name_text m' (function_name sy))]])\<rparr>)"
      "same_off (function_name sy) (mem s) m'"
      "case symbol_name ret ls of None \<Rightarrow> m' = mem s
       | Some name \<Rightarrow> cstr m' (function_name sy) name \<and>
           name_text m' (function_name sy) = map (\<lambda>b. char_of (unat b)) name \<and> (h \<longleftrightarrow> counts_as_handler name)"
    using lookup [OF assms, of ret skip] by blast
  show thesis
    by (rule that [OF l(1)]) (use l(2,3) map_loaded_same_off [OF assms l(2)] in auto)
qed

lemma frame_step:
  assumes "map_loaded sy b ls (mem s)" and "p \<noteq> 0" and "rd64 s (p + 8) \<noteq> 0"
  shows "\<exists>s' m1 h. trace_frames sy b (Suc n) skips p s =
             trace_frames sy b n (skips - 1) (if h then rd64 s' (p + 64) else rd64 s' p) s' \<and>
           map_loaded sy b ls (mem s') \<and> same_off (function_name sy) (mem s) (mem s') \<and>
           length (klogs s') \<le> length (klogs s) + 6 \<and> same_off (function_name sy) (mem s) m1 \<and>
           (h \<longrightarrow> Kprintf ''%sat %0p '' [KStr INDENT, KInt (load64 m1 (p + 152))] \<in> set (klogs s')) \<and>
           (\<forall>name. symbol_name (rd64 s (p + 8)) ls = Some name \<longrightarrow> h = counts_as_handler name)"
proof -
  let ?rip = "rd64 s (p + 8)"
  let ?s0 = "if skips = 0 then klog_event (Kprintf (INDENT @ ''at %0p '') [KInt ?rip]) s else s"
  let ?nl = "\<lambda>t. if skips = 0 then klog_event (Kprintf [CHR 10] []) t else t"
  have "map_loaded sy b ls (mem ?s0)" using assms(1) by simp
  then obtain t where t: "s_print_function_name sy b ?rip (skips \<noteq> 0) ?s0 = Inr ((), t)"
      "map_loaded sy b ls (mem t)" "same_off (function_name sy) (mem ?s0) (mem t)"
      "length (klogs t) \<le> length (klogs ?s0) + 1"
      "\<And>name. symbol_name ?rip ls = Some name \<Longrightarrow> s_was_common_handler t = counts_as_handler name"
    by (rule lookup_step) blast
  show ?thesis
  proof (cases "s_was_common_handler t")
    case False
    have "trace_frames sy b (Suc n) skips p s = trace_frames sy b n (skips - 1) (rd64 (?nl t) p) (?nl t)"
      using assms(2,3) t(1) False by (simp add: Let_def)
    then show ?thesis
      using False t by (intro exI [of _ "?nl t"] exI [of _ "mem t"] exI [of _ False]) auto
  next
    case True
    let ?r = "rd64 t (p + 152)"
    let ?t = "klog_event (Kprintf ''%sat %0p '' [KStr INDENT, KInt ?r]) (?nl t)"
    have "map_loaded sy b ls (mem ?t)" using t(2) by simp
    then obtain u where u: "s_print_function_name sy b ?r False ?t = Inr ((), u)"
        "map_loaded sy b ls (mem u)" "same_off (function_name sy) (mem ?t) (mem u)"
        "set (klogs ?t) \<subseteq> set (klogs u)" "length (klogs u) \<le> length (klogs ?t) + 1"
      by (rule lookup_step) blast
    let ?u = "?nl ((if skips \<noteq> 0 then klog_event (Kprintf [CHR 10] []) u else u)\<lparr>s_was_common_handler := True\<rparr>)"
    have "trace_frames sy b (Suc n) skips p s = trace_frames sy b n (skips - 1) (rd64 ?u (p + 64)) ?u"
      using assms(2,3) t(1) u(1) True by (cases "skips = 0") (simp_all add: Let_def)
    moreover have "same_off (function_name sy) (mem s) (mem u)"
      by (rule same_off_trans [of _ _ "mem t"]) (use t(3) u(3) in \<open>auto split: if_splits\<close>)
    moreover have "length (klogs ?u) \<le> length (klogs s) + 6" using t(4) u(5) by auto
    moreover have "Kprintf ''%sat %0p '' [KStr INDENT, KInt ?r] \<in> set (klogs ?u)" using u(4) by auto
    ultimately show ?thesis
      using True t(3,5) u(2) by (intro exI [of _ ?u] exI [of _ "mem t"] exI [of _ True]) auto
  qed
qed


lemma load64_same_off:
  assumes "same_off fn m m'" and "\<And>k. k < 8 \<Longrightarrow> 64 \<le> unat (p + of_nat k - fn)"
  shows "load64 m' p = load64 m p"
  by (rule load64_cong) (use assms in \<open>simp add: same_off_def\<close>)

section \<open>A concrete symbol map\<close>

definition demo_lines :: "map_line list" where
  "demo_lines =
     [\<lparr>ml_digits = bytes_of ''0000000000001000'', ml_sep = 0x20, ml_name = bytes_of ''kmain''\<rparr>,
      \<lparr>ml_digits = bytes_of ''0000000000001A00'', ml_sep = 0x20, ml_name = bytes_of ''idt_common_handler''\<rparr>]"

definition demo_symbols :: symbols where
  "demo_symbols = \<lparr>function_name = 0x9000, lit_debug_symbol_map = 0x6000, lit_idt_common_handler = 0x7000\<rparr>"

definition demo_modules :: boot_info where
  "demo_modules =
     \<lparr>base_revision_supported = True, framebuffer_response = None, flanterm_response = None, hhdm_response = None,
      memmap_response = None, paging_mode_response = None,
      module_response = Some [\<lparr>lf_address = 0x8000, lf_size = 59, lf_path = 0, lf_string = 0x6000\<rparr>],
      executable_address_response = None, rsdp_response = None\<rparr>"

text \<open>The stack frame at \<open>0x5000\<close> was made by the interrupt stub, and is its own caller.\<close>

definition demo_trace :: trace where
  "demo_trace = \<lparr>
     mem = store64 (store64
       (put_bytes (put_bytes (put_bytes (\<lambda>_. 0) 0x6000 (map_label @ [0])) 0x7000 (handler_name @ [0]))
          0x8000 (map_text demo_lines @ [0])) 0x5008 0x1a10) 0x5040 0x5000,
     cr0 = 0, cr2 = 0, cr3 = 0, io = [], invlpgs = [], klogs = [], s_was_common_handler = False\<rparr>"

lemma demo_bytes:
  "length map_label = 16" "0 \<notin> set map_label" "length handler_name = 18" "0 \<notin> set handler_name"
  "length (map_text demo_lines) = 59" "0 \<notin> set (map_text demo_lines)" "\<forall>l\<in>set demo_lines. line_wf l"
  by (simp_all add: map_label_def handler_name_def bytes_of_def demo_lines_def map_text_def line_bytes_def line_wf_def)

lemma far: "unat (p - q) + n < 2 ^ 64 \<Longrightarrow> k \<le> unat (p - q) \<Longrightarrow> j \<le> n \<Longrightarrow> k \<le> unat (p + of_nat j - (q :: u64))"
proof -
  assume a: "unat (p - q) + n < 2 ^ 64" "k \<le> unat (p - q)" "j \<le> n"
  have "unat (p - q + of_nat j) = unat (p - q) + j"
    using a by (subst unat_add_no_wrap) (simp_all add: unat_of_nat)
  moreover have "p + of_nat j - q = p - q + of_nat j" by simp
  ultimately have "unat (p + of_nat j - q) = unat (p - q) + j" by (simp only:)
  then show "k \<le> unat (p + of_nat j - q)" using a(2) by simp
qed

lemma cstr_elsewhere:
  assumes "cstr m p cs" and "unat (p - q) + length cs < 2 ^ 64" and "n \<le> unat (p - q)"
    and "\<And>a. n \<le> unat (a - q) \<Longrightarrow> m' a = m a"
  shows "cstr m' p cs"
  using assms(1) far [OF assms(2,3)] assms(4) by (auto simp: cstr_iff)

lemma demo_cstrs:
  "cstr (mem demo_trace) 0x6000 map_label" "cstr (mem demo_trace) 0x7000 handler_name"
  "cstr (mem demo_trace) 0x8000 (map_text demo_lines)"
proof -
  let ?m1 = "put_bytes (\<lambda>_. 0) 0x6000 (map_label @ [0])" and ?m2 = "\<lambda>m. put_bytes m 0x7000 (handler_name @ [0])"
    and ?m3 = "\<lambda>m. put_bytes m 0x8000 (map_text demo_lines @ [0])"
  have frames: "cstr (mem demo_trace) p cs" if "cstr (?m3 (?m2 ?m1)) p cs"
      "unat (p - 0x5008) + length cs < 2 ^ 64" "unat (p - 0x5040) + length cs < 2 ^ 64"
      "8 \<le> unat (p - 0x5008)" "8 \<le> unat (p - 0x5040)" for p cs
  proof -
    have "cstr (store64 (?m3 (?m2 ?m1)) 0x5008 0x1a10) p cs"
      by (rule cstr_elsewhere [OF that(1,2,4)]) (simp add: store64_def)
    then have "cstr (store64 (store64 (?m3 (?m2 ?m1)) 0x5008 0x1a10) 0x5040 0x5000) p cs"
      by (rule cstr_elsewhere [OF _ that(3,5)]) (simp add: store64_def)
    then show ?thesis by (simp add: demo_trace_def)
  qed
  have "cstr ?m1 0x6000 map_label" by (rule cstr_put_bytes) (simp_all add: demo_bytes)
  then have "cstr (?m2 ?m1) 0x6000 map_label"
    by (rule cstr_elsewhere [where q = "0x7000" and n = 19]) (simp_all add: demo_bytes put_bytes_def)
  then have "cstr (?m3 (?m2 ?m1)) 0x6000 map_label"
    by (rule cstr_elsewhere [where q = "0x8000" and n = 60]) (simp_all add: demo_bytes put_bytes_def)
  then show "cstr (mem demo_trace) 0x6000 map_label" by (rule frames) (simp_all add: demo_bytes)
  have "cstr (?m2 ?m1) 0x7000 handler_name" by (rule cstr_put_bytes) (simp_all add: demo_bytes)
  then have "cstr (?m3 (?m2 ?m1)) 0x7000 handler_name"
    by (rule cstr_elsewhere [where q = "0x8000" and n = 60]) (simp_all add: demo_bytes put_bytes_def)
  then show "cstr (mem demo_trace) 0x7000 handler_name" by (rule frames) (simp_all add: demo_bytes)
  have "cstr (?m3 (?m2 ?m1)) 0x8000 (map_text demo_lines)" by (rule cstr_put_bytes) (simp_all add: demo_bytes)
  then show "cstr (mem demo_trace) 0x8000 (map_text demo_lines)" by (rule frames) (simp_all add: demo_bytes)
qed

lemma demo_map_loaded: "map_loaded demo_symbols demo_modules demo_lines (mem demo_trace)"
proof -
  have off: "off_buffer 0x9000 p n" if "unat (p - 0x9000) + n < 2 ^ 64" "64 \<le> unat (p - 0x9000)" for p n
    using far [OF that] by (simp add: off_buffer_def)
  have "map_label \<noteq> []" "handler_name \<noteq> []" by (auto simp: map_label_def handler_name_def bytes_of_def)
  then show ?thesis
    unfolding map_loaded_def
    by (simp add: demo_symbols_def demo_modules_def demo_cstrs string_at_def map_file_def demo_bytes off)
      (rule exI [of _ "[]"], simp add: demo_cstrs demo_bytes off)
qed

section \<open>Properties\<close>

text \<open>\<open>s_pointer_to_number\<close> reads back a number printed with sixteen hexadecimal digits, whatever the
  case of each letter.\<close>

theorem s_pointer_to_number_roundtrip:
  assumes "\<And>i. i < 16 \<Longrightarrow> m (str + of_nat i) = hex_char (upper i) (nibble n i)"
  shows "s_pointer_to_number m str = n"
proof -
  have "fold (\<lambda>i x. add_digit (m (str + of_nat i)) (push_bit 4 x)) [0..<k] 0 = drop_bit (64 - 4 * k) n"
    if "k \<le> 16" for k
    using that
  proof (induction k)
    case 0
    have "drop_bit 64 n = 0" by (intro bit_word_eqI) (simp add: bit_simps)
    then show ?case by simp
  next
    case (Suc k)
    have "unat (nibble n k) < 16"
      unfolding nibble_def using take_bit_nat_less_exp [of 4 "unat (drop_bit (60 - 4 * k) n)"]
      by (simp add: unsigned_ucast_eq unsigned_take_bit_eq take_bit_nat_eq_self)
    then show ?case
      using Suc assms [of k] add_digit_hex [of "nibble n k" "upper k"] digits_step [of k n] by simp
  qed
  from this [of 16] show ?thesis by (simp add: s_pointer_to_number_def)
qed

theorem s_pointer_to_number_roundtrip_witness:
  "s_pointer_to_number (\<lambda>a. hex_char True (nibble 0xffffffff80001a2b (unat a))) 0 = 0xffffffff80001a2b"
  by (rule s_pointer_to_number_roundtrip [where upper = "\<lambda>_. True"]) (simp add: unat_of_nat)

text \<open>C38: With a symbol map loaded, looking up an address that some line covers leaves in the buffer the
  name (cut to 63 characters) of the last line before the first one with a greater address, prints it
  unless told not to, and changes no other memory: the newlines it overwrites on the way are restored.
  The name counts as that of the interrupt stub when one of the two is a prefix of the other.\<close>

theorem s_print_function_name_correct:
  assumes "map_loaded sy b ls (mem s)" and "symbol_name ret ls = Some name"
  shows "\<exists>s'. s_print_function_name sy b ret skip s = Inr ((), s') \<and>
           cstr (mem s') (function_name sy) name \<and> same_off (function_name sy) (mem s) (mem s') \<and>
           (s_was_common_handler s' \<longleftrightarrow> counts_as_handler name) \<and>
           klogs s' = klogs s @
             (if skip then [] else [Kprintf ''%s'' [KStr (map (\<lambda>b. char_of (unat b)) name)]])"
proof -
  obtain m' where "s_print_function_name sy b ret skip s =
      Inr ((), s\<lparr>mem := m', s_was_common_handler := counts_as_handler name,
        klogs := klogs s @ (if skip then [] else [Kprintf ''%s'' [KStr (name_text m' (function_name sy))]])\<rparr>)"
      "same_off (function_name sy) (mem s) m'" "cstr m' (function_name sy) name"
      "name_text m' (function_name sy) = map (\<lambda>b. char_of (unat b)) name"
    using lookup [OF assms(1), of ret skip] assms(2) by auto
  then show ?thesis by simp
qed

lemma text_bytes_of: "map (\<lambda>b. char_of (unat b)) (bytes_of str) = str"
proof -
  have "char_of (unat (of_nat (of_char c) :: u8)) = c" for c by (simp add: unat_of_nat)
  then show ?thesis by (simp add: bytes_of_def comp_def)
qed

lemma demo_symbol_names:
  "symbol_name 0x1234 demo_lines = Some (bytes_of ''kmain'')" "symbol_name 0x1a10 demo_lines = Some handler_name"
proof -
  have "line_addr (hd demo_lines) = 0x1000" "line_addr (demo_lines ! 1) = 0x1a00"
    by (simp_all add: demo_lines_def line_addr_def number_of_digits_def bytes_of_def add_digit_def)
  then show "symbol_name 0x1234 demo_lines = Some (bytes_of ''kmain'')" "symbol_name 0x1a10 demo_lines = Some handler_name"
    by (simp_all add: symbol_name_def demo_lines_def bytes_of_def handler_name_def)
qed

theorem s_print_function_name_correct_witness:
  "\<exists>s'. s_print_function_name demo_symbols demo_modules 0x1234 False demo_trace = Inr ((), s') \<and>
     \<not> s_was_common_handler s' \<and> klogs s' = [Kprintf ''%s'' [KStr ''kmain'']]"
proof -
  have "klogs demo_trace = []" "\<not> counts_as_handler (bytes_of ''kmain'')"
    by (simp_all add: demo_trace_def counts_as_handler_def handler_name_def bytes_of_def)
  then show ?thesis
    using s_print_function_name_correct [OF demo_map_loaded demo_symbol_names(1), of False]
    by (auto simp: text_bytes_of)
qed



text \<open>C40: A frame whose return address lies in the interrupt stub is followed by the saved processor state:
  the trace prints the interrupted instruction from \<open>rip\<close> and goes on at the interrupted frame from
  \<open>rbp\<close>, the fields of \<open>state_t\<close> as \<open>idt.h\<close> lays them out.\<close>

theorem trace_frames_interrupt:
  assumes "map_loaded sy b ls (mem s)" and "p \<noteq> 0" and "rd64 s (p + 8) \<noteq> 0"
    and "symbol_name (rd64 s (p + 8)) ls = Some name" and "counts_as_handler name"
    and "off_buffer (function_name sy) p 192"
  defines "st \<equiv> load_state (mem s) (p + 16)"
  shows "\<exists>s'. trace_frames sy b (Suc n) skips p s = trace_frames sy b n (skips - 1) (st_rbp st) s' \<and>
           Kprintf ''%sat %0p '' [KStr INDENT, KInt (st_rip st)] \<in> set (klogs s') \<and>
           map_loaded sy b ls (mem s')"
proof -
  obtain s' m1 where f: "trace_frames sy b (Suc n) skips p s = trace_frames sy b n (skips - 1) (rd64 s' (p + 64)) s'"
      "map_loaded sy b ls (mem s')" "same_off (function_name sy) (mem s) (mem s')" "same_off (function_name sy) (mem s) m1"
      "Kprintf ''%sat %0p '' [KStr INDENT, KInt (load64 m1 (p + 152))] \<in> set (klogs s')"
    using frame_step [OF assms(1-3), of n skips] assms(4,5) by auto
  have off: "load64 m' (p + of_nat d) = load64 (mem s) (p + of_nat d)"
    if "same_off (function_name sy) (mem s) m'" "d \<le> 184" for m' d
  proof (rule load64_same_off [OF that(1)])
    fix k :: nat assume "k < 8"
    then show "64 \<le> unat (p + of_nat d + of_nat k - function_name sy)"
      using assms(6) that(2) by (auto simp: off_buffer_def add.assoc dest!: spec [of _ "d + k"])
  qed
  have "rd64 s' (p + 64) = st_rbp st" "load64 m1 (p + 152) = st_rip st"
    using off [OF f(3), of 64] off [OF f(4), of 152] by (simp_all add: st_def load_state_def add.assoc)
  then show ?thesis using f(1,2,5) by auto
qed

lemma demo_frame: "rd64 demo_trace 0x5008 = 0x1a10" "rd64 demo_trace 0x5040 = 0x5000"
proof -
  have "apart 0x5008 0x5040" by (simp add: apart_def)
  then show "rd64 demo_trace 0x5008 = 0x1a10" "rd64 demo_trace 0x5040 = 0x5000"
    by (simp_all add: demo_trace_def load64_store64_apart load64_store64_same)
qed

theorem trace_frames_interrupt_witness:
  "\<exists>s'. trace_frames demo_symbols demo_modules 64 3 0x5000 demo_trace =
     trace_frames demo_symbols demo_modules 63 2 0x5000 s'"
proof -
  have "off_buffer 0x9000 0x5000 192" using far [of "0x5000" "0x9000" 192 64] by (simp add: off_buffer_def)
  moreover have "counts_as_handler handler_name" by (simp add: counts_as_handler_def handler_name_def bytes_of_def)
  ultimately obtain s' where "trace_frames demo_symbols demo_modules (Suc 63) 3 0x5000 demo_trace =
      trace_frames demo_symbols demo_modules 63 (3 - 1) (st_rbp (load_state (mem demo_trace) (0x5000 + 16))) s'"
    using trace_frames_interrupt [OF demo_map_loaded, of "0x5000" handler_name 63 3] demo_frame(1) demo_symbol_names(2)
    by (auto simp: demo_symbols_def)
  moreover have "st_rbp (load_state (mem demo_trace) (0x5000 + 16)) = 0x5000"
    using demo_frame(2) by (simp add: load_state_def)
  ultimately show ?thesis by auto
qed

end
