(* ===== verification/IdtTrace.thy ===== *)
theory IdtTrace
  imports StacktraceProps
begin

text \<open>
  The exception path of \<open>src/int/idt.c\<close>: the report that \<open>s_print_regs\<close> prints, the stack trace that
  ends it, and the halt of the processor.
\<close>

section \<open>What a stack trace leaves alone\<close>

text \<open>It prints, and touches no port and no control register, whatever it finds.\<close>

definition only_prints :: "'z trace_scheme \<Rightarrow> 'z trace_scheme \<Rightarrow> bool" where
  "only_prints s t \<longleftrightarrow> io t = io s \<and> cr0 t = cr0 s \<and> cr2 t = cr2 s \<and> cr3 t = cr3 s \<and> (\<exists>l. klogs t = klogs s @ l)"

lemma only_prints_refl [simp]: "only_prints s s"
  by (simp add: only_prints_def)



section \<open>The report\<close>



section \<open>Properties\<close>



end
