(* ===== verification/Spec2Isabelle.thy ===== *)
theory Spec2Isabelle
  imports BootRun CtxNew VmSpec Tlb IdtAsm IdtTrace
begin

text \<open>
  ratos is a small x86-64 kernel in C and assembly (\<open>src/src/\<close>). The boot loader enters \<open>kmain\<close> in 64-bit
  mode; the kernel checks the boot loader's answers, brings up a terminal, loads its descriptor tables,
  builds a page allocator and page tables, finds the local APIC with the help of uACPI, and then idles.
  This library models all of that code over one byte memory and states what makes it correct.

  \<^bold>\<open>Parts of the program and where they are modelled\<close>

  \<^item> \<open>Prelude\<close>: machine integers as words; the type \<open>res\<close> of a routine that returns (\<open>Inr\<close>) or does not: it
    halts (\<open>Hcf\<close>), hangs (\<open>Spin\<close>) or does something undefined such as going through \<open>NULL\<close> (\<open>Fault\<close>); the
    kernel's counting loops \<open>for_step\<close> and \<open>search_step\<close>, which hang when the counter wraps, with their
    total-correctness rules.
  \<^item> \<open>Memory\<close>: the byte memory with little-endian 64-bit cells; locale \<open>cell_store\<close> states the laws of such
    cells and is interpreted on it.
  \<^item> \<open>Util\<close> (\<open>util.h\<close>): rounding, bit masks and port accesses. \<open>CString\<close> (\<open>string.c\<close>): all string routines.
  \<^item> \<open>Machine\<close>: the state the components share: memory, control registers, the history of port accesses,
    the flushed translations and the messages logged. \<open>Limine\<close> (\<open>limine_data.c\<close>): the boot loader's answers
    (a response pointer is an \<open>option\<close>) and the checks on them.
  \<^item> \<open>Phys\<close> (\<open>mem/phys.c\<close>): the page allocator, a bitmap in memory. \<open>PhysSpec\<close> and \<open>PhysInit\<close> say what its
    operations do to the set of used frames; locale \<open>page_allocator\<close> (\<open>Allocator\<close>) is the contract that its
    clients rely on, interpreted in \<open>PhysProps\<close>, which holds the properties.
  \<^item> \<open>Virt\<close> (\<open>mem/virt.c\<close>): the four-level page tables. \<open>VirtSpec\<close> defines the tree of tables, the invariant
    \<open>vm_inv\<close> and the translation \<open>view\<close> that the tables stand for; \<open>VirtStep\<close> and \<open>VirtOps\<close> say what writing
    an entry and adding a table do to them; locale \<open>page_writer\<close> (\<open>PageLoop\<close>) is the contract between one
    pass and a loop over a range; \<open>VirtLoops\<close>, \<open>VirtProps\<close> and \<open>VirtAlloc\<close> (with locale \<open>page_mapper\<close>, which
    both allocators interpret) give the operations on ranges, and \<open>PageTables\<close> counts the tables a range can
    need; \<open>VmRun\<close> puts the operations together as a step relation on requests, and \<open>VmSpec\<close> is the abstract
    machine that such runs refine. \<open>Overlay\<close> says what a list of ranges translates to, \<open>FirstFrames\<close> how the first three frames become a context, and \<open>VirtInit\<close> puts
    both together to the result of \<open>virt_init\<close>; \<open>VirtCtx\<close> and \<open>CtxNew\<close> do the same for \<open>virt_ctx_new\<close>.
    \<open>Mmu\<close> models how the processor translates an address and shows that on the kernel's tables it agrees
    with \<open>view\<close>; \<open>Tlb\<close> adds the translations it caches and what the operations have to flush.
  \<^item> \<open>SerialRegs\<close> (\<open>drv/rs232.h\<close>), \<open>Serial\<close> (\<open>drv/rs232.c\<close>, \<open>drv/pit.c\<close>), \<open>Term\<close> (\<open>drv/term.c\<close>): the serial line, the timer, printing.
  \<^item> \<open>Gdt\<close> (\<open>mem/gdt.c\<close>, \<open>gdt.h\<close>, \<open>gdt.asm\<close>); \<open>IdtGates\<close>, \<open>Idt\<close> (\<open>int/idt.c\<close>, \<open>idt.h\<close>) and \<open>IdtAsm\<close> (\<open>int/idt.asm\<close>):
    descriptors, gates, interrupt controllers, the handler and the stubs around it.
  \<^item> \<open>Stacktrace\<close> (\<open>debug/stacktrace.c\<close>): the frame walk and the symbol map; properties in \<open>StacktraceProps\<close>;
    \<open>IdtTrace\<close> the exception path of the handler, which ends in a stack trace.
  \<^item> \<open>Acpi\<close> (\<open>acpi/acpi.c\<close>, \<open>kernel_api.c\<close>, \<open>lapic.c\<close>), \<open>Lapic\<close> (\<open>lapic.h\<close>), properties in \<open>AcpiProps\<close>.
  \<^item> \<open>Boot\<close> (\<open>main.c\<close>, \<open>cpuid.h\<close>): \<open>kmain\<close>, composed of the models of the components; \<open>BootProps\<close> goes
    up to the set-up of paging, \<open>BootRun\<close> on to the idle loop, with the contract that uACPI has to keep.

  The state grows along the calls: \<open>machine\<close>, extended by the static variables of the page allocator
  (\<open>phys\<close>), of the page tables (\<open>virt\<close>), of ACPI (\<open>acpi\<close>) and by the descriptor tables (\<open>kernel\<close>); an
  operation is polymorphic in the rest of the record. Pointers are addresses and \<open>NULL\<close> is 0; the
  tables, the bitmap, strings, stack frames and the saved processor state all lie in the one memory, so
  that every statement about them includes that no two of them overlap.

  \<^bold>\<open>What the lemmas show\<close>

  Page allocator: the functional behaviour of every operation, refinement of an allocator over a set of
  free frames, and initialisation from any well-formed memory map. Page tables: mapping, unmapping and
  the searching allocators change exactly the translations they should, keep every table and every byte
  that belongs to someone else, and return whenever enough frames are left; runs of any such requests keep
  the invariant, can always go on and refine an abstract address space; the processor translates addresses the way the tables say, and none
  of the translations it caches is ever stale, however it fills and drops them between requests. Drivers: the
  bytes on the wire and on the screen, and that the routines end. Interrupts: an interrupt leaves no
  trace in the code it interrupts; exceptions are reported and stop the machine. Stack traces end on every stack and name the right functions. ACPI: exactly when
  the walk over the MADT ends, and what the mappings given to uACPI translate to. Boot: what is checked,
  what holds when paging is set up, what the first address space maps, and that the sequence ends in its
  idle loop with all of it in place. Strings: the comparisons compare only up to the end of the shorter one.

  \<^bold>\<open>Bounds and hypotheses\<close>

  There is no fuel: bounded loops are terminating functions and unbounded ones partial functions whose
  \<open>None\<close> is a call that never returns. The properties of the page tables ask for as many free frames as tables
  can be missing: \<open>max_tables n\<close> for \<open>n\<close> pages, at most three per page and one per 512 pages, 512 tables and
  so on (the frames themselves come on top where they are allocated, \<open>alloc_frames\<close>); and for ranges of at most \<open>2 ^ 48\<close> bytes, so
  that no page is visited twice; \<open>aspace\<close> says that the tables are distinct pages in use, apart from the
  bitmap, and reached through the direct map; big pages are not mapped. The usable entries of the
  memory map are page aligned and, like its last entry, end within \<open>2 ^ 48\<close> bytes. Booting further asks that
  the bitmap reaches behind every usable entry, that the frames left over are zero and enough for the tables,
  and that one page above the start of the direct map stays free.

  \<^bold>\<open>Not modelled\<close>

  Code that is not in the repository is a parameter: the boot loader's structures, \<open>nanoprintf\<close> (the
  characters a format gives), \<open>flanterm\<close> (the calls made to it), uACPI (its two entry points and the layout
  of the tables), the devices behind the ports (a function of the whole history), the model-specific
  registers, \<open>cpuid\<close>, and the addresses the linker chooses. Messages in other components are recorded as
  events and not rendered; \<open>Term\<close> models how one is printed. Messages under \<open>EXTREMELY_VERBOSE_LOGGING\<close> are
  not compiled in. The processor's own part (\<open>iret\<close>, \<open>lgdt\<close>, \<open>lidt\<close>) is reduced to the registers it sets; address
  translation is modelled for supervisor accesses to 4 KiB pages (the walk knows big pages and user
  accesses, but the kernel's tables are only related to the former), with write protection on, and the bits
  that the processor sets itself in an entry (accessed, dirty) are not. The top-level table that \<open>virt_init\<close> starts from is not cleared by the
  code: that its frame is zero is a hypothesis. The memory is flat: a page that \<open>virt_alloc\<close> maps and the
  frame behind it are not identified, so nothing is said about the same byte at two addresses. \<open>proc/proc.h\<close> declares a function without a
  definition; \<open>uacpi_config.h\<close>, the linker script, the build files and the debugger helper hold no kernel
  logic.
\<close>

end
